(* ===== verification/Prelude.thy ===== *)
theory Prelude
  imports Main "HOL-Library.Word" "HOL-Library.Signed_Division"
begin

text \<open>
  The vocabulary shared by every component of the development: the Go integer types as
  fixed-width words, Go errors as values with wrapping and \<open>errors.Is\<close>, results as sums
  (\<open>Inl\<close> is the non-nil error), and the generic lemmas on words and truncating division that
  the component proofs rest on.
\<close>

named_theorems word_simps \<open>signed and unsigned readings of word arithmetic without wrap-around\<close>
named_theorems golib \<open>equations of the Go standard-library functions the sources call\<close>

section \<open>Go integers\<close>

text \<open>
  A Go integer of width \<open>w\<close> is a word of that width; the signed types are read with
  \<^const>\<open>sint\<close>, the unsigned ones with \<^const>\<open>unat\<close> or \<^const>\<open>uint\<close>. Arithmetic wraps.
\<close>

type_synonym int64 = "64 word"
type_synonym uint64 = "64 word"
type_synonym int32 = "32 word"
type_synonym uint32 = "32 word"
type_synonym int16 = "16 word"

abbreviation max_int64 :: int where "max_int64 \<equiv> 9223372036854775807"
abbreviation min_int64 :: int where "min_int64 \<equiv> - 9223372036854775808"
abbreviation max_int32 :: int where "max_int32 \<equiv> 2147483647"
abbreviation min_int32 :: int where "min_int32 \<equiv> - 2147483648"

definition is_int64 :: "int \<Rightarrow> bool" where
  "is_int64 k \<longleftrightarrow> min_int64 \<le> k \<and> k \<le> max_int64"

definition is_int32 :: "int \<Rightarrow> bool" where
  "is_int32 k \<longleftrightarrow> min_int32 \<le> k \<and> k \<le> max_int32"

lemma sint64_range: "min_int64 \<le> sint (a :: int64)" "sint (a :: int64) \<le> max_int64"
  using sint_range_size [of a] by (simp_all add: word_size)

lemma sint32_range: "min_int32 \<le> sint (a :: int32)" "sint (a :: int32) \<le> max_int32"
  using sint_range_size [of a] by (simp_all add: word_size)

lemma is_int64_sint [simp, intro]: "is_int64 (sint (a :: int64))"
  by (simp add: is_int64_def sint64_range)

lemma is_int32_sint [simp, intro]: "is_int32 (sint (a :: int32))"
  by (simp add: is_int32_def sint32_range)

lemma sint64_of_int [word_simps]: "is_int64 k \<Longrightarrow> sint (word_of_int k :: int64) = k"
  by (simp add: is_int64_def signed_take_bit_int_eq_self sint_sbintrunc')

lemma sint32_of_int [word_simps]: "is_int32 k \<Longrightarrow> sint (word_of_int k :: int32) = k"
  by (simp add: is_int32_def signed_take_bit_int_eq_self sint_sbintrunc')


lemma is_int64_iff: "is_int64 k \<longleftrightarrow> - (2 ^ 63) \<le> k \<and> k < 2 ^ 63"
  by (auto simp: is_int64_def)

lemma is_int32_iff: "is_int32 k \<longleftrightarrow> - (2 ^ 31) \<le> k \<and> k < 2 ^ 31"
  by (auto simp: is_int32_def)

text \<open>Addition, subtraction, negation and multiplication are exact when the exact result fits.\<close>

lemma sint64_add [word_simps]: "is_int64 (sint a + sint b) \<Longrightarrow> sint (a + b :: int64) = sint a + sint b"
  using sint64_of_int [of "sint a + sint b"] by simp

lemma sint64_diff [word_simps]: "is_int64 (sint a - sint b) \<Longrightarrow> sint (a - b :: int64) = sint a - sint b"
  using sint64_of_int [of "sint a - sint b"] by simp

lemma sint64_minus [word_simps]: "is_int64 (- sint a) \<Longrightarrow> sint (- a :: int64) = - sint a"
  using sint64_of_int [of "- sint a"] by simp

lemma sint32_add [word_simps]: "is_int32 (sint a + sint b) \<Longrightarrow> sint (a + b :: int32) = sint a + sint b"
  using sint32_of_int [of "sint a + sint b"] by simp

lemma sint32_diff [word_simps]: "is_int32 (sint a - sint b) \<Longrightarrow> sint (a - b :: int32) = sint a - sint b"
  using sint32_of_int [of "sint a - sint b"] by simp

lemma sint64_eq_iff: "a = b \<longleftrightarrow> sint a = sint (b :: int64)"
  by (auto intro: signed_word_eqI)

lemma sint64_zero_iff [simp]: "sint a = 0 \<longleftrightarrow> a = (0 :: int64)"
  using sint64_eq_iff [of a 0] by simp

lemma sint32_eq_iff: "a = b \<longleftrightarrow> sint a = sint (b :: int32)"
  by (auto intro: signed_word_eqI)

text \<open>Unsigned readings.\<close>

lemma unat64_less: "unat (a :: uint64) < 2 ^ 64"
  using unsigned_less [of a] by simp

lemma unat32_less: "unat (a :: uint32) < 2 ^ 32"
  using unsigned_less [of a] by simp

lemma unat64_of_nat [word_simps]: "n < 2 ^ 64 \<Longrightarrow> unat (of_nat n :: uint64) = n"
  by (simp add: unat_of_nat)

lemma uint64_of_int: "0 \<le> k \<Longrightarrow> k < 2 ^ 64 \<Longrightarrow> uint (word_of_int k :: uint64) = k"
  by (simp add: uint_word_of_int)

lemma unat64_eqI: "unat a = unat b \<Longrightarrow> a = (b :: uint64)"
  by (rule unsigned_word_eqI)

lemma uint64_le: "unat (k :: uint64) \<le> 9223372036854775807 \<Longrightarrow> uint k \<le> 9223372036854775807"
  using of_nat_mono [of "unat k" 9223372036854775807, where 'a = int] by simp

lemma sint64_unat: "unat (k :: int64) \<le> 9223372036854775807 \<Longrightarrow> sint k = int (unat k)"
  using sint64_of_int [of "uint k"] uint64_le [of k] uint_ge_0 [of k]
  by (simp add: is_int64_def)

lemma sint64_uminus_unat: "unat (k :: int64) \<le> 9223372036854775807 \<Longrightarrow> sint (- k) = - int (unat k)"
proof -
  assume "unat k \<le> 9223372036854775807"
  then have "sint k = uint k" "uint k \<le> max_int64" "0 \<le> uint k"
    by (simp_all add: sint64_unat uint64_le)
  moreover from this have "is_int64 (- sint k)" unfolding is_int64_def by (intro conjI; linarith)
  ultimately show ?thesis by (simp add: sint64_minus)
qed

lemma sint32_nonneg_uint: "0 \<le> sint (n :: int32) \<Longrightarrow> uint n = sint n"
proof -
  assume "0 \<le> sint n"
  moreover have "uint (of_int (sint n) :: int32) = sint n mod 2 ^ 32" by (simp only: uint_word_of_int) simp
  then have "uint n = sint n mod 2 ^ 32" by simp
  ultimately show ?thesis using sint32_range [of n] by simp
qed

lemma sint32_uint: "uint (n :: int32) \<le> max_int32 \<Longrightarrow> sint n = uint n"
  using sint32_of_int [of "uint n"] uint_ge_0 [of n] by (simp add: is_int32_def)

lemma sint32_mod:
  assumes "1 \<le> sint (n :: int32)"
  shows "0 \<le> sint (h mod n)" "sint (h mod n) < sint n"
proof -
  have n: "uint n = sint n" using assms by (simp add: sint32_nonneg_uint)
  have m: "uint (h mod n) = uint h mod uint n" by (simp add: uint_mod)
  have "uint (h mod n) < uint n" "0 \<le> uint (h mod n)" unfolding m using n assms by auto
  moreover from this have "sint (h mod n) = uint (h mod n)"
    using n sint32_range [of n] by (intro sint32_uint) linarith
  ultimately show "0 \<le> sint (h mod n)" "sint (h mod n) < sint n" using n by simp_all
qed

section \<open>Go errors\<close>

text \<open>
  An error is a sentinel made by \<open>errors.New\<close> at package level (identified by its text, all of
  which differ), a fresh error with a message, or a \<open>fmt.Errorf\<close> that wraps one error
  (\<open>%w\<close>) or a sentinel and a second one (\<open>%w: ... %w\<close>). Message texts are kept without the
  formatted arguments.
\<close>

datatype goerror =
    Sentinel string
  | Msg string
  | Wrap string goerror
  | Wrap2 goerror string goerror

text \<open>\<open>errors.Is\<close>: equality with the target somewhere along the chain of wrapped errors.\<close>

fun errors_Is :: "goerror \<Rightarrow> goerror \<Rightarrow> bool" where
  "errors_Is (Sentinel s) t \<longleftrightarrow> t = Sentinel s"
| "errors_Is (Msg s) t \<longleftrightarrow> t = Msg s"
| "errors_Is (Wrap s e) t \<longleftrightarrow> t = Wrap s e \<or> errors_Is e t"
| "errors_Is (Wrap2 d s e) t \<longleftrightarrow> t = Wrap2 d s e \<or> errors_Is d t \<or> errors_Is e t"

lemma errors_Is_refl [simp]: "errors_Is e e"
  by (cases e) simp_all

text \<open>A Go function with results \<open>('a, error)\<close>: \<open>Inl\<close> is the non-nil error.\<close>

type_synonym 'a result = "goerror + 'a"

text \<open>A Go function with the single result \<open>error\<close>: \<open>None\<close> is nil.\<close>

type_synonym error = "goerror option"

text \<open>Early return on error.\<close>

definition bind_res :: "'a result \<Rightarrow> ('a \<Rightarrow> 'b result) \<Rightarrow> 'b result" where
  "bind_res r f = (case r of Inl e \<Rightarrow> Inl e | Inr x \<Rightarrow> f x)"

definition wrap_res :: "string \<Rightarrow> 'a result \<Rightarrow> 'a result" where
  "wrap_res msg r = (case r of Inl e \<Rightarrow> Inl (Wrap msg e) | Inr x \<Rightarrow> Inr x)"

lemma bind_res_simps [simp]:
  "bind_res (Inl e) f = Inl e"
  "bind_res (Inr x) f = f x"
  by (simp_all add: bind_res_def)

lemma wrap_res_simps [simp]:
  "wrap_res msg (Inl e) = Inl (Wrap msg e)"
  "wrap_res msg (Inr x) = Inr x"
  by (simp_all add: wrap_res_def)

lemma bind_res_Inr_iff: "bind_res r f = Inr y \<longleftrightarrow> (\<exists>x. r = Inr x \<and> f x = Inr y)"
  by (cases r) simp_all

lemma wrap_res_Inr_iff [simp]: "wrap_res msg r = Inr y \<longleftrightarrow> r = Inr y"
  by (cases r) simp_all

lemma guard_Inr_iff: "(if c then Inl e else Inr x) = Inr y \<longleftrightarrow> \<not> c \<and> y = x"
  by auto

section \<open>Truncating division\<close>

text \<open>\<open>big.Int.Quo\<close> truncates towards zero: it is \<open>sdiv\<close>, and what it drops is less than the divisor.\<close>

lemma sdiv_remainder_bound:
  fixes k l :: int
  assumes "l \<noteq> 0"
  shows "\<bar>k - (k sdiv l) * l\<bar> < \<bar>l\<bar>"
proof -
  have "k - (k sdiv l) * l = k smod l"
    by (metis minus_sdiv_mult_eq_smod)
  moreover have "\<bar>k smod l\<bar> < \<bar>l\<bar>"
    using assms by (simp add: signed_modulo_int_def abs_mult abs_mod_less split: )
  ultimately show ?thesis by simp
qed

lemma sdiv_mult_le: "\<bar>(k sdiv l) * l\<bar> \<le> \<bar>k :: int\<bar>"
proof (cases "l = 0")
  case False
  then have m: "0 \<le> \<bar>k\<bar> mod \<bar>l\<bar>" and d: "0 \<le> \<bar>k\<bar> div \<bar>l\<bar>"
    by (simp_all add: div_int_pos_iff)
  have "\<bar>(k sdiv l) * l\<bar> \<le> \<bar>k\<bar> div \<bar>l\<bar> * \<bar>l\<bar>"
    using d by (simp add: signed_divide_int_def abs_mult sgn_if)
  also have "\<dots> \<le> \<bar>k\<bar>" using m by (simp add: minus_mod_eq_div_mult [symmetric])
  finally show ?thesis .
qed simp

lemma sdiv_out_of_range:
  assumes "\<not> is_int64 (k sdiv l)"
  shows "2 ^ 63 * \<bar>l\<bar> \<le> \<bar>k\<bar>"
proof -
  have "2 ^ 63 \<le> \<bar>k sdiv l\<bar>" using assms by (auto simp: is_int64_iff abs_if)
  then have "2 ^ 63 * \<bar>l\<bar> \<le> \<bar>k sdiv l\<bar> * \<bar>l\<bar>" by (rule mult_right_mono) simp
  then show ?thesis using sdiv_mult_le [of k l] by (simp add: abs_mult)
qed

lemma sdiv_nonneg: "0 \<le> k \<Longrightarrow> 0 < l \<Longrightarrow> k sdiv l = k div (l :: int)"
  by (simp add: signed_divide_int_def sgn_if)

end
