(* ===== verification/CoreBreaker.thy ===== *)
theory CoreBreaker
  imports Prelude
begin

text \<open>
  The circuit breaker state machine, \<open>src/internal/corebreaker/corebreaker.go\<close>. The machine's
  fields are a record, each method a function of it; the clock the Go code reads through the
  \<open>now\<close> field is an argument (nanoseconds), read at the point where the code calls it. Every method
  holds the mutex for its whole body, so concurrent use is an interleaving of whole method calls:
  the step relation \<open>brk_step\<close> at the end lets any number of callers be between \<open>Allow\<close> and
  \<open>Record\<close> at once.
\<close>

section \<open>Model of corebreaker.go\<close>

text \<open>A \<open>time.Time\<close> is a number of nanoseconds, a \<open>time.Duration\<close> an \<open>int64\<close> of them.\<close>

type_synonym time = int
type_synonym duration = int64

text \<open>\<open>time.Time.Sub\<close> saturates at the range of \<open>time.Duration\<close>.\<close>

definition time_Sub :: "time \<Rightarrow> time \<Rightarrow> duration" where
  "time_Sub t u = word_of_int (max min_int64 (min max_int64 (t - u)))"

definition ErrOpen :: goerror where
  "ErrOpen = Sentinel ''circuit breaker open''"

definition ErrInvalidConfig :: goerror where
  "ErrInvalidConfig = Sentinel ''invalid circuit breaker config''"

text \<open>No method stores a value other than the three constants, so \<open>State\<close> is an enumeration.\<close>

datatype State = Closed | Open | HalfOpen

fun State_String :: "State \<Rightarrow> string" where
  "State_String Closed = ''closed''"
| "State_String Open = ''open''"
| "State_String HalfOpen = ''half-open''"

record Config =
  FailureThreshold :: uint32
  OpenTimeout :: duration
  ProbeTimeout :: duration

definition Validate :: "Config \<Rightarrow> error" where
  "Validate cfg =
     (if FailureThreshold cfg = 0 then Some (Wrap ''FailureThreshold must be positive'' ErrInvalidConfig)
      else if sint (OpenTimeout cfg) \<le> 0 then Some (Wrap ''OpenTimeout must be a positive duration'' ErrInvalidConfig)
      else if sint (ProbeTimeout cfg) < 0 then Some (Wrap ''ProbeTimeout must not be negative'' ErrInvalidConfig)
      else None)"

record Machine =
  m_config :: Config
  m_state :: State
  m_consecutiveFailures :: uint32
  m_openedAt :: time

text \<open>\<open>New\<close>: the fields the literal does not name are zero (the zero \<open>time.Time\<close> is time 0 here).\<close>

definition New :: "Config \<Rightarrow> Machine result" where
  "New cfg = (case Validate cfg of Some err \<Rightarrow> Inl err
     | None \<Rightarrow> Inr \<lparr>m_config = cfg, m_state = Closed, m_consecutiveFailures = 0, m_openedAt = 0\<rparr>)"

text \<open>\<open>Allow\<close>: whether the call may proceed, whether it is the half-open probe, and the machine after.\<close>

definition Allow :: "time \<Rightarrow> Machine \<Rightarrow> (bool \<times> bool) \<times> Machine" where
  "Allow now m =
     (case m_state m of
        Closed \<Rightarrow> ((True, False), m)
      | HalfOpen \<Rightarrow> ((False, False), m)
      | Open \<Rightarrow>
          if sint (time_Sub now (m_openedAt m)) < sint (OpenTimeout (m_config m)) then ((False, False), m)
          else ((True, True), m\<lparr>m_state := HalfOpen\<rparr>))"

text \<open>
  A context is the deadline it carries, if any; \<open>context.WithTimeout\<close> keeps an earlier parent
  deadline.
\<close>

type_synonym ctx = "time option"

definition context_WithTimeout :: "time \<Rightarrow> ctx \<Rightarrow> duration \<Rightarrow> ctx" where
  "context_WithTimeout now ctx d =
     (case ctx of None \<Rightarrow> Some (now + sint d) | Some t \<Rightarrow> Some (min t (now + sint d)))"

definition ProbeContext :: "time \<Rightarrow> Machine \<Rightarrow> ctx \<Rightarrow> bool \<Rightarrow> ctx" where
  "ProbeContext now m ctx isProbe =
     (if isProbe \<and> sint (ProbeTimeout (m_config m)) > 0
      then context_WithTimeout now ctx (ProbeTimeout (m_config m)) else ctx)"

definition Record :: "time \<Rightarrow> error \<Rightarrow> Machine \<Rightarrow> Machine" where
  "Record now err m =
     (case m_state m of
        HalfOpen \<Rightarrow>
          (if err \<noteq> None then m\<lparr>m_state := Open, m_openedAt := now, m_consecutiveFailures := 0\<rparr>
           else m\<lparr>m_state := Closed, m_consecutiveFailures := 0\<rparr>)
      | Closed \<Rightarrow>
          (if err \<noteq> None
           then let m' = m\<lparr>m_consecutiveFailures := m_consecutiveFailures m + 1\<rparr>
                in if m_consecutiveFailures m' \<ge> FailureThreshold (m_config m')
                   then m'\<lparr>m_state := Open, m_openedAt := now, m_consecutiveFailures := 0\<rparr>
                   else m'
           else m\<lparr>m_consecutiveFailures := 0\<rparr>)
      | Open \<Rightarrow> m)"

definition ForceOpen :: "time \<Rightarrow> Machine \<Rightarrow> Machine" where
  "ForceOpen openedAt m = m\<lparr>m_state := Open, m_openedAt := openedAt\<rparr>"

section \<open>Concurrent callers\<close>

text \<open>
  A system is the machine, the clock, and the callers that got through \<open>Allow\<close> and have not yet
  called \<open>Record\<close>, each with its \<open>isProbe\<close> flag and the time it started.
\<close>

record brk_sys =
  bs_machine :: Machine
  bs_now :: time
  bs_inflight :: "nat \<rightharpoonup> bool \<times> time"

definition brk_start :: "Machine \<Rightarrow> time \<Rightarrow> brk_sys" where
  "brk_start m t = \<lparr>bs_machine = m, bs_now = t, bs_inflight = Map.empty\<rparr>"

inductive brk_step :: "brk_sys \<Rightarrow> brk_sys \<Rightarrow> bool" where
  tick: "t \<ge> bs_now s \<Longrightarrow> brk_step s (s\<lparr>bs_now := t\<rparr>)"
| admitted: "bs_inflight s i = None \<Longrightarrow> Allow (bs_now s) (bs_machine s) = ((True, p), m')
    \<Longrightarrow> brk_step s (s\<lparr>bs_machine := m', bs_inflight := (bs_inflight s)(i \<mapsto> (p, bs_now s))\<rparr>)"
| rejected: "Allow (bs_now s) (bs_machine s) = ((False, p), m') \<Longrightarrow> brk_step s (s\<lparr>bs_machine := m'\<rparr>)"
| returned: "bs_inflight s i = Some c
    \<Longrightarrow> brk_step s (s\<lparr>bs_machine := Record (bs_now s) err (bs_machine s), bs_inflight := (bs_inflight s)(i := None)\<rparr>)"

text \<open>The same steps as a function of a list of events, to run concrete schedules.\<close>

datatype brk_event = Tick time | Call nat | Return nat error

fun brk_do :: "brk_event \<Rightarrow> brk_sys \<Rightarrow> brk_sys" where
  "brk_do (Tick t) s = s\<lparr>bs_now := max (bs_now s) t\<rparr>"
| "brk_do (Call i) s =
     (if bs_inflight s i \<noteq> None then s
      else let ((ok, p), m') = Allow (bs_now s) (bs_machine s)
           in if ok then s\<lparr>bs_machine := m', bs_inflight := (bs_inflight s)(i \<mapsto> (p, bs_now s))\<rparr>
              else s\<lparr>bs_machine := m'\<rparr>)"
| "brk_do (Return i err) s =
     (if bs_inflight s i = None then s
      else s\<lparr>bs_machine := Record (bs_now s) err (bs_machine s), bs_inflight := (bs_inflight s)(i := None)\<rparr>)"

text \<open>No call in flight has been running for \<open>d\<close> or longer.\<close>

definition timely :: "duration \<Rightarrow> brk_sys \<Rightarrow> bool" where
  "timely d s \<longleftrightarrow> (\<forall>c \<in> ran (bs_inflight s). bs_now s - snd c < sint d)"

fun brk_timely :: "duration \<Rightarrow> brk_event list \<Rightarrow> brk_sys \<Rightarrow> bool" where
  "brk_timely d [] s = True"
| "brk_timely d (e # es) s = (timely d s \<and> brk_timely d es (brk_do e s))"

definition probes :: "brk_sys \<Rightarrow> nat set" where
  "probes s = {i. \<exists>t. bs_inflight s i = Some (True, t)}"

section \<open>Invariant of a machine\<close>

text \<open>
  The failure counter stays below the threshold (so the \<open>uint32\<close> increment never wraps), it is
  zero outside the closed state, and the configuration is one \<open>New\<close> accepted.
\<close>

definition machine_ok :: "Machine \<Rightarrow> bool" where
  "machine_ok m \<longleftrightarrow> Validate (m_config m) = None
     \<and> m_consecutiveFailures m < FailureThreshold (m_config m)
     \<and> (m_state m \<noteq> Closed \<longrightarrow> m_consecutiveFailures m = 0)"

lemma Validate_None_iff:
  "Validate cfg = None \<longleftrightarrow> FailureThreshold cfg \<noteq> 0 \<and> 0 < sint (OpenTimeout cfg) \<and> 0 \<le> sint (ProbeTimeout cfg)"
  by (auto simp: Validate_def)

lemma New_ok: "New cfg = Inr m \<Longrightarrow> machine_ok m \<and> m_state m = Closed \<and> m_config m = cfg"
  by (auto simp: New_def machine_ok_def Validate_None_iff word_gt_0 split: option.splits)

lemma Allow_ok: "machine_ok m \<Longrightarrow> machine_ok (snd (Allow now m))"
  by (auto simp: Allow_def machine_ok_def split: State.splits)

lemma Record_ok: "machine_ok m \<Longrightarrow> machine_ok (Record now err m)"
  by (auto simp: Record_def machine_ok_def Validate_None_iff Let_def word_gt_0 not_le split: State.splits)

lemma Allow_config [simp]: "m_config (snd (Allow now m)) = m_config m"
  by (auto simp: Allow_def split: State.splits)

lemma Record_config [simp]: "m_config (Record now err m) = m_config m"
  by (auto simp: Record_def Let_def split: State.splits)

lemma sint_time_Sub_less:
  fixes d :: duration
  assumes "0 < sint d"
  shows "sint (time_Sub t u) < sint d \<longleftrightarrow> t - u < sint d"
proof -
  have "sint (time_Sub t u) = max min_int64 (min max_int64 (t - u))"
    unfolding time_Sub_def by (rule sint64_of_int) (auto simp: is_int64_def)
  then show ?thesis
    using assms sint64_range [of d] by auto
qed

lemma Allow_Open:
  assumes "machine_ok m" "m_state m = Open"
  shows "Allow now m = (if now - m_openedAt m < sint (OpenTimeout (m_config m)) then ((False, False), m)
    else ((True, True), m\<lparr>m_state := HalfOpen\<rparr>))"
  using assms by (simp add: Allow_def sint_time_Sub_less machine_ok_def Validate_None_iff)

lemma Allow_simps:
  "m_state m = Closed \<Longrightarrow> Allow now m = ((True, False), m)"
  "m_state m = HalfOpen \<Longrightarrow> Allow now m = ((False, False), m)"
  by (simp_all add: Allow_def)

lemma Record_Open [simp]: "m_state m = Open \<Longrightarrow> Record now err m = m"
  by (simp add: Record_def)

lemma Record_opened:
  "m_state m \<noteq> Open \<Longrightarrow> m_state (Record now err m) = Open \<Longrightarrow> m_openedAt (Record now err m) = now"
  by (auto simp: Record_def Let_def split: State.splits if_splits)

lemma Record_not_HalfOpen: "m_state (Record now err m) \<noteq> HalfOpen"
  by (auto simp: Record_def Let_def split: State.splits)

inductive_cases brk_stepE: "brk_step s s'"

lemma brk_step_ok:
  "brk_step s s' \<Longrightarrow> machine_ok (bs_machine s)
    \<Longrightarrow> machine_ok (bs_machine s') \<and> m_config (bs_machine s') = m_config (bs_machine s)"
  by (erule brk_stepE)
    (auto simp: Record_ok dest: Allow_ok [where now = "bs_now s"] arg_cong [where f = "\<lambda>r. m_config (snd r)"])

section \<open>Runs of concurrent callers\<close>

definition sys_inv :: "Config \<Rightarrow> brk_sys \<Rightarrow> bool" where
  "sys_inv cfg s \<longleftrightarrow> machine_ok (bs_machine s) \<and> m_config (bs_machine s) = cfg
     \<and> (\<forall>c \<in> ran (bs_inflight s). snd c \<le> bs_now s)
     \<and> (m_state (bs_machine s) = Open \<longrightarrow> m_openedAt (bs_machine s) \<le> bs_now s)"

lemma ran_upd_None: "c \<in> ran (f(i := None)) \<Longrightarrow> c \<in> ran f"
  by (auto simp: ran_def split: if_splits)

lemma sys_inv_step: "brk_step s s' \<Longrightarrow> sys_inv cfg s \<Longrightarrow> sys_inv cfg s'"
proof (induction rule: brk_step.induct)
  case (tick s t)
  then show ?case by (force simp: sys_inv_def)
next
  case (admitted s i p m')
  then show ?case
    using brk_step.admitted [OF admitted(1,2)]
    by (auto simp: sys_inv_def dest: brk_step_ok) (auto simp: Allow_def split: State.splits if_splits)
next
  case (rejected s p m')
  then show ?case
    by (auto simp: sys_inv_def Allow_def split: State.splits if_splits)
next
  case (returned s i c err)
  have "m_state (Record (bs_now s) err (bs_machine s)) = Open
      \<Longrightarrow> m_openedAt (Record (bs_now s) err (bs_machine s)) \<le> bs_now s"
    using returned(2) Record_opened [of "bs_machine s" "bs_now s" err]
    by (cases "m_state (bs_machine s) = Open") (auto simp: sys_inv_def)
  then show ?case
    using returned by (auto simp: sys_inv_def Record_ok dest: ran_upd_None)
qed

lemma sys_inv_run: "brk_step\<^sup>*\<^sup>* s s' \<Longrightarrow> sys_inv cfg s \<Longrightarrow> sys_inv cfg s'"
  by (induction rule: rtranclp_induct) (auto intro: sys_inv_step)

lemma sys_inv_start: "New cfg = Inr m \<Longrightarrow> sys_inv cfg (brk_start m t)"
  by (auto simp: sys_inv_def brk_start_def dest: New_ok)

text \<open>While the breaker is open and the timeout has not elapsed, a step changes nothing but the
  clock and the calls already in flight.\<close>

lemma brk_step_open:
  assumes "brk_step s s'" "sys_inv cfg s" "m_state (bs_machine s) = Open"
    "bs_now s' - m_openedAt (bs_machine s) < sint (OpenTimeout cfg)"
  shows "bs_machine s' = bs_machine s \<and> bs_inflight s' \<subseteq>\<^sub>m bs_inflight s"
  using assms
  by (cases rule: brk_stepE) (auto simp: Allow_Open sys_inv_def map_le_def split: if_splits)

lemma brk_step_clock: "brk_step s s' \<Longrightarrow> bs_now s \<le> bs_now s'"
  by (auto elim: brk_stepE)

lemma brk_run_open:
  assumes "brk_step\<^sup>*\<^sup>* s s'" "sys_inv cfg s" "m_state (bs_machine s) = Open"
    "bs_now s' - m_openedAt (bs_machine s) < sint (OpenTimeout cfg)"
  shows "bs_machine s' = bs_machine s \<and> bs_inflight s' \<subseteq>\<^sub>m bs_inflight s"
  using assms(1,4)
proof (induction rule: rtranclp_induct)
  case (step y z)
  have "bs_now y \<le> bs_now z" using step(2) by (rule brk_step_clock)
  then have y: "bs_machine y = bs_machine s" "bs_inflight y \<subseteq>\<^sub>m bs_inflight s"
    using step(3,4) by auto
  have "bs_machine z = bs_machine y \<and> bs_inflight z \<subseteq>\<^sub>m bs_inflight y"
    by (rule brk_step_open [OF step(2) sys_inv_run [OF step(1) assms(2)]])
      (use step(4) assms(3) y in auto)
  then show ?case using y map_le_trans by metis
qed simp

section \<open>At most one probe\<close>

definition probe_inv :: "brk_sys \<Rightarrow> bool" where
  "probe_inv s \<longleftrightarrow>
     (case m_state (bs_machine s) of
        Closed \<Rightarrow> probes s = {}
      | Open \<Rightarrow> probes s = {} \<and> (\<forall>c \<in> ran (bs_inflight s). snd c \<le> m_openedAt (bs_machine s))
      | HalfOpen \<Rightarrow> (\<exists>i t. bs_inflight s = [i \<mapsto> (True, t)]))"

lemma timely_open_no_calls:
  assumes "timely d s" "\<forall>c \<in> ran (bs_inflight s). snd c \<le> u" "sint d \<le> bs_now s - u"
  shows "bs_inflight s = Map.empty"
proof (rule ccontr)
  assume "bs_inflight s \<noteq> Map.empty"
  then obtain c where c: "c \<in> ran (bs_inflight s)"
    by (auto simp: fun_eq_iff ran_def)
  then show False using assms unfolding timely_def by fastforce
qed

lemma probes_upd_None: "probes (s\<lparr>bs_machine := m, bs_inflight := (bs_inflight s)(i := None)\<rparr>) \<subseteq> probes s"
  by (auto simp: probes_def split: if_splits)

lemma probe_inv_admitted:
  assumes "timely (OpenTimeout cfg) s" "sys_inv cfg s" "probe_inv s"
    "Allow (bs_now s) (bs_machine s) = ((True, p), m')"
  shows "probe_inv (s\<lparr>bs_machine := m', bs_inflight := (bs_inflight s)(i \<mapsto> (p, bs_now s))\<rparr>)"
proof (cases "m_state (bs_machine s)")
  case Open
  then have "\<not> bs_now s - m_openedAt (bs_machine s) < sint (OpenTimeout cfg)"
    and m': "p" "m' = (bs_machine s)\<lparr>m_state := HalfOpen\<rparr>"
    using assms(2,4) by (auto simp: Allow_Open sys_inv_def split: if_splits)
  then have "bs_inflight s = Map.empty"
    using assms(1,3) Open by (intro timely_open_no_calls) (auto simp: probe_inv_def)
  then show ?thesis using m' by (auto simp: probe_inv_def)
qed (use assms in \<open>auto simp: Allow_simps probe_inv_def probes_def split: if_splits\<close>)

lemma probe_inv_returned:
  assumes "sys_inv cfg s" "probe_inv s" "bs_inflight s i = Some c"
  shows "probe_inv (s\<lparr>bs_machine := Record (bs_now s) err (bs_machine s), bs_inflight := (bs_inflight s)(i := None)\<rparr>)"
    (is "probe_inv ?s")
proof (cases "m_state (bs_machine s)")
  case Closed
  then have "probes ?s = {}" using assms(2) probes_upd_None by (fastforce simp: probe_inv_def)
  moreover have "\<forall>c \<in> ran (bs_inflight ?s). snd c \<le> bs_now s"
    using assms(1) by (auto simp: sys_inv_def dest: ran_upd_None)
  ultimately show ?thesis
    using Record_not_HalfOpen [of "bs_now s" err "bs_machine s"] Record_opened [of "bs_machine s" "bs_now s" err] Closed
    by (auto simp: probe_inv_def split: State.splits)
next
  case Open
  then show ?thesis
    using assms(2) by (auto simp: probe_inv_def probes_def dest: ran_upd_None split: if_splits)
next
  case HalfOpen
  then have "bs_inflight ?s = Map.empty"
    using assms(2,3) by (auto simp: probe_inv_def split: if_splits)
  then show ?thesis
    using Record_not_HalfOpen [of "bs_now s" err "bs_machine s"]
    by (auto simp: probe_inv_def probes_def split: State.splits)
qed

lemma probe_inv_step:
  assumes "brk_step s s'" "timely (OpenTimeout cfg) s" "sys_inv cfg s" "probe_inv s"
  shows "probe_inv s'"
  using assms(1)
proof cases
  case (tick t)
  then show ?thesis using assms(4) by (simp add: probe_inv_def probes_def split: State.splits)
next
  case (admitted i p m')
  then show ?thesis using probe_inv_admitted [OF assms(2-4)] by simp
next
  case (rejected p m')
  then have "m' = bs_machine s" by (auto simp: Allow_def split: State.splits if_splits)
  then show ?thesis using rejected assms(4) by simp
next
  case (returned i c err)
  then show ?thesis using probe_inv_returned [OF assms(3,4)] by simp
qed

lemma probe_inv_run:
  "(\<lambda>s s'. timely (OpenTimeout cfg) s \<and> brk_step s s')\<^sup>*\<^sup>* s s' \<Longrightarrow> sys_inv cfg s \<Longrightarrow> probe_inv s
    \<Longrightarrow> sys_inv cfg s' \<and> probe_inv s'"
  by (induction rule: rtranclp_induct) (auto intro: sys_inv_step probe_inv_step)

section \<open>Counting failures\<close>

definition failures :: "(time \<times> goerror) list \<Rightarrow> Machine \<Rightarrow> Machine" where
  "failures fs m = fold (\<lambda>(t, e). Record t (Some e)) fs m"

lemma failures_below_threshold:
  assumes "machine_ok m" "m_state m = Closed"
    "unat (m_consecutiveFailures m) + length fs < unat (FailureThreshold (m_config m))"
  shows "failures fs m = m\<lparr>m_consecutiveFailures := m_consecutiveFailures m + of_nat (length fs)\<rparr>"
  using assms
proof (induction fs arbitrary: m)
  case (Cons f fs)
  obtain t e where f: "f = (t, e)" by (cases f)
  let ?m = "m\<lparr>m_consecutiveFailures := m_consecutiveFailures m + 1\<rparr>"
  have lt: "unat (m_consecutiveFailures m) + 1 < unat (FailureThreshold (m_config m))"
    using Cons.prems(3) by simp
  then have u: "unat (m_consecutiveFailures m + 1) = unat (m_consecutiveFailures m) + 1"
    using unat32_less [of "FailureThreshold (m_config m)"]
    by (subst unat_plus_simple [THEN iffD1]) (auto simp: no_olen_add_nat)
  then have rec: "Record t (Some e) m = ?m"
    using Cons.prems(2) lt by (simp add: Record_def Let_def word_le_nat_alt)
  have "machine_ok ?m"
    using Record_ok [OF Cons.prems(1), of t "Some e"] rec by simp
  then have "failures fs ?m = ?m\<lparr>m_consecutiveFailures := m_consecutiveFailures ?m + of_nat (length fs)\<rparr>"
    using Cons.prems u by (intro Cons.IH) auto
  then show ?case using f rec by (simp add: failures_def algebra_simps)
qed (simp add: failures_def)

lemma failures_trip:
  assumes "machine_ok m" "m_state m = Closed" "m_consecutiveFailures m = 0"
    and n: "length fs + 1 = unat (FailureThreshold (m_config m))"
  shows "(\<forall>k \<le> length fs. m_state (failures (take k fs) m) = Closed
        \<and> unat (m_consecutiveFailures (failures (take k fs) m)) = k
        \<and> Record now None (failures (take k fs) m) = m)
    \<and> failures (fs @ [(t, e)]) m = m\<lparr>m_state := Open, m_openedAt := t\<rparr>"
proof -
  have m0: "m\<lparr>m_consecutiveFailures := 0\<rparr> = m"
    "m\<lparr>m_state := Open, m_openedAt := t, m_consecutiveFailures := 0\<rparr> = m\<lparr>m_state := Open, m_openedAt := t\<rparr>"
    using assms(3) by (cases m, simp)+
  have below: "failures (take k fs) m = m\<lparr>m_consecutiveFailures := of_nat k\<rparr>" if "k \<le> length fs" for k
    using failures_below_threshold [of m "take k fs"] assms that by simp
  have "unat (of_nat k :: uint32) = k" if "k \<le> length fs" for k
    using that n unat32_less [of "FailureThreshold (m_config m)"] by (simp add: unat_of_nat)
  moreover have "(of_nat (length fs) + 1 :: uint32) = FailureThreshold (m_config m)"
    using arg_cong [OF n, of "of_nat :: nat \<Rightarrow> uint32"] by (simp add: add.commute)
  ultimately show ?thesis
    using assms(2) m0 below below [of "length fs"] by (auto simp: failures_def Record_def Let_def)
qed

lemma brk_do_cases: "brk_do e s = s \<or> brk_step s (brk_do e s)"
proof (cases e)
  case (Call i)
  obtain ok p m' where a: "Allow (bs_now s) (bs_machine s) = ((ok, p), m')"
    by (metis prod.collapse)
  show ?thesis
    using Call a brk_step.admitted [of s i p m'] brk_step.rejected [of s p m']
    by (cases "bs_inflight s i"; cases ok) auto
qed (auto intro: brk_step.intros)

lemma brk_do_step: "brk_step\<^sup>*\<^sup>* s (brk_do e s)"
  using brk_do_cases [of e s] by auto

lemma brk_do_run: "brk_step\<^sup>*\<^sup>* s (fold brk_do es s)"
proof (induction es arbitrary: s)
  case (Cons e es)
  show ?case using rtranclp_trans [OF brk_do_step Cons.IH] by simp
qed simp

lemma brk_do_timely: "timely d s \<Longrightarrow> (\<lambda>s s'. timely d s \<and> brk_step s s')\<^sup>*\<^sup>* s (brk_do e s)"
  using brk_do_cases [of e s] by auto

lemma brk_do_timely_run:
  "brk_timely d es s \<Longrightarrow> (\<lambda>s s'. timely d s \<and> brk_step s s')\<^sup>*\<^sup>* s (fold brk_do es s)"
proof (induction es arbitrary: s)
  case (Cons e es)
  then show ?case using rtranclp_trans [OF brk_do_timely Cons.IH] by simp
qed simp

section \<open>Properties\<close>

text \<open>
  C31. Whatever the interleaving of callers, timeouts and outcomes, a breaker built by \<open>New\<close> keeps
  its configuration, its failure counter stays strictly below the threshold (so the \<open>uint32\<close>
  increment in \<open>Record\<close> never wraps and never exceeds the threshold unnoticed), the counter is zero
  outside the closed state, and \<open>openedAt\<close> of an open breaker is never in the future.
\<close>

theorem breaker_invariant:
  assumes "New cfg = Inr m" "brk_step\<^sup>*\<^sup>* (brk_start m t) s"
  shows "m_config (bs_machine s) = cfg
    \<and> m_consecutiveFailures (bs_machine s) < FailureThreshold cfg
    \<and> (m_state (bs_machine s) \<noteq> Closed \<longrightarrow> m_consecutiveFailures (bs_machine s) = 0)
    \<and> (m_state (bs_machine s) = Open \<longrightarrow> m_openedAt (bs_machine s) \<le> bs_now s)"
  using sys_inv_run [OF assms(2) sys_inv_start [OF assms(1)]]
  by (auto simp: sys_inv_def machine_ok_def)

definition demo_config :: Config where
  "demo_config = \<lparr>FailureThreshold = 2, OpenTimeout = 10, ProbeTimeout = 0\<rparr>"

definition demo_machine :: Machine where
  "demo_machine = \<lparr>m_config = demo_config, m_state = Closed, m_consecutiveFailures = 0, m_openedAt = 0\<rparr>"

lemma New_demo: "New demo_config = Inr demo_machine"
  by (simp add: New_def Validate_def demo_config_def demo_machine_def)

theorem breaker_invariant_witness:
  "\<exists>s. brk_step\<^sup>*\<^sup>* (brk_start demo_machine 0) s \<and> m_state (bs_machine s) = Open
    \<and> m_consecutiveFailures (bs_machine s) < FailureThreshold demo_config"
proof -
  let ?s = "fold brk_do [Call 0, Call 1, Tick 5, Return 0 (Some ErrOpen), Return 1 (Some ErrOpen)] (brk_start demo_machine 0)"
  have "m_state (bs_machine ?s) = Open"
    by (simp add: brk_start_def demo_machine_def demo_config_def Allow_def Record_def Let_def)
  moreover have "m_consecutiveFailures (bs_machine ?s) < FailureThreshold demo_config"
    using breaker_invariant [OF New_demo brk_do_run] by blast
  ultimately show ?thesis using brk_do_run by blast
qed

text \<open>
  From a closed breaker with a clean counter, exactly \<open>FailureThreshold\<close> consecutive failures
  trip it: after any smaller number it is still closed (and counts them), after the last one it is
  open as of that failure's time; one success in between resets the count.
\<close>

theorem trips_at_threshold:
  assumes "machine_ok m" "m_state m = Closed" "m_consecutiveFailures m = 0"
    and n: "length fs + 1 = unat (FailureThreshold (m_config m))"
  shows "(\<forall>k \<le> length fs. m_state (failures (take k fs) m) = Closed
        \<and> unat (m_consecutiveFailures (failures (take k fs) m)) = k
        \<and> Record now None (failures (take k fs) m) = m)
    \<and> failures (fs @ [(t, e)]) m = m\<lparr>m_state := Open, m_openedAt := t\<rparr>"
  using failures_trip assms .

theorem trips_at_threshold_witness:
  "failures [(3, ErrOpen), (4, ErrOpen)] demo_machine = demo_machine\<lparr>m_state := Open, m_openedAt := 4\<rparr>"
  using trips_at_threshold [of demo_machine "[(3, ErrOpen)]" 0 4 ErrOpen] New_ok [OF New_demo]
  by (simp add: demo_machine_def demo_config_def)

text \<open>
  C32. Fail fast: from the moment the breaker is open until \<open>OpenTimeout\<close> has elapsed since it
  opened, no interleaving admits a call (the calls in flight are among those already in flight), and
  outcomes of calls admitted earlier neither close it nor prolong the timeout.
\<close>

theorem open_rejects_until_timeout:
  assumes "New cfg = Inr m" "brk_step\<^sup>*\<^sup>* (brk_start m t) s" "brk_step\<^sup>*\<^sup>* s s'"
    "m_state (bs_machine s) = Open" "bs_now s' < m_openedAt (bs_machine s) + sint (OpenTimeout cfg)"
  shows "bs_machine s' = bs_machine s \<and> bs_inflight s' \<subseteq>\<^sub>m bs_inflight s
    \<and> fst (Allow (bs_now s') (bs_machine s')) = (False, False)"
proof -
  have inv: "sys_inv cfg s" using sys_inv_run [OF assms(2) sys_inv_start [OF assms(1)]] .
  have "bs_machine s' = bs_machine s \<and> bs_inflight s' \<subseteq>\<^sub>m bs_inflight s"
    using brk_run_open [OF assms(3) inv assms(4)] assms(5) by simp
  then show ?thesis
    using inv assms(4,5) by (simp add: Allow_Open sys_inv_def)
qed

definition demo_tripped :: brk_sys where
  "demo_tripped = fold brk_do [Call 0, Call 1, Call 2, Return 0 (Some ErrOpen), Return 1 (Some ErrOpen)]
     (brk_start demo_machine 0)"

definition demo_run :: "brk_event list" where
  "demo_run = [Call 0, Return 0 (Some ErrOpen), Call 0, Return 0 (Some ErrOpen), Tick 10, Call 3]"

lemmas demo_eval = demo_tripped_def brk_start_def demo_machine_def demo_config_def Allow_def Record_def
  Let_def time_Sub_def

theorem open_rejects_until_timeout_witness:
  "fst (Allow 9 (bs_machine (fold brk_do [Tick 9, Return 2 None] demo_tripped))) = (False, False)"
  using open_rejects_until_timeout [OF New_demo _ brk_do_run, of 0 demo_tripped "[Tick 9, Return 2 None]"]
    brk_do_run [of "brk_start demo_machine 0", folded demo_tripped_def]
  by (simp add: demo_eval)

text \<open>
  C33. Recovery: once \<open>OpenTimeout\<close> has elapsed an open breaker admits exactly one probe (everyone
  else is rejected until its outcome is recorded), runs it under a deadline of at most
  \<open>ProbeTimeout\<close> when one is configured, closes with a clean counter if it succeeds, and is open
  again for a full \<open>OpenTimeout\<close> from the failure if it fails.
\<close>

theorem recovery:
  assumes "machine_ok m" "m_state m = Open" "m_openedAt m + sint (OpenTimeout (m_config m)) \<le> now"
  shows "\<exists>m'. Allow now m = ((True, True), m')
    \<and> (\<forall>u. Allow u m' = ((False, False), m'))
    \<and> (sint (ProbeTimeout (m_config m)) > 0 \<longrightarrow>
        (\<exists>d. ProbeContext now m' ctx True = Some d \<and> d \<le> now + sint (ProbeTimeout (m_config m))))
    \<and> Record u None m' = m\<lparr>m_state := Closed, m_consecutiveFailures := 0\<rparr>
    \<and> (\<forall>e v. v < u + sint (OpenTimeout (m_config m)) \<longrightarrow>
        fst (Allow v (Record u (Some e) m')) = (False, False))"
proof -
  let ?m = "m\<lparr>m_state := HalfOpen\<rparr>"
  have half: "m_state ?m = HalfOpen" by simp
  have ok: "machine_ok (Record u err ?m)" for u err
    using Allow_ok [OF assms(1), of now] assms by (simp add: Allow_Open Record_ok)
  have fail: "fst (Allow v (Record u (Some e) ?m)) = (False, False)"
    if "v < u + sint (OpenTimeout (m_config m))" for e v
    using Allow_Open [OF ok, of u "Some e" v] that by (simp add: Record_def)
  have "Record u None ?m = m\<lparr>m_state := Closed, m_consecutiveFailures := 0\<rparr>"
    by (simp add: Record_def)
  moreover have "\<exists>d. ProbeContext now ?m ctx True = Some d \<and> d \<le> now + sint (ProbeTimeout (m_config m))"
    if "sint (ProbeTimeout (m_config m)) > 0"
    using that by (cases ctx) (simp_all add: ProbeContext_def context_WithTimeout_def)
  moreover have "Allow now m = ((True, True), ?m)"
    using assms by (simp add: Allow_Open)
  ultimately show ?thesis using fail Allow_simps(2) [OF half] by (intro exI [of _ ?m]) blast
qed

theorem recovery_witness:
  "fst (Allow 10 (bs_machine demo_tripped)) = (True, True)"
proof -
  have "machine_ok (bs_machine demo_tripped)"
    by (simp add: demo_eval machine_ok_def Validate_def)
  then show ?thesis
    using recovery [of "bs_machine demo_tripped" 10] by (auto simp: demo_eval)
qed

text \<open>
  C34. Single probe: as long as every call returns in less than \<open>OpenTimeout\<close>, at most one probe is
  ever in flight, and while the breaker is half-open that probe is the only call in flight.
\<close>

theorem single_probe:
  assumes "New cfg = Inr m"
    "(\<lambda>s s'. timely (OpenTimeout cfg) s \<and> brk_step s s')\<^sup>*\<^sup>* (brk_start m t) s"
  shows "(\<exists>i. probes s \<subseteq> {i})
    \<and> (m_state (bs_machine s) = HalfOpen \<longrightarrow> (\<exists>i. probes s = {i} \<and> dom (bs_inflight s) = {i}))"
proof -
  have "probe_inv (brk_start m t)"
    using New_ok [OF assms(1)] by (simp add: probe_inv_def probes_def brk_start_def)
  then have "probe_inv s"
    using probe_inv_run [OF assms(2) sys_inv_start [OF assms(1)]] by simp
  then show ?thesis
    by (auto simp: probe_inv_def probes_def split: State.splits if_splits)
qed

theorem single_probe_witness:
  "\<exists>i. probes (fold brk_do demo_run (brk_start demo_machine 0)) = {i}"
proof -
  have "brk_timely (OpenTimeout demo_config) demo_run (brk_start demo_machine 0)"
    by (simp add: demo_run_def demo_eval timely_def ran_def)
  moreover have "m_state (bs_machine (fold brk_do demo_run (brk_start demo_machine 0))) = HalfOpen"
    by (simp add: demo_run_def demo_eval)
  ultimately show ?thesis
    using single_probe [OF New_demo brk_do_timely_run] by blast
qed

text \<open>
  Without that bound the comment in \<open>Allow\<close> ("only one probe is allowed in flight at a time")
  does not hold: \<open>Record\<close> does not know which call it is told about, so a call admitted while the
  breaker was closed and returning during the half-open state reopens it under the running probe, and
  after another timeout a second probe joins the first.
\<close>

theorem two_probes_in_flight:
  "\<exists>s. brk_step\<^sup>*\<^sup>* (brk_start demo_machine 0) s \<and> m_state (bs_machine s) = HalfOpen \<and> probes s = {3, 4}"
proof -
  let ?s = "fold brk_do [Tick 10, Call 3, Return 2 (Some ErrOpen), Tick 20, Call 4] demo_tripped"
  have "brk_step\<^sup>*\<^sup>* (brk_start demo_machine 0) ?s"
    unfolding demo_tripped_def using rtranclp_trans [OF brk_do_run brk_do_run] .
  moreover have "m_state (bs_machine ?s) = HalfOpen" "probes ?s = {3, 4}"
    by (auto simp: demo_eval probes_def)
  ultimately show ?thesis by blast
qed

end
