(* ===== verification/Ledger.thy ===== *)
theory Ledger
  imports CoreBreaker "HOL-Library.Sublist"
begin

text \<open>
  The ledger's domain model, \<open>src/internal/ledger/ledger.go\<close>: the two row types, the sentinel
  errors, and the two repository interfaces. A Go interface is a record of functions over the state
  \<open>'w\<close> of whatever implements it; the locale \<open>ledger_store\<close> states the contract the interface
  comments promise, and the processor is verified against that contract only.
\<close>

section \<open>Model of ledger.go\<close>

text \<open>A \<open>uuid.UUID\<close> is an array of 16 bytes, here one 128-bit word.\<close>

type_synonym UUID = "128 word"
type_synonym Side = string

definition SideBuy :: Side where "SideBuy = ''BUY''"
definition SideSell :: Side where "SideSell = ''SELL''"

record Transaction =
  tx_ID :: int64
  tx_EventID :: UUID
  tx_TenantID :: string
  tx_SchemaVersion :: int16
  tx_Instrument :: string
  tx_Side :: Side
  tx_Quantity :: int64
  tx_Price :: int64
  tx_Currency :: string
  tx_OccurredAt :: time
  tx_ReceivedAt :: time

record ReconciledState =
  rs_TenantID :: string
  rs_Instrument :: string
  rs_Position :: int64
  rs_AverageCost :: int64
  rs_RealizedPnL :: int64
  rs_LastTransactionID :: "int64 option"
  rs_UpdatedAt :: time

definition ErrNotFound :: goerror where "ErrNotFound = Sentinel ''ledger: not found''"
definition ErrDuplicateEvent :: goerror where "ErrDuplicateEvent = Sentinel ''ledger: duplicate event id''"
definition ErrStaleReconciledState :: goerror where
  "ErrStaleReconciledState = Sentinel ''ledger: reconciled state upsert is stale''"

record 'w TransactionRepository =
  Insert :: "ctx \<Rightarrow> Transaction \<Rightarrow> 'w \<Rightarrow> Transaction result \<times> 'w"
  GetByEventID :: "ctx \<Rightarrow> UUID \<Rightarrow> 'w \<Rightarrow> Transaction result \<times> 'w"
  ListByTenant :: "ctx \<Rightarrow> string \<Rightarrow> time \<Rightarrow> 'w \<Rightarrow> Transaction list result \<times> 'w"

record 'w ReconciledStateRepository =
  Upsert :: "ctx \<Rightarrow> ReconciledState \<Rightarrow> 'w \<Rightarrow> error \<times> 'w"
  Get :: "ctx \<Rightarrow> string \<Rightarrow> string \<Rightarrow> 'w \<Rightarrow> ReconciledState result \<times> 'w"

section \<open>What the interfaces promise\<close>

type_synonym statekey = "string \<times> string"
type_synonym staterows = "statekey \<rightharpoonup> ReconciledState"

definition tx_key :: "Transaction \<Rightarrow> statekey" where
  "tx_key t = (tx_TenantID t, tx_Instrument t)"

definition rs_key :: "ReconciledState \<Rightarrow> statekey" where
  "rs_key st = (rs_TenantID st, rs_Instrument st)"

text \<open>The stored row keeps the trade; the store chooses id and receive time, and may pad the
  currency or round the trade time.\<close>

definition same_trade :: "Transaction \<Rightarrow> Transaction \<Rightarrow> bool" where
  "same_trade t u \<longleftrightarrow> tx_EventID t = tx_EventID u \<and> tx_TenantID t = tx_TenantID u
     \<and> tx_Instrument t = tx_Instrument u \<and> tx_Side t = tx_Side u
     \<and> tx_Quantity t = tx_Quantity u \<and> tx_Price t = tx_Price u"

definition id_less :: "Transaction \<Rightarrow> Transaction \<Rightarrow> bool" where
  "id_less t u \<longleftrightarrow> sint (tx_ID t) < sint (tx_ID u)"

text \<open>The watermark of a new state lies past the one of the row it would replace.\<close>

definition advances :: "ReconciledState option \<Rightarrow> ReconciledState \<Rightarrow> bool" where
  "advances row st \<longleftrightarrow>
     (case row of None \<Rightarrow> True
      | Some old \<Rightarrow> (case rs_LastTransactionID old of None \<Rightarrow> True
          | Some a \<Rightarrow> (case rs_LastTransactionID st of None \<Rightarrow> False | Some b \<Rightarrow> sint a < sint b)))"

definition written :: "staterows \<Rightarrow> ReconciledState \<Rightarrow> staterows \<Rightarrow> bool" where
  "written rows st rows' \<longleftrightarrow>
     advances (rows (rs_key st)) st \<and> (\<exists>t. rows' = rows(rs_key st \<mapsto> st\<lparr>rs_UpdatedAt := t\<rparr>))"

text \<open>
  The contract. \<open>txns\<close> and \<open>rows\<close> are what is durably stored; \<open>inv\<close> is the store's own invariant.
  A failed write may or may not have reached the store (the connection can break after the commit),
  except when the error is the sentinel that says it did not.
\<close>

locale ledger_store =
  fixes T :: "'w TransactionRepository" and S :: "'w ReconciledStateRepository"
    and txns :: "'w \<Rightarrow> Transaction list" and rows :: "'w \<Rightarrow> staterows" and inv :: "'w \<Rightarrow> bool"
  assumes ids_increase: "inv w \<Longrightarrow> sorted_wrt id_less (txns w)"
    and events_distinct: "inv w \<Longrightarrow> distinct (map tx_EventID (txns w))"
    and rows_keyed: "inv w \<Longrightarrow> rows w k = Some st \<Longrightarrow> rs_key st = k"
    and Insert_keeps: "inv w \<Longrightarrow> Insert T c txn w = (r, w') \<Longrightarrow> inv w' \<and> rows w' = rows w"
    and Insert_Inr: "inv w \<Longrightarrow> Insert T c txn w = (Inr t, w') \<Longrightarrow>
      txns w' = txns w @ [t] \<and> same_trade t txn"
    and Insert_Inl: "inv w \<Longrightarrow> Insert T c txn w = (Inl e, w') \<Longrightarrow>
      txns w' = txns w \<or> (\<exists>t. txns w' = txns w @ [t] \<and> same_trade t txn)"
    and Insert_duplicate: "inv w \<Longrightarrow> Insert T c txn w = (Inl e, w') \<Longrightarrow> errors_Is e ErrDuplicateEvent \<Longrightarrow>
      txns w' = txns w \<and> tx_EventID txn \<in> tx_EventID ` set (txns w)"
    and GetByEventID_keeps: "inv w \<Longrightarrow> GetByEventID T c i w = (r, w') \<Longrightarrow>
      inv w' \<and> rows w' = rows w \<and> txns w' = txns w"
    and GetByEventID_Inr: "inv w \<Longrightarrow> GetByEventID T c i w = (Inr t, w') \<Longrightarrow>
      t \<in> set (txns w) \<and> tx_EventID t = i"
    and ListByTenant_keeps: "inv w \<Longrightarrow> ListByTenant T c tenant since w = (rl, w') \<Longrightarrow>
      inv w' \<and> rows w' = rows w \<and> txns w' = txns w"
    and Upsert_keeps: "inv w \<Longrightarrow> Upsert S c st w = (err, w') \<Longrightarrow> inv w' \<and> txns w' = txns w"
    and Upsert_None: "inv w \<Longrightarrow> Upsert S c st w = (None, w') \<Longrightarrow> written (rows w) st (rows w')"
    and Upsert_Some: "inv w \<Longrightarrow> Upsert S c st w = (Some e, w') \<Longrightarrow>
      rows w' = rows w \<or> written (rows w) st (rows w')"
    and Upsert_stale: "inv w \<Longrightarrow> Upsert S c st w = (Some e, w') \<Longrightarrow> errors_Is e ErrStaleReconciledState \<Longrightarrow>
      rows w' = rows w \<and> \<not> advances (rows w (rs_key st)) st"
    and Get_keeps: "inv w \<Longrightarrow> Get S c tenant instr w = (rs, w') \<Longrightarrow>
      inv w' \<and> rows w' = rows w \<and> txns w' = txns w"
    and Get_Inr: "inv w \<Longrightarrow> Get S c tenant instr w = (Inr st, w') \<Longrightarrow> rows w (tenant, instr) = Some st"
    and Get_not_found: "inv w \<Longrightarrow> Get S c tenant instr w = (Inl e, w') \<Longrightarrow> errors_Is e ErrNotFound \<Longrightarrow>
      rows w (tenant, instr) = None"

text \<open>A transaction for concrete runs.\<close>

definition sample_transaction :: Transaction where
  "sample_transaction = \<lparr>tx_ID = 0, tx_EventID = 1, tx_TenantID = ''acme'', tx_SchemaVersion = 1, tx_Instrument = ''BTC-USD'', tx_Side = SideBuy,
     tx_Quantity = 100000000, tx_Price = 200000000, tx_Currency = ''USD'', tx_OccurredAt = 0, tx_ReceivedAt = 0\<rparr>"

end
