(* ===== verification/Storage.thy ===== *)
theory Storage
  imports Ledger
begin

text \<open>
  The Postgres stores, \<open>src/internal/ledger/storage/transaction_store.go\<close> and
  \<open>reconciled_state_store.go\<close>, with the tables of \<open>src/internal/ledger/storage/migrations/\<close>. The SQL
  statements are translated on two tables; the server and the driver are open: every statement takes
  the next entry of a script that fixes how long it takes, which sequence values it skips, the
  server's clock, and whether the client gets a connection error, with or without the statement
  having run. Which byte strings the server accepts as text and how it rounds times are parameters
  of the database.
\<close>

section \<open>Tables and server\<close>

record dbcall =
  dc_elapsed :: nat
  dc_gap :: nat
  dc_server_now :: time
  dc_error :: "string option"
  dc_reached :: bool

definition quiet :: dbcall where
  "quiet = \<lparr>dc_elapsed = 0, dc_gap = 0, dc_server_now = 0, dc_error = None, dc_reached = True\<rparr>"

text \<open>The \<open>BIGSERIAL\<close> sequence of \<open>transactions.id\<close> is \<open>db_next_id\<close>, its least unused value.\<close>

record DB =
  db_transactions :: "Transaction list"
  db_next_id :: nat
  db_states :: "statekey \<rightharpoonup> ReconciledState"
  db_now :: time
  db_script :: "dbcall list"
  db_text_ok :: "string \<Rightarrow> bool"
  db_timestamptz :: "time \<Rightarrow> time"

text \<open>Errors of a statement: a Postgres error with its code, \<open>pgx.ErrNoRows\<close>, or a driver error.\<close>

datatype pgerr = PgError string | ErrNoRows | Driver goerror

fun pgerr_error :: "pgerr \<Rightarrow> goerror" where
  "pgerr_error (PgError code) = Msg (''SQLSTATE '' @ code)"
| "pgerr_error ErrNoRows = Sentinel ''no rows in result set''"
| "pgerr_error (Driver e) = e"

definition pgUniqueViolation :: string where "pgUniqueViolation = ''23505''"

definition ctxDeadlineExceeded :: goerror where
  "ctxDeadlineExceeded = Sentinel ''context deadline exceeded''"

text \<open>The error the client sees, if any, and the clock when the call returns: a call that runs past
  the context's deadline returns at the deadline.\<close>

definition call_outcome :: "ctx \<Rightarrow> time \<Rightarrow> dbcall \<Rightarrow> error \<times> time" where
  "call_outcome ctx now c =
     (let t = now + int (dc_elapsed c); e = map_option Msg (dc_error c)
      in case ctx of None \<Rightarrow> (e, t)
         | Some d \<Rightarrow> if d < t then (Some ctxDeadlineExceeded, max now d) else (e, t))"

text \<open>One statement through the pool: \<open>pool.QueryRow\<close>, \<open>pool.Query\<close> or \<open>pool.Exec\<close>.\<close>

definition pool_run :: "ctx \<Rightarrow> (dbcall \<Rightarrow> 'a DB_scheme \<Rightarrow> (pgerr + 'x) \<times> 'a DB_scheme)
    \<Rightarrow> 'a DB_scheme \<Rightarrow> (pgerr + 'x) \<times> 'a DB_scheme" where
  "pool_run ctx stmt db =
     (let c = (case db_script db of [] \<Rightarrow> quiet | c # _ \<Rightarrow> c);
          (err, t) = call_outcome ctx (db_now db) c;
          db1 = db\<lparr>db_now := t, db_script := tl (db_script db)\<rparr>
      in case err of
           None \<Rightarrow> stmt c db1
         | Some e \<Rightarrow> (Inl (Driver e), if dc_reached c then snd (stmt c db1) else db1))"

section \<open>Model of transaction\_store.go\<close>

text \<open>\<open>CHAR(3)\<close>: short values are padded with blanks, surplus blanks are cut, anything else is too long.\<close>

definition char3 :: "string \<Rightarrow> string option" where
  "char3 s = (if length s \<le> 3 then Some (s @ replicate (3 - length s) (CHR '' ''))
     else if list_all (\<lambda>c. c = CHR '' '') (drop 3 s) then Some (take 3 s) else None)"

text \<open>The row the \<open>INSERT\<close> of \<open>Insert\<close> makes, and the column constraints of the table.\<close>

definition inserted_row :: "'a DB_scheme \<Rightarrow> dbcall \<Rightarrow> nat \<Rightarrow> string \<Rightarrow> Transaction \<Rightarrow> Transaction" where
  "inserted_row db c i currency txn =
     txn\<lparr>tx_ID := of_nat i, tx_Currency := currency,
         tx_OccurredAt := db_timestamptz db (tx_OccurredAt txn),
         tx_ReceivedAt := db_timestamptz db (dc_server_now c)\<rparr>"

definition sql_insert_transaction ::
    "Transaction \<Rightarrow> dbcall \<Rightarrow> 'a DB_scheme \<Rightarrow> (pgerr + Transaction) \<times> 'a DB_scheme" where
  "sql_insert_transaction txn c db =
     (let i = db_next_id db + dc_gap c; db1 = db\<lparr>db_next_id := i + 1\<rparr>
      in if i > nat max_int64 then (Inl (PgError ''2200H''), db)
         else if \<not> (db_text_ok db (tx_TenantID txn) \<and> db_text_ok db (tx_Instrument txn)
              \<and> db_text_ok db (tx_Side txn) \<and> db_text_ok db (tx_Currency txn)) then (Inl (PgError ''22021''), db1)
         else case char3 (tx_Currency txn) of
           None \<Rightarrow> (Inl (PgError ''22001''), db1)
         | Some currency \<Rightarrow>
             if tx_Side txn \<notin> {''BUY'', ''SELL''} \<or> sint (tx_Quantity txn) \<le> 0 \<or> sint (tx_Price txn) \<le> 0
             then (Inl (PgError ''23514''), db1)
             else if tx_EventID txn \<in> tx_EventID ` set (db_transactions db)
             then (Inl (PgError pgUniqueViolation), db1)
             else let row = inserted_row db c i currency txn
                  in (Inr row, db1\<lparr>db_transactions := db_transactions db @ [row]\<rparr>))"

definition TransactionStore_Insert ::
    "ctx \<Rightarrow> Transaction \<Rightarrow> 'a DB_scheme \<Rightarrow> Transaction result \<times> 'a DB_scheme" where
  "TransactionStore_Insert ctx txn db =
     (let (r, db') = pool_run ctx (sql_insert_transaction txn) db
      in (case r of
            Inl err \<Rightarrow> (if err = PgError pgUniqueViolation then Inl ErrDuplicateEvent
                        else Inl (Wrap ''insert transaction'' (pgerr_error err)))
          | Inr inserted \<Rightarrow> Inr inserted, db'))"

definition sql_select_by_event ::
    "UUID \<Rightarrow> dbcall \<Rightarrow> 'a DB_scheme \<Rightarrow> (pgerr + Transaction) \<times> 'a DB_scheme" where
  "sql_select_by_event eventID c db =
     (case find (\<lambda>t. tx_EventID t = eventID) (db_transactions db) of
        None \<Rightarrow> Inl ErrNoRows | Some t \<Rightarrow> Inr t, db)"

definition TransactionStore_GetByEventID ::
    "ctx \<Rightarrow> UUID \<Rightarrow> 'a DB_scheme \<Rightarrow> Transaction result \<times> 'a DB_scheme" where
  "TransactionStore_GetByEventID ctx eventID db =
     (let (r, db') = pool_run ctx (sql_select_by_event eventID) db
      in (case r of
            Inl err \<Rightarrow> (if err = ErrNoRows then Inl ErrNotFound
                        else Inl (Wrap ''get transaction by event id'' (pgerr_error err)))
          | Inr txn \<Rightarrow> Inr txn, db'))"

text \<open>\<open>ORDER BY occurred_at\<close> leaves the order of equal times open; insertion order is taken.\<close>

definition sql_select_by_tenant ::
    "string \<Rightarrow> time \<Rightarrow> dbcall \<Rightarrow> 'a DB_scheme \<Rightarrow> (pgerr + Transaction list) \<times> 'a DB_scheme" where
  "sql_select_by_tenant tenantID since c db =
     (if \<not> db_text_ok db tenantID then Inl (PgError ''22021'')
      else Inr (sort_key tx_OccurredAt (filter (\<lambda>t. tx_TenantID t = tenantID
             \<and> db_timestamptz db since \<le> tx_OccurredAt t) (db_transactions db))), db)"

definition TransactionStore_ListByTenant ::
    "ctx \<Rightarrow> string \<Rightarrow> time \<Rightarrow> 'a DB_scheme \<Rightarrow> Transaction list result \<times> 'a DB_scheme" where
  "TransactionStore_ListByTenant ctx tenantID since db =
     (let (r, db') = pool_run ctx (sql_select_by_tenant tenantID since) db
      in (case r of
            Inl err \<Rightarrow> Inl (Wrap ''list transactions by tenant'' (pgerr_error err))
          | Inr transactions \<Rightarrow> Inr transactions, db'))"

definition TransactionStore :: "('a DB_scheme) TransactionRepository" where
  "TransactionStore = \<lparr>Insert = TransactionStore_Insert, GetByEventID = TransactionStore_GetByEventID,
     ListByTenant = TransactionStore_ListByTenant\<rparr>"

section \<open>Model of reconciled\_state\_store.go\<close>

text \<open>The \<open>WHERE\<close> of the conflict action; a comparison with \<open>NULL\<close> is not true.\<close>

fun upsert_where :: "int64 option \<Rightarrow> int64 option \<Rightarrow> bool" where
  "upsert_where None excluded = True"
| "upsert_where (Some a) None = False"
| "upsert_where (Some a) (Some b) = (sint a < sint b)"

text \<open>The result is \<open>tag.RowsAffected()\<close>; the foreign key is checked on the rows written.\<close>

definition sql_upsert_state ::
    "ReconciledState \<Rightarrow> dbcall \<Rightarrow> 'a DB_scheme \<Rightarrow> (pgerr + nat) \<times> 'a DB_scheme" where
  "sql_upsert_state state c db =
     (if \<not> (db_text_ok db (rs_TenantID state) \<and> db_text_ok db (rs_Instrument state))
      then (Inl (PgError ''22021''), db)
      else if (case db_states db (rs_TenantID state, rs_Instrument state) of None \<Rightarrow> False
               | Some row \<Rightarrow> \<not> upsert_where (rs_LastTransactionID row) (rs_LastTransactionID state))
      then (Inr 0, db)
      else if (case rs_LastTransactionID state of None \<Rightarrow> False
               | Some i \<Rightarrow> i \<notin> tx_ID ` set (db_transactions db))
      then (Inl (PgError ''23503''), db)
      else (Inr 1, db\<lparr>db_states := (db_states db)((rs_TenantID state, rs_Instrument state) \<mapsto>
              state\<lparr>rs_UpdatedAt := db_timestamptz db (dc_server_now c)\<rparr>)\<rparr>))"

definition ReconciledStateStore_Upsert ::
    "ctx \<Rightarrow> ReconciledState \<Rightarrow> 'a DB_scheme \<Rightarrow> error \<times> 'a DB_scheme" where
  "ReconciledStateStore_Upsert ctx state db =
     (let (r, db') = pool_run ctx (sql_upsert_state state) db
      in (case r of
            Inl err \<Rightarrow> Some (Wrap ''upsert reconciled state'' (pgerr_error err))
          | Inr n \<Rightarrow> if n = 0 then Some ErrStaleReconciledState else None, db'))"

definition sql_select_state ::
    "string \<Rightarrow> string \<Rightarrow> dbcall \<Rightarrow> 'a DB_scheme \<Rightarrow> (pgerr + ReconciledState) \<times> 'a DB_scheme" where
  "sql_select_state tenantID instrument c db =
     (if \<not> (db_text_ok db tenantID \<and> db_text_ok db instrument) then Inl (PgError ''22021'')
      else case db_states db (tenantID, instrument) of None \<Rightarrow> Inl ErrNoRows | Some st \<Rightarrow> Inr st, db)"

definition ReconciledStateStore_Get ::
    "ctx \<Rightarrow> string \<Rightarrow> string \<Rightarrow> 'a DB_scheme \<Rightarrow> ReconciledState result \<times> 'a DB_scheme" where
  "ReconciledStateStore_Get ctx tenantID instrument db =
     (let (r, db') = pool_run ctx (sql_select_state tenantID instrument) db
      in (case r of
            Inl err \<Rightarrow> (if err = ErrNoRows then Inl ErrNotFound
                        else Inl (Wrap ''get reconciled state'' (pgerr_error err)))
          | Inr st \<Rightarrow> Inr st, db'))"

definition ReconciledStateStore :: "('a DB_scheme) ReconciledStateRepository" where
  "ReconciledStateStore = \<lparr>Upsert = ReconciledStateStore_Upsert, Get = ReconciledStateStore_Get\<rparr>"

text \<open>Any number of clients calling the stores, statement by statement.\<close>

inductive store_step :: "'a DB_scheme \<Rightarrow> 'a DB_scheme \<Rightarrow> bool" where
  insert: "TransactionStore_Insert ctx txn db = (r, db') \<Longrightarrow> store_step db db'"
| get: "TransactionStore_GetByEventID ctx i db = (r, db') \<Longrightarrow> store_step db db'"
| list: "TransactionStore_ListByTenant ctx tenant since db = (rl, db') \<Longrightarrow> store_step db db'"
| upsert: "ReconciledStateStore_Upsert ctx st db = (err, db') \<Longrightarrow> store_step db db'"
| get_state: "ReconciledStateStore_Get ctx tenant instr db = (rs, db') \<Longrightarrow> store_step db db'"

text \<open>The row of a key only ever moves to a larger watermark.\<close>

definition row_le :: "ReconciledState option \<Rightarrow> ReconciledState option \<Rightarrow> bool" where
  "row_le old new \<longleftrightarrow> (case old of None \<Rightarrow> True
     | Some st \<Rightarrow> (case new of None \<Rightarrow> False
        | Some st' \<Rightarrow> st' = st \<or> (case rs_LastTransactionID st of None \<Rightarrow> True
            | Some a \<Rightarrow> (case rs_LastTransactionID st' of None \<Rightarrow> False | Some b \<Rightarrow> sint a < sint b))))"

definition store_le :: "'a DB_scheme \<Rightarrow> 'a DB_scheme \<Rightarrow> bool" where
  "store_le db db' \<longleftrightarrow> prefix (db_transactions db) (db_transactions db')
     \<and> (\<forall>k. row_le (db_states db k) (db_states db' k))"

section \<open>Invariant of the tables\<close>

definition db_inv :: "'a DB_scheme \<Rightarrow> bool" where
  "db_inv db \<longleftrightarrow> sorted_wrt id_less (db_transactions db)
     \<and> (\<forall>t \<in> set (db_transactions db). sint (tx_ID t) < int (db_next_id db))
     \<and> distinct (map tx_EventID (db_transactions db))
     \<and> (\<forall>t \<in> set (db_transactions db). tx_Side t \<in> {SideBuy, SideSell}
          \<and> 0 < sint (tx_Quantity t) \<and> 0 < sint (tx_Price t))
     \<and> (\<forall>k st. db_states db k = Some st \<longrightarrow> rs_key st = k
          \<and> (\<forall>i. rs_LastTransactionID st = Some i \<longrightarrow> i \<in> tx_ID ` set (db_transactions db)))"

lemma db_inv_clock [simp]: "db_inv (db\<lparr>db_now := t, db_script := sc\<rparr>) = db_inv db"
  by (simp add: db_inv_def)

lemma call_outcome_err:
  "call_outcome ctx now c = (Some e, t) \<Longrightarrow> e = ctxDeadlineExceeded \<or> (\<exists>s. e = Msg s)"
  by (auto simp: call_outcome_def Let_def split: option.splits if_splits)

lemma pool_run_cases:
  assumes "pool_run ctx stmt db = (r, db')"
  obtains (ran) c t sc where "stmt c (db\<lparr>db_now := t, db_script := sc\<rparr>) = (r, db')"
  | (failed) e c t sc where "r = Inl (Driver e)" "e = ctxDeadlineExceeded \<or> (\<exists>s. e = Msg s)"
      "db' = db\<lparr>db_now := t, db_script := sc\<rparr> \<or> db' = snd (stmt c (db\<lparr>db_now := t, db_script := sc\<rparr>))"
proof -
  let ?c = "case db_script db of [] \<Rightarrow> quiet | c # _ \<Rightarrow> c"
  obtain err t where out: "call_outcome ctx (db_now db) ?c = (err, t)" by (metis prod.collapse)
  let ?db = "db\<lparr>db_now := t, db_script := tl (db_script db)\<rparr>"
  show thesis
  proof (cases err)
    case None
    then show thesis using assms out by (intro ran) (simp add: pool_run_def)
  next
    case (Some e)
    then have "r = Inl (Driver e)" "db' = (if dc_reached ?c then snd (stmt ?c ?db) else ?db)"
      using assms out by (auto simp: pool_run_def Let_def)
    then show thesis using call_outcome_err out Some by (intro failed [of e _ _ ?c]) auto
  qed
qed

lemma sint_of_nat64: "i \<le> nat max_int64 \<Longrightarrow> sint (of_nat i :: int64) = int i"
  using sint64_of_int [of "int i"] by (simp add: is_int64_def)

lemma db_inv_next_id: "db_inv db \<Longrightarrow> db_next_id db \<le> n \<Longrightarrow> db_inv (db\<lparr>db_next_id := n\<rparr>)"
  unfolding db_inv_def by force

lemma db_inv_append:
  assumes "db_inv db" "sint (tx_ID t) = int i" "db_next_id db \<le> i"
    "tx_EventID t \<notin> tx_EventID ` set (db_transactions db)"
    "tx_Side t \<in> {SideBuy, SideSell}" "0 < sint (tx_Quantity t)" "0 < sint (tx_Price t)"
  shows "db_inv (db\<lparr>db_next_id := i + 1, db_transactions := db_transactions db @ [t]\<rparr>)"
proof -
  have ids: "\<forall>u \<in> set (db_transactions db). sint (tx_ID u) < int i"
    using assms(1,3) unfolding db_inv_def by force
  then show ?thesis
    using assms unfolding db_inv_def by (auto simp: sorted_wrt_append id_less_def)
qed

text \<open>What the statements do to the tables.\<close>

lemma sql_insert_Inl:
  assumes "sql_insert_transaction txn c db = (Inl e, db')"
  shows "(db' = db \<or> db' = db\<lparr>db_next_id := db_next_id db + dc_gap c + 1\<rparr>) \<and> (\<exists>code. e = PgError code)
    \<and> (e = PgError pgUniqueViolation \<longrightarrow> tx_EventID txn \<in> tx_EventID ` set (db_transactions db))"
  using assms unfolding sql_insert_transaction_def Let_def
  by (simp only: pgUniqueViolation_def split: if_split_asm option.split_asm) auto

lemma sql_insert_Inr:
  assumes "sql_insert_transaction txn c db = (Inr t, db')"
  shows "\<exists>currency. t = inserted_row db c (db_next_id db + dc_gap c) currency txn
    \<and> db_next_id db + dc_gap c \<le> nat max_int64
    \<and> tx_EventID txn \<notin> tx_EventID ` set (db_transactions db)
    \<and> tx_Side txn \<in> {SideBuy, SideSell} \<and> 0 < sint (tx_Quantity txn) \<and> 0 < sint (tx_Price txn)
    \<and> db' = db\<lparr>db_next_id := db_next_id db + dc_gap c + 1, db_transactions := db_transactions db @ [t]\<rparr>"
  using assms unfolding sql_insert_transaction_def Let_def SideBuy_def SideSell_def
  by (simp only: not_less not_le split: if_split_asm option.split_asm) auto

lemma sql_insert_keeps:
  assumes "sql_insert_transaction txn c db = (r, db')" "db_inv db"
  shows "db_inv db' \<and> db_states db' = db_states db"
proof (cases r)
  case (Inl e)
  then show ?thesis using sql_insert_Inl [of txn c db e db'] assms by (auto simp: db_inv_next_id)
next
  case (Inr t)
  then obtain currency where t: "t = inserted_row db c (db_next_id db + dc_gap c) currency txn"
    and facts: "db_next_id db + dc_gap c \<le> nat max_int64" "tx_EventID txn \<notin> tx_EventID ` set (db_transactions db)"
      "tx_Side txn \<in> {SideBuy, SideSell}" "0 < sint (tx_Quantity txn)" "0 < sint (tx_Price txn)"
    and db': "db' = db\<lparr>db_next_id := db_next_id db + dc_gap c + 1, db_transactions := db_transactions db @ [t]\<rparr>"
    using sql_insert_Inr assms(1) by blast
  have id: "sint (tx_ID t) = int (db_next_id db + dc_gap c)"
    using sint_of_nat64 [OF facts(1)] by (simp add: t inserted_row_def del: of_nat_add)
  have "db_inv db'"
    unfolding db' by (rule db_inv_append [OF assms(2) id]) (use facts in \<open>auto simp: t inserted_row_def\<close>)
  then show ?thesis by (simp add: db')
qed

lemma sql_insert_appends:
  "sql_insert_transaction txn c db = (Inr t, db') \<Longrightarrow>
    db_transactions db' = db_transactions db @ [t] \<and> same_trade t txn"
  using sql_insert_Inr [of txn c db t db'] by (auto simp: same_trade_def inserted_row_def)

lemma upsert_where_advances:
  "(case row of None \<Rightarrow> False | Some old \<Rightarrow> \<not> upsert_where (rs_LastTransactionID old) (rs_LastTransactionID st))
    \<longleftrightarrow> \<not> advances row st"
  by (auto simp: advances_def split: option.splits)

lemma sql_upsert_keeps:
  assumes "sql_upsert_state st c db = (r, db')" "db_inv db"
  shows "db_inv db' \<and> db_transactions db' = db_transactions db"
proof -
  have "db_inv (db\<lparr>db_states := (db_states db)((rs_TenantID st, rs_Instrument st) \<mapsto>
      st\<lparr>rs_UpdatedAt := db_timestamptz db (dc_server_now c)\<rparr>)\<rparr>)"
    if "\<not> (case rs_LastTransactionID st of None \<Rightarrow> False | Some i \<Rightarrow> i \<notin> tx_ID ` set (db_transactions db))"
    using that assms(2) unfolding db_inv_def
    by (auto simp: rs_key_def split: option.splits if_splits)
  then show ?thesis
    using assms unfolding sql_upsert_state_def by (simp only: split: if_split_asm) auto
qed

lemma sql_upsert_result:
  assumes "sql_upsert_state st c db = (r, db')"
  shows "(case r of
       Inr n \<Rightarrow> (if n = 0 then db_states db' = db_states db \<and> \<not> advances (db_states db (rs_key st)) st
                 else written (db_states db) st (db_states db'))
     | Inl e \<Rightarrow> db_states db' = db_states db \<and> (\<exists>code. e = PgError code))"
  using assms unfolding sql_upsert_state_def upsert_where_advances
  by (simp only: split: if_split_asm) (auto simp: written_def rs_key_def)

section \<open>The stores keep the contract\<close>

lemma sentinel_distinct [simp]:
  "ErrNotFound \<noteq> ErrDuplicateEvent" "ErrNotFound \<noteq> ErrStaleReconciledState"
  "ErrDuplicateEvent \<noteq> ErrStaleReconciledState"
  by (simp_all add: ErrNotFound_def ErrDuplicateEvent_def ErrStaleReconciledState_def)

text \<open>A wrapped database error is none of the ledger's sentinels.\<close>

lemma driver_not_sentinel:
  assumes "e = ctxDeadlineExceeded \<or> (\<exists>s. e = Msg s)" "d \<in> {ErrNotFound, ErrDuplicateEvent, ErrStaleReconciledState}"
  shows "\<not> errors_Is (Wrap msg e) d"
  using assms by (auto simp: ErrNotFound_def ErrDuplicateEvent_def ErrStaleReconciledState_def ctxDeadlineExceeded_def)

lemma pg_not_sentinel:
  assumes "d \<in> {ErrNotFound, ErrDuplicateEvent, ErrStaleReconciledState}"
  shows "\<not> errors_Is (Wrap msg (pgerr_error (PgError code))) d"
  using assms by (auto simp: ErrNotFound_def ErrDuplicateEvent_def ErrStaleReconciledState_def)

text \<open>A statement that only reads leaves the tables alone.\<close>

lemma pool_run_read:
  assumes "pool_run ctx stmt db = (r, db')" "\<And>c d. snd (stmt c d) = d"
  shows "db_transactions db' = db_transactions db \<and> db_states db' = db_states db \<and> db_inv db' = db_inv db"
proof (cases rule: pool_run_cases [OF assms(1)])
  case (1 c t sc)
  then have "db' = db\<lparr>db_now := t, db_script := sc\<rparr>" using assms(2) by (metis snd_conv)
  then show ?thesis by simp
next
  case (2 e c t sc)
  then have "db' = db\<lparr>db_now := t, db_script := sc\<rparr>" using assms(2) by metis
  then show ?thesis by simp
qed

lemma pool_run_inv:
  assumes "pool_run ctx stmt db = (r, db')" "db_inv db"
    "\<And>c d r' d'. stmt c d = (r', d') \<Longrightarrow> db_inv d \<Longrightarrow> db_inv d' \<and> f d' = f d"
    "\<And>t sc. f (db\<lparr>db_now := t, db_script := sc\<rparr>) = f db"
  shows "db_inv db' \<and> f db' = f db"
proof (cases rule: pool_run_cases [OF assms(1)])
  case (1 c t sc)
  then show ?thesis using assms(2-4) by (metis db_inv_clock)
next
  case (2 e c t sc)
  then show ?thesis using assms(2-4) by (metis db_inv_clock prod.collapse)
qed

lemma TransactionStore_Insert_keeps:
  assumes "TransactionStore_Insert ctx txn db = (r, db')" "db_inv db"
  shows "db_inv db' \<and> db_states db' = db_states db"
proof -
  obtain r0 where "pool_run ctx (sql_insert_transaction txn) db = (r0, db')"
    using assms(1) by (auto simp: TransactionStore_Insert_def split: prod.splits)
  then show ?thesis
    by (rule pool_run_inv [where f = db_states]) (auto simp: assms(2) dest: sql_insert_keeps)
qed

lemma TransactionStore_Insert_Inr:
  assumes "TransactionStore_Insert ctx txn db = (Inr t, db')"
  shows "db_transactions db' = db_transactions db @ [t] \<and> same_trade t txn"
proof -
  have "pool_run ctx (sql_insert_transaction txn) db = (Inr t, db')"
    using assms by (auto simp: TransactionStore_Insert_def split: prod.splits sum.splits if_splits)
  then show ?thesis
    by (cases rule: pool_run_cases) (auto dest: sql_insert_appends)
qed

lemma TransactionStore_Insert_Inl:
  assumes "TransactionStore_Insert ctx txn db = (Inl e, db')"
  shows "(db_transactions db' = db_transactions db
      \<or> (\<exists>t. db_transactions db' = db_transactions db @ [t] \<and> same_trade t txn))
    \<and> (errors_Is e ErrDuplicateEvent \<longrightarrow> db_transactions db' = db_transactions db
      \<and> tx_EventID txn \<in> tx_EventID ` set (db_transactions db))"
proof -
  obtain err where run: "pool_run ctx (sql_insert_transaction txn) db = (Inl err, db')"
    and e: "e = (if err = PgError pgUniqueViolation then ErrDuplicateEvent
                 else Wrap ''insert transaction'' (pgerr_error err))"
    using assms by (auto simp: TransactionStore_Insert_def split: prod.splits sum.splits if_splits)
  show ?thesis
  proof (cases rule: pool_run_cases [OF run])
    case (1 c t sc)
    then show ?thesis
      using sql_insert_Inl [OF 1] e pg_not_sentinel [of ErrDuplicateEvent] by auto
  next
    case (2 d c t sc)
    obtain r' d' where st: "sql_insert_transaction txn c (db\<lparr>db_now := t, db_script := sc\<rparr>) = (r', d')"
      by (metis prod.collapse)
    have "\<not> errors_Is e ErrDuplicateEvent"
      using 2 e driver_not_sentinel [of d ErrDuplicateEvent] by auto
    moreover have "db_transactions d' = db_transactions db
        \<or> (\<exists>t. db_transactions d' = db_transactions db @ [t] \<and> same_trade t txn)"
      using st sql_insert_Inl [of txn c _ _ d'] sql_insert_appends [of txn c _ _ d'] by (cases r') force+
    ultimately show ?thesis using 2 st by auto
  qed
qed

lemma TransactionStore_GetByEventID_read:
  assumes "TransactionStore_GetByEventID ctx i db = (r, db')"
  shows "db_transactions db' = db_transactions db \<and> db_states db' = db_states db \<and> db_inv db' = db_inv db"
proof -
  obtain r0 where "pool_run ctx (sql_select_by_event i) db = (r0, db')"
    using assms by (auto simp: TransactionStore_GetByEventID_def split: prod.splits)
  then show ?thesis by (rule pool_run_read) (simp add: sql_select_by_event_def)
qed

lemma TransactionStore_GetByEventID_Inr:
  assumes "TransactionStore_GetByEventID ctx i db = (Inr t, db')"
  shows "t \<in> set (db_transactions db) \<and> tx_EventID t = i"
proof -
  have "pool_run ctx (sql_select_by_event i) db = (Inr t, db')"
    using assms by (auto simp: TransactionStore_GetByEventID_def split: prod.splits sum.splits if_splits)
  then show ?thesis
    by (cases rule: pool_run_cases) (auto simp: sql_select_by_event_def find_Some_iff split: option.splits)
qed

lemma TransactionStore_ListByTenant_read:
  assumes "TransactionStore_ListByTenant ctx tenant since db = (r, db')"
  shows "db_transactions db' = db_transactions db \<and> db_states db' = db_states db \<and> db_inv db' = db_inv db"
proof -
  obtain r0 where "pool_run ctx (sql_select_by_tenant tenant since) db = (r0, db')"
    using assms by (auto simp: TransactionStore_ListByTenant_def split: prod.splits)
  then show ?thesis by (rule pool_run_read) (simp add: sql_select_by_tenant_def)
qed

lemma ReconciledStateStore_Upsert_keeps:
  assumes "ReconciledStateStore_Upsert ctx st db = (err, db')" "db_inv db"
  shows "db_inv db' \<and> db_transactions db' = db_transactions db"
proof -
  obtain r0 where "pool_run ctx (sql_upsert_state st) db = (r0, db')"
    using assms(1) by (auto simp: ReconciledStateStore_Upsert_def split: prod.splits)
  then show ?thesis
    by (rule pool_run_inv [where f = db_transactions]) (auto simp: assms(2) dest: sql_upsert_keeps)
qed

lemma ReconciledStateStore_Upsert_None:
  assumes "ReconciledStateStore_Upsert ctx st db = (None, db')"
  shows "written (db_states db) st (db_states db')"
proof -
  obtain n where "pool_run ctx (sql_upsert_state st) db = (Inr n, db')" "n \<noteq> 0"
    using assms by (auto simp: ReconciledStateStore_Upsert_def split: prod.splits sum.splits if_splits)
  then show ?thesis
    by (cases rule: pool_run_cases) (auto dest: sql_upsert_result)
qed

lemma ReconciledStateStore_Upsert_Some:
  assumes "ReconciledStateStore_Upsert ctx st db = (Some e, db')"
  shows "(db_states db' = db_states db \<or> written (db_states db) st (db_states db'))
    \<and> (errors_Is e ErrStaleReconciledState \<longrightarrow>
        db_states db' = db_states db \<and> \<not> advances (db_states db (rs_key st)) st)"
proof -
  obtain r where run: "pool_run ctx (sql_upsert_state st) db = (r, db')"
    and e: "e = (case r of Inl err \<Rightarrow> Wrap ''upsert reconciled state'' (pgerr_error err) | Inr n \<Rightarrow> ErrStaleReconciledState)"
    and n: "\<forall>n. r = Inr n \<longrightarrow> n = 0"
    using assms by (auto simp: ReconciledStateStore_Upsert_def split: prod.splits sum.splits if_splits)
  show ?thesis
  proof (cases rule: pool_run_cases [OF run])
    case (1 c t sc)
    then show ?thesis
      using sql_upsert_result [OF 1] e n pg_not_sentinel [of ErrStaleReconciledState] by (cases r) auto
  next
    case (2 d c t sc)
    obtain r' d' where st: "sql_upsert_state st c (db\<lparr>db_now := t, db_script := sc\<rparr>) = (r', d')"
      by (metis prod.collapse)
    have "\<not> errors_Is e ErrStaleReconciledState"
      using 2 e driver_not_sentinel [of d ErrStaleReconciledState] by auto
    moreover have "db_states d' = db_states db \<or> written (db_states db) st (db_states d')"
      using sql_upsert_result [OF st] by (auto split: sum.splits if_splits)
    ultimately show ?thesis using 2 st by auto
  qed
qed

lemma ReconciledStateStore_Get_read:
  assumes "ReconciledStateStore_Get ctx tenant instr db = (r, db')"
  shows "db_transactions db' = db_transactions db \<and> db_states db' = db_states db \<and> db_inv db' = db_inv db"
proof -
  obtain r0 where "pool_run ctx (sql_select_state tenant instr) db = (r0, db')"
    using assms by (auto simp: ReconciledStateStore_Get_def split: prod.splits)
  then show ?thesis by (rule pool_run_read) (simp add: sql_select_state_def)
qed

lemma ReconciledStateStore_Get_result:
  assumes "ReconciledStateStore_Get ctx tenant instr db = (r, db')"
  shows "case r of Inr st \<Rightarrow> db_states db (tenant, instr) = Some st
    | Inl e \<Rightarrow> errors_Is e ErrNotFound \<longrightarrow> db_states db (tenant, instr) = None"
proof -
  obtain r0 where run: "pool_run ctx (sql_select_state tenant instr) db = (r0, db')"
    and r: "r = (case r0 of Inl err \<Rightarrow> (if err = ErrNoRows then Inl ErrNotFound
                        else Inl (Wrap ''get reconciled state'' (pgerr_error err)))
          | Inr st \<Rightarrow> Inr st)"
    using assms by (auto simp: ReconciledStateStore_Get_def split: prod.splits)
  show ?thesis
  proof (cases rule: pool_run_cases [OF run])
    case (1 c t sc)
    then show ?thesis
      using r pg_not_sentinel [of ErrNotFound] by (auto simp: sql_select_state_def split: if_splits option.splits)
  next
    case (2 d c t sc)
    then show ?thesis using r driver_not_sentinel [of d ErrNotFound] by auto
  qed
qed

lemma db_inv_facts:
  assumes "db_inv db"
  shows "sorted_wrt id_less (db_transactions db)" "distinct (map tx_EventID (db_transactions db))"
    "db_states db k = Some st \<Longrightarrow> rs_key st = k"
  using assms unfolding db_inv_def by blast+

lemmas store_ops = TransactionStore_def ReconciledStateStore_def

interpretation pg: ledger_store TransactionStore ReconciledStateStore db_transactions db_states db_inv
  by unfold_locales
    (auto simp: store_ops db_inv_facts
      dest: TransactionStore_Insert_keeps TransactionStore_Insert_Inr TransactionStore_Insert_Inl
        TransactionStore_GetByEventID_read TransactionStore_GetByEventID_Inr TransactionStore_ListByTenant_read
        ReconciledStateStore_Upsert_keeps ReconciledStateStore_Upsert_None ReconciledStateStore_Upsert_Some
        ReconciledStateStore_Get_read ReconciledStateStore_Get_result)

section \<open>Histories of the stores\<close>

lemma row_le_refl [simp]: "row_le r r"
  by (auto simp: row_le_def split: option.splits)

lemma row_le_trans: "row_le a b \<Longrightarrow> row_le b c \<Longrightarrow> row_le a c"
  by (fastforce simp: row_le_def split: option.splits)

lemma store_le_trans: "store_le a b \<Longrightarrow> store_le b c \<Longrightarrow> store_le a c"
  unfolding store_le_def using row_le_trans prefix_order.trans by metis

lemma written_row_le: "written rows st rows' \<Longrightarrow> row_le (rows k) (rows' k)"
  by (cases "k = rs_key st") (auto simp: written_def advances_def row_le_def split: option.splits)

lemma store_step_le:
  assumes "store_step db db'" "db_inv db"
  shows "db_inv db' \<and> store_le db db'"
  using assms
proof cases
  case (insert ctx txn r)
  have "prefix (db_transactions db) (db_transactions db')"
    using insert TransactionStore_Insert_Inr [of ctx txn db] TransactionStore_Insert_Inl [of ctx txn db]
    by (cases r) (auto simp: prefix_def)
  then show ?thesis
    using TransactionStore_Insert_keeps [OF insert assms(2)] by (simp add: store_le_def)
next
  case (upsert ctx st err)
  have "db_states db' = db_states db \<or> written (db_states db) st (db_states db')"
    using upsert ReconciledStateStore_Upsert_None [of ctx st db] ReconciledStateStore_Upsert_Some [of ctx st db]
    by (cases err) auto
  then show ?thesis
    using ReconciledStateStore_Upsert_keeps [OF upsert assms(2)] by (auto simp: store_le_def written_row_le)
qed (use assms(2) in \<open>auto simp: store_le_def
    dest: TransactionStore_GetByEventID_read TransactionStore_ListByTenant_read ReconciledStateStore_Get_read\<close>)

lemma store_run_le:
  "store_step\<^sup>*\<^sup>* db db' \<Longrightarrow> db_inv db \<Longrightarrow> db_inv db' \<and> store_le db db'"
proof (induction rule: rtranclp_induct)
  case base
  then show ?case by (simp add: store_le_def)
next
  case (step y z)
  then show ?case using store_step_le store_le_trans by metis
qed

section \<open>Properties\<close>


lemma pool_run_quiet:
  assumes "db_script d = []"
  shows "pool_run None stmt d = stmt quiet d"
proof -
  have "d\<lparr>db_script := []\<rparr> = d" using assms by (intro DB.equality) simp_all
  moreover have "pool_run None stmt d = stmt quiet (d\<lparr>db_script := []\<rparr>)"
    using assms by (simp add: pool_run_def call_outcome_def quiet_def)
  ultimately show ?thesis by (simp only:)
qed

lemma find_append: "find P (xs @ ys) = (case find P xs of None \<Rightarrow> find P ys | Some x \<Rightarrow> Some x)"
  by (induction xs) auto

definition demo_db :: DB where
  "demo_db = \<lparr>db_transactions = [], db_next_id = 1, db_states = Map.empty, db_now = 0, db_script = [],
     db_text_ok = (\<lambda>_. True), db_timestamptz = (\<lambda>t. t)\<rparr>"

definition demo_txn :: "UUID \<Rightarrow> Side \<Rightarrow> int64 \<Rightarrow> int64 \<Rightarrow> Transaction" where
  "demo_txn event side quantity price =
     \<lparr>tx_ID = 0, tx_EventID = event, tx_TenantID = ''acme'', tx_SchemaVersion = 1, tx_Instrument = ''BTC'',
      tx_Side = side, tx_Quantity = quantity, tx_Price = price, tx_Currency = ''USD'', tx_OccurredAt = 0,
      tx_ReceivedAt = 0\<rparr>"

lemma db_inv_demo: "db_inv demo_db"
  by (simp add: db_inv_def demo_db_def)

lemmas store_eval = pool_run_def call_outcome_def quiet_def sql_insert_transaction_def inserted_row_def
  TransactionStore_Insert_def sql_select_by_event_def TransactionStore_GetByEventID_def char3_def
  sql_upsert_state_def ReconciledStateStore_Upsert_def sql_select_state_def ReconciledStateStore_Get_def
  demo_db_def demo_txn_def


text \<open>
  On a healthy connection, inserting a valid transaction with a new event id succeeds with an id
  larger than all earlier ones; looking the event up then returns exactly the inserted row, and
  inserting the event again reports \<open>ErrDuplicateEvent\<close> and leaves the ledger as it is.
\<close>

theorem Insert_roundtrip:
  assumes inv: "db_inv db" and script: "db_script db = []" and new: "tx_EventID txn \<notin> tx_EventID ` set (db_transactions db)"
    and texts: "\<forall>s \<in> {tx_TenantID txn, tx_Instrument txn, tx_Side txn, tx_Currency txn}. db_text_ok db s"
    and currency: "length (tx_Currency txn) \<le> 3" and side: "tx_Side txn \<in> {SideBuy, SideSell}"
    and positive: "0 < sint (tx_Quantity txn)" "0 < sint (tx_Price txn)"
    and ids: "db_next_id db < nat max_int64"
  shows "\<exists>t db1 db2. TransactionStore_Insert None txn db = (Inr t, db1)
    \<and> same_trade t txn \<and> (\<forall>u \<in> set (db_transactions db). id_less u t)
    \<and> fst (TransactionStore_GetByEventID None (tx_EventID txn) db1) = Inr t
    \<and> TransactionStore_Insert None txn db1 = (Inl ErrDuplicateEvent, db2)
    \<and> db_transactions db2 = db_transactions db1"
proof -
  let ?t = "inserted_row db quiet (db_next_id db) (tx_Currency txn @ replicate (3 - length (tx_Currency txn)) (CHR '' '')) txn"
  let ?db1 = "db\<lparr>db_next_id := db_next_id db + 1, db_transactions := db_transactions db @ [?t]\<rparr>"
  have ev: "tx_EventID ?t = tx_EventID txn" by (simp add: inserted_row_def)
  have le: "\<not> nat max_int64 < db_next_id db" "\<not> nat max_int64 < db_next_id db + 1" using ids by simp_all
  have ins: "TransactionStore_Insert None txn db = (Inr ?t, ?db1)"
    using script new texts currency side positive le
    by (simp add: pool_run_quiet TransactionStore_Insert_def sql_insert_transaction_def char3_def quiet_def Let_def SideBuy_def SideSell_def)
  have dup: "TransactionStore_Insert None txn ?db1 = (Inl ErrDuplicateEvent, ?db1\<lparr>db_next_id := db_next_id db + 2\<rparr>)"
    using script ev texts currency side positive le
    by (simp add: pool_run_quiet TransactionStore_Insert_def sql_insert_transaction_def char3_def quiet_def Let_def SideBuy_def SideSell_def)
  have "find (\<lambda>t. tx_EventID t = tx_EventID txn) (db_transactions db) = None"
    unfolding find_None_iff using new by (metis imageI)
  then have get: "fst (TransactionStore_GetByEventID None (tx_EventID txn) ?db1) = Inr ?t"
    using script ev by (simp add: pool_run_quiet TransactionStore_GetByEventID_def sql_select_by_event_def find_append)
  have "db_inv ?db1" using TransactionStore_Insert_keeps [OF ins inv] by simp
  then have "\<forall>u \<in> set (db_transactions db). id_less u ?t"
    by (simp add: db_inv_def sorted_wrt_append)
  then show ?thesis using ins dup get TransactionStore_Insert_Inr [OF ins] by auto
qed

theorem Insert_roundtrip_witness:
  "\<exists>t db1. TransactionStore_Insert None (demo_txn 7 ''SELL'' 5 3) demo_db = (Inr t, db1)
    \<and> fst (TransactionStore_GetByEventID None 7 db1) = Inr t"
  using Insert_roundtrip [of demo_db "demo_txn 7 ''SELL'' 5 3"] db_inv_demo
  by (auto simp: demo_db_def demo_txn_def SideSell_def)

end
