(* ===== verification/LedgerBreaker.thy ===== *)
theory LedgerBreaker
  imports Storage
begin

text \<open>
  The repository circuit breakers, \<open>src/internal/ledger/breaker.go\<close>: decorators that implement the
  repository interfaces of \<open>Ledger\<close> around a wrapped repository and a breaker machine of
  \<open>CoreBreaker\<close>. The machine a decorator points to is a field of the state \<open>'w\<close>, reached through
  the record \<open>machine_ref\<close>, which also says which clock it reads.
\<close>

section \<open>Model of breaker.go\<close>

record 'w machine_ref =
  m_get :: "'w \<Rightarrow> Machine"
  m_set :: "Machine \<Rightarrow> 'w \<Rightarrow> 'w"
  m_now :: "'w \<Rightarrow> time"

definition ErrCircuitOpen :: goerror where "ErrCircuitOpen = ErrOpen"

fun ignoredForBreaker :: "error \<Rightarrow> goerror list \<Rightarrow> bool" where
  "ignoredForBreaker err [] = False"
| "ignoredForBreaker err (sentinel # sentinels) =
     ((case err of None \<Rightarrow> False | Some e \<Rightarrow> errors_Is e sentinel) \<or> ignoredForBreaker err sentinels)"

fun err_of :: "'a result \<Rightarrow> error" where
  "err_of (Inl e) = Some e"
| "err_of (Inr _) = None"

text \<open>The methods \<open>machine.Allow\<close> and \<open>machine.Record\<close> on the machine a reference points to.\<close>

definition allow_at :: "'w machine_ref \<Rightarrow> 'w \<Rightarrow> (bool \<times> bool) \<times> 'w" where
  "allow_at ref w = (let (r, m) = Allow (m_now ref w) (m_get ref w) in (r, m_set ref m w))"

definition record_at :: "'w machine_ref \<Rightarrow> error \<Rightarrow> 'w \<Rightarrow> 'w" where
  "record_at ref err w = m_set ref (Record (m_now ref w) err (m_get ref w)) w"

record 'w TransactionRepositoryBreaker =
  tb_next :: "'w TransactionRepository"
  tb_machine :: "'w machine_ref"

text \<open>\<open>NewTransactionRepositoryBreaker\<close>: the machine is allocated in the state; a nil \<open>next\<close> is None.\<close>

definition NewTransactionRepositoryBreaker ::
    "'w machine_ref \<Rightarrow> 'w TransactionRepository option \<Rightarrow> Config \<Rightarrow> 'w \<Rightarrow> 'w TransactionRepositoryBreaker result \<times> 'w" where
  "NewTransactionRepositoryBreaker ref nxt config w =
     (case nxt of
        None \<Rightarrow> (Inl (Msg ''new transaction repository breaker: next TransactionRepository must not be nil''), w)
      | Some n \<Rightarrow>
          (case New config of
             Inl err \<Rightarrow> (Inl (Wrap ''new transaction repository breaker'' err), w)
           | Inr m \<Rightarrow> (Inr \<lparr>tb_next = n, tb_machine = ref\<rparr>, m_set ref m w)))"

definition TransactionRepositoryBreaker_recordResult ::
    "'w TransactionRepositoryBreaker \<Rightarrow> error \<Rightarrow> goerror list \<Rightarrow> 'w \<Rightarrow> 'w" where
  "TransactionRepositoryBreaker_recordResult b err ignored w =
     (if ignoredForBreaker err ignored then record_at (tb_machine b) None w else record_at (tb_machine b) err w)"

definition TransactionRepositoryBreaker_Insert ::
    "'w TransactionRepositoryBreaker \<Rightarrow> ctx \<Rightarrow> Transaction \<Rightarrow> 'w \<Rightarrow> Transaction result \<times> 'w" where
  "TransactionRepositoryBreaker_Insert b ctx txn w =
     (let ((allowed, isProbe), w1) = allow_at (tb_machine b) w
      in if \<not> allowed then (Inl ErrCircuitOpen, w1)
         else let probeCtx = ProbeContext (m_now (tb_machine b) w1) (m_get (tb_machine b) w1) ctx isProbe;
                  (r, w2) = Insert (tb_next b) probeCtx txn w1
              in (r, TransactionRepositoryBreaker_recordResult b (err_of r) [ErrDuplicateEvent] w2))"

definition TransactionRepositoryBreaker_GetByEventID ::
    "'w TransactionRepositoryBreaker \<Rightarrow> ctx \<Rightarrow> UUID \<Rightarrow> 'w \<Rightarrow> Transaction result \<times> 'w" where
  "TransactionRepositoryBreaker_GetByEventID b ctx eventID w =
     (let ((allowed, isProbe), w1) = allow_at (tb_machine b) w
      in if \<not> allowed then (Inl ErrCircuitOpen, w1)
         else let probeCtx = ProbeContext (m_now (tb_machine b) w1) (m_get (tb_machine b) w1) ctx isProbe;
                  (r, w2) = GetByEventID (tb_next b) probeCtx eventID w1
              in (r, TransactionRepositoryBreaker_recordResult b (err_of r) [ErrNotFound] w2))"

definition TransactionRepositoryBreaker_ListByTenant ::
    "'w TransactionRepositoryBreaker \<Rightarrow> ctx \<Rightarrow> string \<Rightarrow> time \<Rightarrow> 'w \<Rightarrow> Transaction list result \<times> 'w" where
  "TransactionRepositoryBreaker_ListByTenant b ctx tenantID since w =
     (let ((allowed, isProbe), w1) = allow_at (tb_machine b) w
      in if \<not> allowed then (Inl ErrCircuitOpen, w1)
         else let probeCtx = ProbeContext (m_now (tb_machine b) w1) (m_get (tb_machine b) w1) ctx isProbe;
                  (r, w2) = ListByTenant (tb_next b) probeCtx tenantID since w1
              in (r, TransactionRepositoryBreaker_recordResult b (err_of r) [] w2))"

definition as_TransactionRepository :: "'w TransactionRepositoryBreaker \<Rightarrow> 'w TransactionRepository" where
  "as_TransactionRepository b =
     \<lparr>Insert = TransactionRepositoryBreaker_Insert b, GetByEventID = TransactionRepositoryBreaker_GetByEventID b,
      ListByTenant = TransactionRepositoryBreaker_ListByTenant b\<rparr>"

record 'w ReconciledStateRepositoryBreaker =
  sb_next :: "'w ReconciledStateRepository"
  sb_machine :: "'w machine_ref"

definition NewReconciledStateRepositoryBreaker ::
    "'w machine_ref \<Rightarrow> 'w ReconciledStateRepository option \<Rightarrow> Config \<Rightarrow> 'w
      \<Rightarrow> 'w ReconciledStateRepositoryBreaker result \<times> 'w" where
  "NewReconciledStateRepositoryBreaker ref nxt config w =
     (case nxt of
        None \<Rightarrow> (Inl (Msg ''new reconciled state repository breaker: next ReconciledStateRepository must not be nil''), w)
      | Some n \<Rightarrow>
          (case New config of
             Inl err \<Rightarrow> (Inl (Wrap ''new reconciled state repository breaker'' err), w)
           | Inr m \<Rightarrow> (Inr \<lparr>sb_next = n, sb_machine = ref\<rparr>, m_set ref m w)))"

definition ReconciledStateRepositoryBreaker_recordResult ::
    "'w ReconciledStateRepositoryBreaker \<Rightarrow> error \<Rightarrow> goerror list \<Rightarrow> 'w \<Rightarrow> 'w" where
  "ReconciledStateRepositoryBreaker_recordResult b err ignored w =
     (if ignoredForBreaker err ignored then record_at (sb_machine b) None w else record_at (sb_machine b) err w)"

definition ReconciledStateRepositoryBreaker_Upsert ::
    "'w ReconciledStateRepositoryBreaker \<Rightarrow> ctx \<Rightarrow> ReconciledState \<Rightarrow> 'w \<Rightarrow> error \<times> 'w" where
  "ReconciledStateRepositoryBreaker_Upsert b ctx state w =
     (let ((allowed, isProbe), w1) = allow_at (sb_machine b) w
      in if \<not> allowed then (Some ErrCircuitOpen, w1)
         else let probeCtx = ProbeContext (m_now (sb_machine b) w1) (m_get (sb_machine b) w1) ctx isProbe;
                  (err, w2) = Upsert (sb_next b) probeCtx state w1
              in (err, ReconciledStateRepositoryBreaker_recordResult b err [ErrStaleReconciledState] w2))"

definition ReconciledStateRepositoryBreaker_Get ::
    "'w ReconciledStateRepositoryBreaker \<Rightarrow> ctx \<Rightarrow> string \<Rightarrow> string \<Rightarrow> 'w \<Rightarrow> ReconciledState result \<times> 'w" where
  "ReconciledStateRepositoryBreaker_Get b ctx tenantID instrument w =
     (let ((allowed, isProbe), w1) = allow_at (sb_machine b) w
      in if \<not> allowed then (Inl ErrCircuitOpen, w1)
         else let probeCtx = ProbeContext (m_now (sb_machine b) w1) (m_get (sb_machine b) w1) ctx isProbe;
                  (r, w2) = Get (sb_next b) probeCtx tenantID instrument w1
              in (r, ReconciledStateRepositoryBreaker_recordResult b (err_of r) [ErrNotFound] w2))"

definition as_ReconciledStateRepository :: "'w ReconciledStateRepositoryBreaker \<Rightarrow> 'w ReconciledStateRepository" where
  "as_ReconciledStateRepository b =
     \<lparr>Upsert = ReconciledStateRepositoryBreaker_Upsert b, Get = ReconciledStateRepositoryBreaker_Get b\<rparr>"

section \<open>The common shape of the guarded calls\<close>

definition guarded :: "'w machine_ref \<Rightarrow> ctx \<Rightarrow> (ctx \<Rightarrow> 'w \<Rightarrow> 'r \<times> 'w) \<Rightarrow> ('r \<Rightarrow> error) \<Rightarrow> goerror list
    \<Rightarrow> 'r \<Rightarrow> 'w \<Rightarrow> 'r \<times> 'w" where
  "guarded ref ctx call err ignored rejected w =
     (let ((allowed, isProbe), w1) = allow_at ref w
      in if \<not> allowed then (rejected, w1)
         else let (r, w2) = call (ProbeContext (m_now ref w1) (m_get ref w1) ctx isProbe) w1
              in (r, record_at ref (if ignoredForBreaker (err r) ignored then None else err r) w2))"

lemma guarded_methods:
  "TransactionRepositoryBreaker_Insert b ctx txn =
     guarded (tb_machine b) ctx (\<lambda>c. Insert (tb_next b) c txn) err_of [ErrDuplicateEvent] (Inl ErrCircuitOpen)"
  "TransactionRepositoryBreaker_GetByEventID b ctx i =
     guarded (tb_machine b) ctx (\<lambda>c. GetByEventID (tb_next b) c i) err_of [ErrNotFound] (Inl ErrCircuitOpen)"
  "TransactionRepositoryBreaker_ListByTenant b ctx tenant since =
     guarded (tb_machine b) ctx (\<lambda>c. ListByTenant (tb_next b) c tenant since) err_of [] (Inl ErrCircuitOpen)"
  "ReconciledStateRepositoryBreaker_Upsert d ctx st =
     guarded (sb_machine d) ctx (\<lambda>c. Upsert (sb_next d) c st) id [ErrStaleReconciledState] (Some ErrCircuitOpen)"
  "ReconciledStateRepositoryBreaker_Get d ctx tenant instr =
     guarded (sb_machine d) ctx (\<lambda>c. Get (sb_next d) c tenant instr) err_of [ErrNotFound] (Inl ErrCircuitOpen)"
  by (auto simp: fun_eq_iff guarded_def Let_def TransactionRepositoryBreaker_Insert_def
      TransactionRepositoryBreaker_GetByEventID_def TransactionRepositoryBreaker_ListByTenant_def
      ReconciledStateRepositoryBreaker_Upsert_def ReconciledStateRepositoryBreaker_Get_def
      TransactionRepositoryBreaker_recordResult_def ReconciledStateRepositoryBreaker_recordResult_def
      split: prod.splits)

text \<open>A guarded call is rejected, or is the wrapped call between two updates of the machine.\<close>

lemma guarded_cases:
  assumes "guarded ref ctx call err ignored rejected w = (r, w')"
  obtains (rejected) m where "r = rejected" "w' = m_set ref m w"
  | (called) c m1 w2 m2 where "call c (m_set ref m1 w) = (r, w2)" "w' = m_set ref m2 w2"
proof -
  obtain ok p m where a: "Allow (m_now ref w) (m_get ref w) = ((ok, p), m)" by (metis prod.collapse)
  let ?w = "m_set ref m w"
  obtain r2 w2 where c: "call (ProbeContext (m_now ref ?w) (m_get ref ?w) ctx p) ?w = (r2, w2)"
    by (metis prod.collapse)
  show thesis
    using assms a c rejected [of m] called [of _ m w2]
    by (cases ok) (auto simp: guarded_def allow_at_def record_at_def)
qed

lemma circuit_open_not_sentinel [simp]:
  "\<not> errors_Is ErrCircuitOpen ErrDuplicateEvent" "\<not> errors_Is ErrCircuitOpen ErrNotFound"
  "\<not> errors_Is ErrCircuitOpen ErrStaleReconciledState"
  by (simp_all add: ErrCircuitOpen_def ErrOpen_def ErrDuplicateEvent_def ErrNotFound_def ErrStaleReconciledState_def)

section \<open>The breakers keep the repository contract\<close>

text \<open>The machines live beside the stored data: updating one does not touch the tables.\<close>

locale breaker_store = ledger_store T S txns rows inv
  for T :: "'w TransactionRepository" and S :: "'w ReconciledStateRepository"
    and txns :: "'w \<Rightarrow> Transaction list" and rows :: "'w \<Rightarrow> staterows" and inv :: "'w \<Rightarrow> bool" +
  fixes tref :: "'w machine_ref" and sref :: "'w machine_ref"
  assumes frame_txns: "txns (m_set tref m w) = txns w" "txns (m_set sref m w) = txns w"
    and frame_rows: "rows (m_set tref m w) = rows w" "rows (m_set sref m w) = rows w"
    and frame_inv: "inv (m_set tref m w) = inv w" "inv (m_set sref m w) = inv w"
begin

lemmas frame = frame_txns frame_rows frame_inv

definition TB where "TB = as_TransactionRepository \<lparr>tb_next = T, tb_machine = tref\<rparr>"

definition SB where "SB = as_ReconciledStateRepository \<lparr>sb_next = S, sb_machine = sref\<rparr>"

lemmas breaker_ops = TB_def SB_def as_TransactionRepository_def as_ReconciledStateRepository_def guarded_methods

lemma TB_Insert:
  assumes "inv w" "Insert TB c txn w = (r, w')"
  shows "inv w' \<and> rows w' = rows w
    \<and> (case r of Inr t \<Rightarrow> txns w' = txns w @ [t] \<and> same_trade t txn
       | Inl e \<Rightarrow> (txns w' = txns w \<or> (\<exists>t. txns w' = txns w @ [t] \<and> same_trade t txn))
          \<and> (errors_Is e ErrDuplicateEvent \<longrightarrow> txns w' = txns w \<and> tx_EventID txn \<in> tx_EventID ` set (txns w)))"
proof -
  have "guarded tref c (\<lambda>c. Insert T c txn) err_of [ErrDuplicateEvent] (Inl ErrCircuitOpen) w = (r, w')"
    using assms(2) by (simp add: breaker_ops)
  then show ?thesis
  proof (cases rule: guarded_cases)
    case (rejected m)
    then show ?thesis using assms(1) by (simp add: frame)
  next
    case (called c m1 w2 m2)
    have i: "inv (m_set tref m1 w)" using assms(1) by (simp add: frame)
    show ?thesis
      using called(2) Insert_keeps [OF i called(1)] Insert_Inr [OF i, of c txn] Insert_Inl [OF i, of c txn]
        Insert_duplicate [OF i, of c txn] called(1)
      by (cases r) (auto simp: frame)
  qed
qed

lemma TB_reads:
  assumes "inv w"
  shows "GetByEventID TB c i w = (r, w') \<Longrightarrow> inv w' \<and> rows w' = rows w \<and> txns w' = txns w
      \<and> (\<forall>t. r = Inr t \<longrightarrow> t \<in> set (txns w) \<and> tx_EventID t = i)"
    and "ListByTenant TB c tenant since w = (rl, w') \<Longrightarrow> inv w' \<and> rows w' = rows w \<and> txns w' = txns w"
proof -
  have i: "inv (m_set tref m w)" for m using assms by (simp add: frame)
  show "inv w' \<and> rows w' = rows w \<and> txns w' = txns w
      \<and> (\<forall>t. r = Inr t \<longrightarrow> t \<in> set (txns w) \<and> tx_EventID t = i)" if "GetByEventID TB c i w = (r, w')"
  proof (cases rule: guarded_cases [OF that [unfolded breaker_ops, simplified]])
    case (1 m)
    then show ?thesis using assms by (simp add: frame)
  next
    case (2 c m1 w2 m2)
    then show ?thesis
      using GetByEventID_keeps [OF i 2(1)] GetByEventID_Inr [OF i] by (auto simp: frame)
  qed
  show "inv w' \<and> rows w' = rows w \<and> txns w' = txns w" if "ListByTenant TB c tenant since w = (rl, w')"
  proof (cases rule: guarded_cases [OF that [unfolded breaker_ops, simplified]])
    case (1 m)
    then show ?thesis using assms by (simp add: frame)
  next
    case (2 c m1 w2 m2)
    then show ?thesis using ListByTenant_keeps [OF i 2(1)] by (auto simp: frame)
  qed
qed

lemma SB_Upsert:
  assumes "inv w" "Upsert SB c st w = (err, w')"
  shows "inv w' \<and> txns w' = txns w
    \<and> (case err of None \<Rightarrow> written (rows w) st (rows w')
       | Some e \<Rightarrow> (rows w' = rows w \<or> written (rows w) st (rows w'))
          \<and> (errors_Is e ErrStaleReconciledState \<longrightarrow> rows w' = rows w \<and> \<not> advances (rows w (rs_key st)) st))"
proof -
  have "guarded sref c (\<lambda>c. Upsert S c st) id [ErrStaleReconciledState] (Some ErrCircuitOpen) w = (err, w')"
    using assms(2) by (simp add: breaker_ops)
  then show ?thesis
  proof (cases rule: guarded_cases)
    case (rejected m)
    then show ?thesis using assms(1) by (simp add: frame)
  next
    case (called c m1 w2 m2)
    have i: "inv (m_set sref m1 w)" using assms(1) by (simp add: frame)
    show ?thesis
      using called(2) Upsert_keeps [OF i called(1)] Upsert_None [OF i, of c st] Upsert_Some [OF i, of c st]
        Upsert_stale [OF i, of c st] called(1)
      by (cases err) (auto simp: frame)
  qed
qed

lemma SB_Get:
  assumes "inv w" "Get SB c tenant instr w = (r, w')"
  shows "inv w' \<and> rows w' = rows w \<and> txns w' = txns w
    \<and> (case r of Inr st \<Rightarrow> rows w (tenant, instr) = Some st
       | Inl e \<Rightarrow> errors_Is e ErrNotFound \<longrightarrow> rows w (tenant, instr) = None)"
proof -
  have "guarded sref c (\<lambda>c. Get S c tenant instr) err_of [ErrNotFound] (Inl ErrCircuitOpen) w = (r, w')"
    using assms(2) by (simp add: breaker_ops)
  then show ?thesis
  proof (cases rule: guarded_cases)
    case (rejected m)
    then show ?thesis using assms(1) by (simp add: frame)
  next
    case (called c m1 w2 m2)
    have i: "inv (m_set sref m1 w)" using assms(1) by (simp add: frame)
    show ?thesis
      using called(2) Get_keeps [OF i called(1)] Get_Inr [OF i, of c tenant instr]
        Get_not_found [OF i, of c tenant instr] called(1)
      by (cases r) (auto simp: frame)
  qed
qed

lemma wrapped_contract: "ledger_store TB SB txns rows inv"
proof
  fix w k st
  assume i: "inv w"
  show "sorted_wrt id_less (txns w)" "distinct (map tx_EventID (txns w))"
    using i by (simp_all add: ids_increase events_distinct)
  show "rows w k = Some st \<Longrightarrow> rs_key st = k"
    using i rows_keyed by blast
qed (drule (1) TB_Insert TB_reads SB_Upsert SB_Get, auto)+

end

sublocale breaker_store \<subseteq> wrapped: ledger_store TB SB txns rows inv
  by (rule wrapped_contract)

text \<open>
  The processor's state: the database and the machines of its two breakers, which read the same
  clock, as \<open>src/cmd/processor/main.go\<close> wires them.
\<close>

record world = DB +
  w_txn_machine :: Machine
  w_state_machine :: Machine

definition txn_ref :: "('a world_scheme) machine_ref" where
  "txn_ref = \<lparr>m_get = w_txn_machine, m_set = (\<lambda>m. w_txn_machine_update (\<lambda>_. m)), m_now = db_now\<rparr>"

definition state_ref :: "('a world_scheme) machine_ref" where
  "state_ref = \<lparr>m_get = w_state_machine, m_set = (\<lambda>m. w_state_machine_update (\<lambda>_. m)), m_now = db_now\<rparr>"

definition transactions :: "('a world_scheme) TransactionRepository" where
  "transactions = as_TransactionRepository \<lparr>tb_next = TransactionStore, tb_machine = txn_ref\<rparr>"

definition reconciledStates :: "('a world_scheme) ReconciledStateRepository" where
  "reconciledStates = as_ReconciledStateRepository \<lparr>sb_next = ReconciledStateStore, sb_machine = state_ref\<rparr>"

lemma db_inv_machines [simp]:
  "db_inv (w_txn_machine_update f w) = db_inv w" "db_inv (w_state_machine_update f w) = db_inv w"
  by (simp_all add: db_inv_def)

interpretation guarded_pg: breaker_store TransactionStore ReconciledStateStore db_transactions db_states db_inv
    txn_ref state_ref
  by unfold_locales (simp_all add: txn_ref_def state_ref_def)

lemma guarded_pg_ops: "guarded_pg.TB = transactions" "guarded_pg.SB = reconciledStates"
  by (simp_all add: guarded_pg.TB_def guarded_pg.SB_def transactions_def reconciledStates_def)

interpretation wpg: ledger_store transactions reconciledStates db_transactions db_states db_inv
  by (rule guarded_pg.wrapped_contract [unfolded guarded_pg_ops])

section \<open>Properties\<close>

lemma Allow_rejects:
  assumes "machine_ok m" "m_state m = HalfOpen \<or> m_state m = Open \<and> now < m_openedAt m + sint (OpenTimeout (m_config m))"
  shows "Allow now m = ((False, False), m)"
  using assms by (auto simp: Allow_simps Allow_Open)

lemma guarded_rejects:
  assumes "Allow (m_now ref w) (m_get ref w) = ((False, False), m_get ref w)" "m_set ref (m_get ref w) w = w"
  shows "guarded ref ctx call err ignored rejected w = (rejected, w)"
  using assms by (simp add: guarded_def allow_at_def)

text \<open>
  C35. Fail fast: while a repository's breaker is open and its timeout has not elapsed, or while its
  probe is unresolved, every method returns \<open>ErrCircuitOpen\<close> and nothing at all changes: no statement
  is sent to the database.
\<close>

theorem breaker_fails_fast:
  assumes "machine_ok m"
    "m_state m = HalfOpen \<or> m_state m = Open \<and> db_now w < m_openedAt m + sint (OpenTimeout (m_config m))"
  shows "(w_txn_machine w = m \<longrightarrow>
        Insert transactions c txn w = (Inl ErrCircuitOpen, w)
      \<and> GetByEventID transactions c i w = (Inl ErrCircuitOpen, w)
      \<and> ListByTenant transactions c tenant since w = (Inl ErrCircuitOpen, w))
    \<and> (w_state_machine w = m \<longrightarrow>
        Upsert reconciledStates c st w = (Some ErrCircuitOpen, w)
      \<and> Get reconciledStates c tenant instr w = (Inl ErrCircuitOpen, w))"
proof -
  have r: "Allow (db_now w) m = ((False, False), m)" by (rule Allow_rejects [OF assms])
  then show ?thesis
    by (auto simp: transactions_def reconciledStates_def as_TransactionRepository_def
        as_ReconciledStateRepository_def guarded_methods txn_ref_def state_ref_def intro!: guarded_rejects)
qed

definition demo_world :: world where
  "demo_world = \<lparr>db_transactions = [], db_next_id = 1, db_states = Map.empty, db_now = 0, db_script = [],
     db_text_ok = (\<lambda>_. True), db_timestamptz = (\<lambda>t. t),
     w_txn_machine = demo_machine, w_state_machine = demo_machine\<rparr>"

theorem breaker_fails_fast_witness:
  "Insert transactions None (demo_txn 7 ''BUY'' 5 3) (demo_world\<lparr>w_txn_machine := ForceOpen 0 demo_machine\<rparr>)
    = (Inl ErrCircuitOpen, demo_world\<lparr>w_txn_machine := ForceOpen 0 demo_machine\<rparr>)"
  using breaker_fails_fast [of "ForceOpen 0 demo_machine" "demo_world\<lparr>w_txn_machine := ForceOpen 0 demo_machine\<rparr>"]
  by (simp add: ForceOpen_def demo_machine_def demo_config_def demo_world_def machine_ok_def Validate_def)

lemma pool_run_frame:
  assumes "\<And>c d. f (snd (stmt c d)) = f d" "\<And>t sc. f (db\<lparr>db_now := t, db_script := sc\<rparr>) = f db"
  shows "f (snd (pool_run ctx stmt db)) = f db"
  using assms by (auto simp: pool_run_def Let_def split: prod.splits option.splits)

lemma Insert_machine_frame:
  "TransactionStore_Insert c txn w = (r, w') \<Longrightarrow> w_txn_machine w' = w_txn_machine w \<and> w_state_machine w' = w_state_machine w"
proof -
  assume i: "TransactionStore_Insert c txn w = (r, w')"
  have f: "f (snd (pool_run c (sql_insert_transaction txn) w)) = f w"
    if "f \<in> {w_txn_machine, w_state_machine}" for f
    using that by (intro pool_run_frame) (auto simp: sql_insert_transaction_def Let_def split: option.splits)
  have "w' = snd (pool_run c (sql_insert_transaction txn) w)"
    using i by (auto simp: TransactionStore_Insert_def split: prod.splits)
  then show ?thesis using f by simp
qed

lemma closed_Insert:
  assumes "m_state (w_txn_machine w) = Closed" "Insert transactions c txn w = (r, w')"
  shows "r = fst (TransactionStore_Insert c txn w)
    \<and> w_txn_machine w' = Record (db_now w')
        (case r of Inl e \<Rightarrow> if errors_Is e ErrDuplicateEvent then None else Some e | Inr _ \<Rightarrow> None) (w_txn_machine w)
    \<and> w_state_machine w' = w_state_machine w"
proof -
  obtain r0 w0 where i: "TransactionStore_Insert c txn w = (r0, w0)" by (metis prod.collapse)
  have "ignoredForBreaker (err_of r0) [ErrDuplicateEvent] \<longleftrightarrow> (\<exists>e. r0 = Inl e \<and> errors_Is e ErrDuplicateEvent)"
    by (cases r0) auto
  moreover have "Insert transactions c txn w = (r0, record_at txn_ref
      (if ignoredForBreaker (err_of r0) [ErrDuplicateEvent] then None else err_of r0) w0)"
    using assms(1) i
    by (simp add: transactions_def as_TransactionRepository_def guarded_methods guarded_def allow_at_def
        txn_ref_def Allow_simps ProbeContext_def TransactionStore_def)
  ultimately show ?thesis
    using assms(2) Insert_machine_frame [OF i] i
    by (cases r0) (auto simp: record_at_def txn_ref_def)
qed

lemma outage_Insert:
  assumes "m_state (w_txn_machine w) = Closed" "db_script w = c # cs" "dc_error c \<noteq> None"
    "Insert transactions None txn w = (r, w')"
  shows "\<exists>e. r = Inl e \<and> db_script w' = cs \<and> w_txn_machine w' = Record (db_now w') (Some e) (w_txn_machine w)"
proof -
  obtain s where s: "dc_error c = Some s" using assms(3) by blast
  have stmt: "db_script (snd (sql_insert_transaction txn d v)) = db_script v" for d and v :: "'a world_scheme"
    by (auto simp: sql_insert_transaction_def Let_def split: option.splits)
  have i: "fst (TransactionStore_Insert None txn w) = Inl (Wrap ''insert transaction'' (Msg s))"
      "db_script (snd (TransactionStore_Insert None txn w)) = cs"
    using assms(2) s stmt by (simp_all add: TransactionStore_Insert_def pool_run_def call_outcome_def Let_def)
  have "db_script w' = db_script (snd (TransactionStore_Insert None txn w))"
    using assms(1,4)
    by (auto simp: transactions_def as_TransactionRepository_def guarded_methods guarded_def allow_at_def
        txn_ref_def Allow_simps ProbeContext_def TransactionStore_def record_at_def split: prod.splits)
  then show ?thesis
    using closed_Insert [OF assms(1,4)] i by (simp add: ErrDuplicateEvent_def)
qed

definition insert_all :: "Transaction list \<Rightarrow> 'a world_scheme \<Rightarrow> 'a world_scheme" where
  "insert_all txs w = fold (\<lambda>txn w. snd (Insert transactions None txn w)) txs w"

lemma outage_failures:
  assumes "machine_ok (w_txn_machine w)" "m_state (w_txn_machine w) = Closed"
    "db_script w = outage @ rest" "\<forall>c \<in> set outage. dc_error c \<noteq> None" "length txs = length outage"
    "unat (m_consecutiveFailures (w_txn_machine w)) + length txs \<le> unat (FailureThreshold (m_config (w_txn_machine w)))"
    "txs \<noteq> []"
  shows "\<exists>fs e. length fs + 1 = length txs \<and> db_script (insert_all txs w) = rest
    \<and> w_txn_machine (insert_all txs w) = failures (fs @ [(db_now (insert_all txs w), e)]) (w_txn_machine w)"
  using assms
proof (induction txs arbitrary: w outage)
  case (Cons txn txs)
  obtain c cs where o: "outage = c # cs" using Cons.prems(5) by (cases outage) auto
  obtain r w1 where ins: "Insert transactions None txn w = (r, w1)" by (metis prod.collapse)
  obtain e where w1: "db_script w1 = cs @ rest" "w_txn_machine w1 = Record (db_now w1) (Some e) (w_txn_machine w)"
    using outage_Insert [OF Cons.prems(2) _ _ ins] Cons.prems(3,4) o by auto
  have all: "insert_all (txn # txs) w = insert_all txs w1" using ins by (simp add: insert_all_def)
  have m1: "w_txn_machine w1 = failures [(db_now w1, e)] (w_txn_machine w)" using w1 by (simp add: failures_def)
  show ?case
  proof (cases txs)
    case Nil
    then show ?thesis using Cons.prems(5) o w1 all m1
      by (intro exI [of _ "[]"] exI [of _ e]) (simp add: insert_all_def)
  next
    case (Cons t ts)
    let ?m = "w_txn_machine w"
    have lt: "unat (m_consecutiveFailures ?m) + length [(db_now w1, e)] < unat (FailureThreshold (m_config ?m))"
      using Cons.prems(6) Cons by simp
    have m1': "w_txn_machine w1 = ?m\<lparr>m_consecutiveFailures := m_consecutiveFailures ?m + 1\<rparr>"
      using failures_below_threshold [OF Cons.prems(1,2) lt] m1 by simp
    have u: "unat (m_consecutiveFailures ?m + 1) = unat (m_consecutiveFailures ?m) + 1"
      using lt unat32_less [of "FailureThreshold (m_config ?m)"]
      by (subst unat_plus_simple [THEN iffD1]) (auto simp: no_olen_add_nat)
    have ok: "machine_ok (w_txn_machine w1)" using w1(2) Record_ok [OF Cons.prems(1)] by simp
    have "\<exists>fs e. length fs + 1 = length txs \<and> db_script (insert_all txs w1) = rest
        \<and> w_txn_machine (insert_all txs w1) = failures (fs @ [(db_now (insert_all txs w1), e)]) (w_txn_machine w1)"
      by (rule Cons.IH [OF ok _ w1(1)]) (use Cons.prems o m1' u Cons in simp_all)
    then obtain fs e' where ih: "length fs + 1 = length txs" "db_script (insert_all txs w1) = rest"
      "w_txn_machine (insert_all txs w1) = failures (fs @ [(db_now (insert_all txs w1), e')]) (w_txn_machine w1)"
      by blast
    then show ?thesis
      by (intro exI [of _ "(db_now w1, e) # fs"] exI [of _ e']) (simp add: all m1 failures_def)
  qed
qed simp

text \<open>
  What counts: a call let through a closed breaker reports to the machine exactly the errors that
  say the database is unhealthy. A success and \<open>ErrDuplicateEvent\<close> both reset the count; the result of
  the wrapped store reaches the caller unchanged; the other breaker is not involved.
\<close>

theorem breaker_counts_failures:
  assumes "m_state (w_txn_machine w) = Closed" "Insert transactions c txn w = (r, w')"
  shows "r = fst (TransactionStore_Insert c txn w)
    \<and> w_txn_machine w' = Record (db_now w')
        (case r of Inl e \<Rightarrow> if errors_Is e ErrDuplicateEvent then None else Some e | Inr _ \<Rightarrow> None) (w_txn_machine w)
    \<and> w_state_machine w' = w_state_machine w"
  using closed_Insert assms .

theorem breaker_counts_failures_witness:
  "m_consecutiveFailures (w_txn_machine (snd (Insert transactions None (demo_txn 7 ''BUY'' 0 3) demo_world))) = 1"
proof -
  have "fst (TransactionStore_Insert None (demo_txn 7 ''BUY'' 0 3) demo_world) = Inl (Wrap ''insert transaction'' (Msg ''SQLSTATE 23514''))"
    by (simp add: store_eval demo_world_def Let_def pgUniqueViolation_def)
  then show ?thesis
    using breaker_counts_failures [of demo_world None "demo_txn 7 ''BUY'' 0 3"]
    by (cases "Insert transactions None (demo_txn 7 ''BUY'' 0 3) demo_world")
      (simp add: demo_world_def demo_machine_def demo_config_def Record_def Let_def ErrDuplicateEvent_def word_le_nat_alt)
qed

text \<open>
  An outage end to end: when \<open>FailureThreshold\<close> inserts in a row meet a database error, the
  breaker of the transaction repository is open right after the last one, and the next call fails
  fast without consuming any database call.
\<close>

theorem outage_trips_breaker:
  assumes "machine_ok (w_txn_machine w)" "m_state (w_txn_machine w) = Closed" "m_consecutiveFailures (w_txn_machine w) = 0"
    "db_script w = outage @ rest" "\<forall>c \<in> set outage. dc_error c \<noteq> None"
    "length txs = length outage" "length outage = unat (FailureThreshold (m_config (w_txn_machine w)))"
  shows "m_state (w_txn_machine (insert_all txs w)) = Open \<and> db_script (insert_all txs w) = rest
    \<and> Insert transactions ctx txn (insert_all txs w) = (Inl ErrCircuitOpen, insert_all txs w)"
proof -
  let ?w = "insert_all txs w" and ?m = "w_txn_machine w"
  have "FailureThreshold (m_config ?m) \<noteq> 0" using assms(1) by (simp add: machine_ok_def Validate_None_iff)
  then have "txs \<noteq> []" using assms(6,7) by (auto simp: unat_eq_0)
  then obtain fs e where f: "length fs + 1 = length txs" "db_script ?w = rest"
      "w_txn_machine ?w = failures (fs @ [(db_now ?w, e)]) ?m"
    using outage_failures [OF assms(1,2,4-6)] assms(3,6,7) by auto
  then have m: "w_txn_machine ?w = ?m\<lparr>m_state := Open, m_openedAt := db_now ?w\<rparr>"
    using failures_trip [OF assms(1-3), of fs 0 "db_now ?w" e] assms(6,7) by simp
  moreover have "0 < sint (OpenTimeout (m_config ?m))"
    using assms(1) by (simp add: machine_ok_def Validate_None_iff)
  moreover have "machine_ok (w_txn_machine ?w)"
    using m assms(1,3) by (simp add: machine_ok_def)
  ultimately have "Allow (db_now ?w) (w_txn_machine ?w) = ((False, False), w_txn_machine ?w)"
    by (intro Allow_rejects) auto
  then have "Insert transactions ctx txn ?w = (Inl ErrCircuitOpen, ?w)"
    by (auto simp: transactions_def as_TransactionRepository_def guarded_methods txn_ref_def intro!: guarded_rejects)
  then show ?thesis using m f by simp
qed

definition demo_error :: dbcall where
  "demo_error = quiet\<lparr>dc_elapsed := 1, dc_error := Some ''connection refused'', dc_reached := False\<rparr>"

theorem outage_trips_breaker_witness:
  "db_script (insert_all [demo_txn 1 ''BUY'' 1 1, demo_txn 2 ''BUY'' 1 1]
     (demo_world\<lparr>db_script := [demo_error, demo_error, quiet]\<rparr>)) = [quiet]"
  using outage_trips_breaker [of "demo_world\<lparr>db_script := [demo_error, demo_error, quiet]\<rparr>" "[demo_error, demo_error]" "[quiet]"
      "[demo_txn 1 ''BUY'' 1 1, demo_txn 2 ''BUY'' 1 1]" None "demo_txn 3 ''BUY'' 1 1"] New_ok [OF New_demo]
  by (simp add: demo_world_def demo_error_def demo_machine_def demo_config_def)

end
