(* ===== verification/GoLib.thy ===== *)
theory GoLib
  imports Prelude
begin

text \<open>
  The functions of Go's \<open>strings\<close>, \<open>bytes\<close> and \<open>strconv\<close> packages that the sources call, on
  byte strings (a Go string is a byte sequence, a HOL \<^typ>\<open>string\<close> a list of 8-bit characters).
  Decimal parsing and printing come with their round trip, which the amount, partition-list and
  configuration components share.
\<close>

section \<open>Bytes and decimal digits\<close>

abbreviation byte :: "char \<Rightarrow> nat" where "byte c \<equiv> of_char c"

definition is_digit :: "char \<Rightarrow> bool" where
  "is_digit c \<longleftrightarrow> 48 \<le> byte c \<and> byte c \<le> 57"

definition digit_val :: "char \<Rightarrow> nat" where
  "digit_val c = byte c - 48"

definition digit_char :: "nat \<Rightarrow> char" where
  "digit_char d = char_of (48 + d)"

text \<open>The number a string of digits denotes, most significant digit first.\<close>

definition dec_val :: "string \<Rightarrow> nat" where
  "dec_val s = foldl (\<lambda>n c. n * 10 + digit_val c) 0 s"

lemma digit_char_simps [simp]:
  assumes "d < 10"
  shows "is_digit (digit_char d)" "digit_val (digit_char d) = d"
  using assms by (simp_all add: is_digit_def digit_val_def digit_char_def)

lemma digit_char_eval [simp]:
  "digit_char 0 = CHR ''0''" "digit_char (Suc 0) = CHR ''1''" "digit_char 2 = CHR ''2''"
  "digit_char 3 = CHR ''3''" "digit_char 4 = CHR ''4''" "digit_char 5 = CHR ''5''"
  "digit_char 6 = CHR ''6''" "digit_char 7 = CHR ''7''" "digit_char 8 = CHR ''8''"
  "digit_char 9 = CHR ''9''"
  by (simp_all add: digit_char_def char_of_def bit_iff_odd)

lemma digit_val_less [simp]: "is_digit c \<Longrightarrow> digit_val c < 10"
  by (auto simp: is_digit_def digit_val_def)

lemma foldl_dec_val:
  "foldl (\<lambda>n c. n * 10 + digit_val c) a s = a * 10 ^ length s + dec_val s"
proof (induction s arbitrary: a)
  case (Cons c s)
  show ?case
    using Cons.IH [of "a * 10 + digit_val c"] Cons.IH [of "digit_val c"]
    by (simp add: dec_val_def algebra_simps)
qed (simp add: dec_val_def)

lemma dec_val_Nil [simp]: "dec_val [] = 0"
  by (simp add: dec_val_def)

lemma dec_val_Cons: "dec_val (c # s) = digit_val c * 10 ^ length s + dec_val s"
  using foldl_dec_val [of "digit_val c" s] by (simp add: dec_val_def)

lemma dec_val_append: "dec_val (s @ t) = dec_val s * 10 ^ length t + dec_val t"
  using foldl_dec_val [of "dec_val s" t] by (simp add: dec_val_def)

lemma dec_val_zeros [simp]: "dec_val (replicate n (CHR ''0'')) = 0"
  by (induction n) (simp_all add: dec_val_Cons digit_val_def)

lemma dec_val_less: "list_all is_digit s \<Longrightarrow> dec_val s < 10 ^ length s"
proof (induction s)
  case (Cons c s)
  then have "digit_val c * 10 ^ length s \<le> 9 * 10 ^ length s"
    by (intro mult_right_mono) (use digit_val_less [of c] in \<open>auto simp: less_Suc_eq_le [symmetric]\<close>)
  moreover have "dec_val s < 10 ^ length s" using Cons by simp
  ultimately show ?case unfolding dec_val_Cons length_Cons power_Suc by linarith
qed simp

section \<open>strconv\<close>

text \<open>
  \<open>strconv.ParseUint(s, 10, bits)\<close>: the empty string and a non-digit are syntax errors, and the
  scan stops with a range error at the first prefix whose value does not fit.
\<close>

definition ErrSyntax :: goerror where "ErrSyntax = Sentinel ''invalid syntax''"
definition ErrRange :: goerror where "ErrRange = Sentinel ''value out of range''"

fun ParseUint_loop :: "nat \<Rightarrow> nat \<Rightarrow> string \<Rightarrow> nat result" where
  "ParseUint_loop bits n [] = Inr n"
| "ParseUint_loop bits n (c # s) =
     (if \<not> is_digit c then Inl ErrSyntax
      else if n * 10 + digit_val c \<ge> 2 ^ bits then Inl ErrRange
      else ParseUint_loop bits (n * 10 + digit_val c) s)"

definition ParseUint :: "string \<Rightarrow> nat \<Rightarrow> nat result" where
  "ParseUint s bits = (if s = [] then Inl ErrSyntax else ParseUint_loop bits 0 s)"

text \<open>\<open>strconv.ParseInt(s, 10, bits)\<close> and \<open>strconv.Atoi\<close> (64-bit \<open>int\<close>).\<close>

definition ParseInt :: "string \<Rightarrow> nat \<Rightarrow> int result" where
  "ParseInt s bits =
     (if s = [] then Inl ErrSyntax
      else let neg = (hd s = CHR ''-'');
               rest = (if hd s = CHR ''-'' \<or> hd s = CHR ''+'' then tl s else s)
           in bind_res (ParseUint rest bits) (\<lambda>un.
                if \<not> neg \<and> un \<ge> 2 ^ (bits - 1) then Inl ErrRange
                else if neg \<and> un > 2 ^ (bits - 1) then Inl ErrRange
                else Inr (if neg then - int un else int un)))"

definition Atoi :: "string \<Rightarrow> int result" where
  "Atoi s = ParseInt s 64"

text \<open>\<open>strconv.FormatUint(n, 10)\<close> and \<open>strconv.Itoa\<close>.\<close>

fun FormatUint :: "nat \<Rightarrow> string" where
  "FormatUint n = (if n < 10 then [digit_char n] else FormatUint (n div 10) @ [digit_char (n mod 10)])"

declare FormatUint.simps [simp del]

definition Itoa :: "int \<Rightarrow> string" where
  "Itoa k = (if k < 0 then CHR ''-'' # FormatUint (nat (- k)) else FormatUint (nat k))"

lemma ParseUint_loop_Inr_iff:
  "ParseUint_loop bits n s = Inr m \<longleftrightarrow>
     list_all is_digit s \<and> m = n * 10 ^ length s + dec_val s \<and> (s = [] \<or> m < 2 ^ bits)"
proof (induction s arbitrary: n)
  case (Cons c s)
  let ?n = "n * 10 + digit_val c"
  have "?n \<le> ?n * 10 ^ length s" by (metis mult.right_neutral mult_le_mono2 one_le_numeral one_le_power)
  then have grow: "?n \<le> ?n * 10 ^ length s + dec_val s" by (rule trans_le_add1)
  have eq: "?n * 10 ^ length s + dec_val s = n * 10 ^ length (c # s) + dec_val (c # s)"
    by (simp add: dec_val_Cons algebra_simps)
  show ?case
    using Cons.IH [of ?n] grow by (auto simp: eq)
qed auto

lemma ParseUint_Inr_iff [golib]:
  "ParseUint s bits = Inr m \<longleftrightarrow> s \<noteq> [] \<and> list_all is_digit s \<and> m = dec_val s \<and> m < 2 ^ bits"
  by (auto simp: ParseUint_def ParseUint_loop_Inr_iff)

lemma FormatUint_digits [simp]: "list_all is_digit (FormatUint n)"
  by (induction n rule: FormatUint.induct) (subst FormatUint.simps, simp)

lemma FormatUint_nonempty [simp]: "FormatUint n \<noteq> []"
  by (subst FormatUint.simps) simp

lemma dec_val_FormatUint [simp]: "dec_val (FormatUint n) = n"
proof (induction n rule: FormatUint.induct)
  case (1 n)
  then show ?case
    by (subst FormatUint.simps) (auto simp: dec_val_append dec_val_Cons)
qed

lemma ParseUint_FormatUint [golib]: "n < 2 ^ bits \<Longrightarrow> ParseUint (FormatUint n) bits = Inr n"
  by (simp add: ParseUint_Inr_iff)

lemma digit_not_sign: "is_digit c \<Longrightarrow> c \<noteq> CHR ''-'' \<and> c \<noteq> CHR ''+'' \<and> c \<noteq> CHR ''.'' \<and>
    c \<noteq> CHR ''e'' \<and> c \<noteq> CHR ''E'' \<and> c \<noteq> CHR '','' \<and> c \<noteq> CHR '' ''"
  by (auto simp: is_digit_def)

lemma FormatUint_hd: "hd (FormatUint n) \<noteq> CHR ''-'' \<and> hd (FormatUint n) \<noteq> CHR ''+''"
  using FormatUint_digits [of n] FormatUint_nonempty [of n] digit_not_sign
  by (cases "FormatUint n") auto

text \<open>\<open>Atoi\<close> reads back what \<open>Itoa\<close> prints.\<close>

lemma Atoi_Itoa [golib]: "is_int64 k \<Longrightarrow> Atoi (Itoa k) = Inr k"
proof -
  assume k: "is_int64 k"
  show ?thesis
  proof (cases "k < 0")
    case True
    then have "ParseUint (FormatUint (nat (- k))) 64 = Inr (nat (- k))"
      using k by (intro ParseUint_FormatUint) (simp add: is_int64_def)
    with True k show ?thesis
      by (simp add: Atoi_def ParseInt_def Itoa_def is_int64_def Let_def)
  next
    case False
    then have "ParseUint (FormatUint (nat k)) 64 = Inr (nat k)"
      using k by (intro ParseUint_FormatUint) (simp add: is_int64_def)
    with False k FormatUint_hd [of "nat k"] show ?thesis
      by (simp add: Atoi_def ParseInt_def Itoa_def is_int64_def Let_def)
  qed
qed

section \<open>strings\<close>

text \<open>\<open>strings.Cut(s, sep)\<close> for a one-byte separator: before, after and whether it was found.\<close>

fun strings_Cut :: "string \<Rightarrow> char \<Rightarrow> string \<times> string \<times> bool" where
  "strings_Cut [] sep = ([], [], False)"
| "strings_Cut (c # s) sep =
     (if c = sep then ([], s, True)
      else case strings_Cut s sep of (before, after, found) \<Rightarrow> (c # before, after, found))"

text \<open>\<open>strings.IndexAny(s, chars)\<close>, \<open>bytes.IndexByte\<close>: \<^const>\<open>None\<close> stands for a result of -1.\<close>

fun strings_IndexAny :: "string \<Rightarrow> string \<Rightarrow> nat option" where
  "strings_IndexAny [] chars = None"
| "strings_IndexAny (c # s) chars =
     (if c \<in> set chars then Some 0 else map_option Suc (strings_IndexAny s chars))"

definition bytes_IndexByte :: "string \<Rightarrow> char \<Rightarrow> nat option" where
  "bytes_IndexByte s c = strings_IndexAny s [c]"

text \<open>\<open>strings.Split(s, sep)\<close> for a one-byte separator, and \<open>strings.Join\<close>.\<close>

fun strings_Split :: "string \<Rightarrow> char \<Rightarrow> string list" where
  "strings_Split [] sep = [[]]"
| "strings_Split (c # s) sep =
     (if c = sep then [] # strings_Split s sep
      else case strings_Split s sep of [] \<Rightarrow> [[c]] | f # fs \<Rightarrow> (c # f) # fs)"

fun strings_Join :: "string list \<Rightarrow> char \<Rightarrow> string" where
  "strings_Join [] sep = []"
| "strings_Join [f] sep = f"
| "strings_Join (f # g # fs) sep = f @ sep # strings_Join (g # fs) sep"

text \<open>\<open>strings.CutPrefix(s, prefix)\<close> and \<open>strings.HasPrefix\<close>.\<close>

fun strings_CutPrefix :: "string \<Rightarrow> string \<Rightarrow> string option" where
  "strings_CutPrefix s [] = Some s"
| "strings_CutPrefix [] (p # ps) = None"
| "strings_CutPrefix (c # s) (p # ps) = (if c = p then strings_CutPrefix s ps else None)"

definition strings_HasPrefix :: "string \<Rightarrow> string \<Rightarrow> bool" where
  "strings_HasPrefix s p \<longleftrightarrow> strings_CutPrefix s p \<noteq> None"

lemma Cut_absent [golib]: "sep \<notin> set s \<Longrightarrow> strings_Cut s sep = (s, [], False)"
  by (induction s) auto

lemma Cut_append [golib]: "sep \<notin> set s \<Longrightarrow> strings_Cut (s @ sep # t) sep = (s, t, True)"
  by (induction s) auto

lemma Cut_parts:
  "strings_Cut s sep = (w, f, found) \<Longrightarrow> s = w @ (if found then sep # f else []) \<and> (\<not> found \<longrightarrow> f = [])"
  by (induction s arbitrary: w) (auto split: if_splits prod.splits)

lemma IndexAny_None_iff [golib]: "strings_IndexAny s chars = None \<longleftrightarrow> set s \<inter> set chars = {}"
  by (induction s) auto

lemma IndexAny_append [golib]:
  "set s \<inter> set chars = {} \<Longrightarrow> c \<in> set chars \<Longrightarrow> strings_IndexAny (s @ c # t) chars = Some (length s)"
  by (induction s) auto

lemma IndexAny_Some:
  "strings_IndexAny s chars = Some i \<Longrightarrow>
     i < length s \<and> s ! i \<in> set chars \<and> set (take i s) \<inter> set chars = {}"
proof (induction s arbitrary: i)
  case (Cons c s)
  then show ?case by (cases i) (auto split: if_splits)
qed simp

lemma CutPrefix_iff [golib]: "strings_CutPrefix s p = Some t \<longleftrightarrow> s = p @ t"
  by (induction s p rule: strings_CutPrefix.induct) auto

lemma Split_nonempty [simp]: "strings_Split s sep \<noteq> []"
  by (induction s) (auto split: list.split)

lemma Split_absent: "sep \<notin> set s \<Longrightarrow> strings_Split s sep = [s]"
  by (induction s) auto

lemma Split_append: "sep \<notin> set s \<Longrightarrow> strings_Split (s @ sep # t) sep = s # strings_Split t sep"
  by (induction s) auto

text \<open>Splitting a joined list gives it back when no field holds the separator.\<close>

lemma Split_Join [golib]:
  "fs \<noteq> [] \<Longrightarrow> \<forall>f \<in> set fs. sep \<notin> set f \<Longrightarrow> strings_Split (strings_Join fs sep) sep = fs"
  by (induction fs sep rule: strings_Join.induct) (simp_all add: Split_absent Split_append)

end
