(* ===== verification/Amount.thy ===== *)
theory Amount
  imports GoLib Complex_Main
begin

text \<open>
  Fixed-point amounts, \<open>src/internal/ledger/amount.go\<close>: an \<open>int64\<close> is the decimal value times
  \<open>AmountScale\<close>. Parsing (\<open>ParseAmount\<close> with \<open>isDigits\<close> and \<open>mulPow10\<close>), printing
  (\<open>FormatAmount\<close>) and the rescaling product and quotient (\<open>MulAmount\<close>, \<open>DivAmount\<close>).
  The lemmas show that \<open>mulPow10\<close> is exact or fails, that \<open>ParseAmount\<close> accepts exactly the
  decimals whose scaled value is representable, that printing and parsing are inverse, and how far
  the truncating product and quotient are from the exact ones.
\<close>

section \<open>Model of amount.go\<close>

definition AmountScale :: int64 where "AmountScale = 100000000"

definition amountFractionDigits :: nat where "amountFractionDigits = 8"

definition MaxAmount :: int64 where "MaxAmount = 10000000000 * AmountScale"

text \<open>
  The loop ranges over runes; a byte outside ASCII decodes to a rune above \<open>'9'\<close>, so the test on
  bytes gives the same answer.
\<close>

definition isDigits :: "string \<Rightarrow> bool" where
  "isDigits s \<longleftrightarrow> list_all is_digit s"

text \<open>\<open>mulPow10\<close>: the loop runs \<open>pow\<close> times and checks \<open>result\<close> before each multiplication.\<close>

primrec mulPow10_loop :: "nat \<Rightarrow> uint64 \<Rightarrow> uint64 result" where
  "mulPow10_loop 0 r = Inr r"
| "mulPow10_loop (Suc i) r =
     (if r > 18446744073709551615 div 10 then Inl (Msg ''magnitude too large'')
      else mulPow10_loop i (r * 10))"

definition mulPow10 :: "uint64 \<Rightarrow> int \<Rightarrow> uint64 result" where
  "mulPow10 base pow =
     (if base = 0 then Inr 0
      else if pow < 0 \<or> pow > 19 then Inl (Msg ''magnitude too large'')
      else mulPow10_loop (nat pow) base)"

text \<open>The exponent part of \<open>ParseAmount\<close>: the mantissa and the exponent, 0 when there is none.\<close>

definition splitExponent :: "string \<Rightarrow> (string \<times> int) result" where
  "splitExponent rest =
     (case strings_IndexAny rest ''eE'' of
        None \<Rightarrow> Inr (rest, 0)
      | Some idx \<Rightarrow>
          (case Atoi (drop (Suc idx) rest) of
             Inl err \<Rightarrow> Inl (Wrap ''amount has an invalid exponent'' err)
           | Inr parsedExponent \<Rightarrow>
               if parsedExponent < -1000 \<or> parsedExponent > 1000
               then Inl (Msg ''amount has an exponent out of range'')
               else Inr (take idx rest, parsedExponent)))"

text \<open>Rescaling the parsed digits by the pow of ten that is left, in either direction.\<close>

definition scaleMagnitude :: "uint64 \<Rightarrow> int \<Rightarrow> uint64 result" where
  "scaleMagnitude magnitude pow =
     (if pow \<ge> 0 then wrap_res ''amount is out of range'' (mulPow10 magnitude pow)
      else bind_res (wrap_res ''amount is out of range'' (mulPow10 1 (- pow))) (\<lambda>divisor.
             if magnitude mod divisor \<noteq> 0 then Inl (Msg ''amount has too many fractional digits'')
             else Inr (magnitude div divisor)))"

definition parseMantissa :: "string \<Rightarrow> (uint64 \<times> nat) result" where
  "parseMantissa mantissa =
     (case strings_Cut mantissa (CHR ''.'') of (wholePart, fracPart, _) \<Rightarrow>
        if wholePart = [] \<or> \<not> isDigits wholePart \<or> \<not> isDigits fracPart
        then Inl (Msg ''amount is not a valid decimal number'')
        else bind_res (wrap_res ''amount is not a valid decimal number'' (ParseUint (wholePart @ fracPart) 64))
               (\<lambda>magnitude. Inr (of_nat magnitude, length fracPart)))"

text \<open>The text after the sign, as an unsigned amount scaled to \<open>amountFractionDigits\<close> decimals.\<close>

definition scaledAmount :: "string \<Rightarrow> uint64 result" where
  "scaledAmount rest =
     bind_res (splitExponent rest) (\<lambda>(mantissa, exponent).
     bind_res (parseMantissa mantissa) (\<lambda>(magnitude, fracLen).
       scaleMagnitude magnitude (exponent - int fracLen + int amountFractionDigits)))"

definition ParseAmount :: "string \<Rightarrow> int64 result" where
  "ParseAmount value =
     (if value = [] then Inl (Msg ''amount must not be empty'')
      else let negative = (hd value = CHR ''-'');
               rest = (if hd value = CHR ''-'' \<or> hd value = CHR ''+'' then tl value else value)
           in if rest = [] then Inl (Msg ''amount is not a valid decimal number'')
              else bind_res (scaledAmount rest) (\<lambda>scaled.
                     if scaled > 9223372036854775807 then Inl (Msg ''amount is out of range'')
                     else Inr (if negative then - scaled else scaled)))"

definition FormatAmount :: "int64 \<Rightarrow> string" where
  "FormatAmount v =
     (let negative = (sint v < 0);
          magnitude = (if negative then - (v + 1) + 1 else v) :: uint64;
          digits0 = FormatUint (unat magnitude);
          digits = (if length digits0 \<le> amountFractionDigits
                    then replicate (amountFractionDigits - length digits0 + 1) (CHR ''0'') @ digits0
                    else digits0);
          cut = length digits - amountFractionDigits
      in (if negative then ''-'' else []) @ take cut digits @ ''.'' @ drop cut digits)"

text \<open>The products and quotients go through \<open>math/big\<close>: unbounded integers, \<open>Quo\<close> is \<open>sdiv\<close>.\<close>

definition MulAmount :: "int64 \<Rightarrow> int64 \<Rightarrow> int64 result" where
  "MulAmount multiplicand multiplier =
     (let product = (sint multiplicand * sint multiplier) sdiv sint AmountScale
      in if \<not> is_int64 product then Inl (Msg ''multiply amount: overflows int64 once rescaled'')
         else Inr (word_of_int product))"

definition DivAmount :: "int64 \<Rightarrow> int64 \<Rightarrow> int64 result" where
  "DivAmount dividend divisor =
     (if divisor = 0 then Inl (Msg ''divide amount: division by zero'')
      else let quotient = (sint dividend * sint AmountScale) sdiv sint divisor
           in if \<not> is_int64 quotient then Inl (Msg ''divide amount: overflows int64 once rescaled'')
              else Inr (word_of_int quotient))"

section \<open>The power-of-ten multiplication is exact or fails\<close>

lemma word64_less_max_div_10:
  "1844674407370955161 < (r :: uint64) \<longleftrightarrow> \<not> unat r * 10 < 2 ^ 64"
  by (simp add: word_less_nat_alt) linarith

lemma unat64_mult_10: "unat r * 10 < 2 ^ 64 \<Longrightarrow> unat (r * 10 :: uint64) = unat r * 10"
  by (simp add: unat_mult_lem [THEN iffD1])

lemma mulPow10_loop_eq:
  "mulPow10_loop n r =
     (if n = 0 \<or> unat r * 10 ^ n < 2 ^ 64 then Inr (r * 10 ^ n) else Inl (Msg ''magnitude too large''))"
proof (induction n arbitrary: r)
  case (Suc n)
  have grow: "unat r * 10 \<le> unat r * 10 ^ Suc n" by simp
  have step: "mulPow10_loop (Suc n) r =
      (if unat r * 10 < 2 ^ 64 then mulPow10_loop n (r * 10) else Inl (Msg ''magnitude too large''))"
    by (simp add: word64_less_max_div_10)
  show ?case
  proof (cases "unat r * 10 < 2 ^ 64")
    case True
    then show ?thesis
      using Suc.IH [of "r * 10"] unfolding step by (simp add: unat64_mult_10 mult.assoc)
  next
    case False
    with grow have "\<not> unat r * 10 ^ Suc n < 2 ^ 64" by linarith
    with False show ?thesis unfolding step by simp
  qed
qed simp

lemma mulPow10_eq:
  "mulPow10 b p =
     (if b = 0 then Inr 0
      else if 0 \<le> p \<and> unat b * 10 ^ nat p < 2 ^ 64 then Inr (b * 10 ^ nat p)
      else Inl (Msg ''magnitude too large''))"
proof -
  have "\<not> unat b * 10 ^ nat p < 2 ^ 64" if "b \<noteq> 0" "19 < p"
  proof -
    have "1 * 10 ^ 20 \<le> unat b * 10 ^ nat p"
      using that by (intro mult_le_mono power_increasing) (auto simp: Suc_le_eq unat_gt_0)
    then show ?thesis by simp
  qed
  moreover have "unat b < 2 ^ 64" by (rule unat64_less)
  ultimately show ?thesis by (auto simp: mulPow10_def mulPow10_loop_eq)
qed

lemma unat64_mult_pow10:
  "unat (b :: uint64) * 10 ^ n < 2 ^ 64 \<Longrightarrow> b \<noteq> 0 \<Longrightarrow> unat (b * 10 ^ n) = unat b * 10 ^ n"
proof -
  assume a: "unat b * 10 ^ n < 2 ^ 64" and "b \<noteq> 0"
  then have "1 \<le> unat b" by (simp add: Suc_le_eq unat_gt_0)
  then have "10 ^ n \<le> unat b * 10 ^ n" by simp
  with a have "(10::nat) ^ n < 2 ^ 64" by linarith
  then have "unat (10 ^ n :: uint64) = 10 ^ n"
    using unat64_of_nat [of "10 ^ n"] by simp
  with a show ?thesis by (simp add: unat_mult_lem [THEN iffD1])
qed

lemma mulPow10_Inr_iff:
  "mulPow10 b p = Inr m \<longleftrightarrow>
     (b = 0 \<and> m = 0) \<or>
     (b \<noteq> 0 \<and> 0 \<le> p \<and> unat b * 10 ^ nat p < 2 ^ 64 \<and> unat m = unat b * 10 ^ nat p)"
  using unat64_mult_pow10 [of b "nat p"] unat64_eqI [of m "b * 10 ^ nat p"]
  by (auto simp: mulPow10_eq)


section \<open>Decimal literals and what they denote\<close>

text \<open>
  The grammar \<open>ParseAmount\<close> accepts: an optional sign, digits, an optional fraction (possibly
  empty after the dot) and an optional exponent, an \<open>e\<close> or \<open>E\<close> and a text that \<open>Atoi\<close> reads.
\<close>

datatype decimal = Decimal
  (sign_part: string) (whole_part: string) (frac_part: "string option") (exp_part: "(char \<times> string) option")

definition render :: "decimal \<Rightarrow> string" where
  "render d = sign_part d @ whole_part d
     @ (case frac_part d of None \<Rightarrow> [] | Some f \<Rightarrow> CHR ''.'' # f)
     @ (case exp_part d of None \<Rightarrow> [] | Some (c, s) \<Rightarrow> c # s)"

definition frac_digits :: "decimal \<Rightarrow> string" where
  "frac_digits d = (case frac_part d of None \<Rightarrow> [] | Some f \<Rightarrow> f)"

definition exponent_of :: "decimal \<Rightarrow> int" where
  "exponent_of d = (case exp_part d of None \<Rightarrow> 0
     | Some (c, s) \<Rightarrow> (case Atoi s of Inl _ \<Rightarrow> 0 | Inr k \<Rightarrow> k))"

definition wf_exp :: "decimal \<Rightarrow> bool" where
  "wf_exp d = (case exp_part d of None \<Rightarrow> True
     | Some (c, s) \<Rightarrow> c \<in> set ''eE'' \<and> (case Atoi s of Inl _ \<Rightarrow> False | Inr k \<Rightarrow> \<bar>k\<bar> \<le> 1000))"

definition wf_decimal :: "decimal \<Rightarrow> bool" where
  "wf_decimal d \<longleftrightarrow> sign_part d \<in> {[], ''-'', ''+''} \<and> whole_part d \<noteq> []
     \<and> isDigits (whole_part d) \<and> isDigits (frac_digits d) \<and> wf_exp d"

definition digits_val :: "decimal \<Rightarrow> nat" where
  "digits_val d = dec_val (whole_part d @ frac_digits d)"

definition decimal_value :: "decimal \<Rightarrow> rat" where
  "decimal_value d = (if sign_part d = ''-'' then -1 else 1) * of_nat (digits_val d)
     * 10 powi (exponent_of d - int (length (frac_digits d)))"

text \<open>The same relation between digits, power of ten and scaled value, over the integers.\<close>

definition scaled_as :: "nat \<Rightarrow> int \<Rightarrow> nat \<Rightarrow> bool" where
  "scaled_as m p k \<longleftrightarrow> (if 0 \<le> p then k = m * 10 ^ nat p else k * 10 ^ nat (- p) = m)"

lemma scaled_as_rat: "scaled_as m p k \<longleftrightarrow> (of_nat k :: rat) = of_nat m * 10 powi p"
proof (cases "0 \<le> p")
  case True
  then have "(of_nat m * 10 powi p :: rat) = of_nat (m * 10 ^ nat p)"
    by (simp add: power_int_def)
  with True show ?thesis unfolding scaled_as_def by (metis of_nat_eq_iff)
next
  case False
  then have "(of_nat k :: rat) = of_nat m * 10 powi p \<longleftrightarrow> (of_nat (k * 10 ^ nat (- p)) :: rat) = of_nat m"
    by (simp add: power_int_def field_simps)
  with False show ?thesis unfolding scaled_as_def by (metis of_nat_eq_iff)
qed

lemma pow10_less_iff: "(10 :: nat) ^ n < 2 ^ 64 \<longleftrightarrow> n \<le> 19"
proof
  assume a: "(10 :: nat) ^ n < 2 ^ 64"
  show "n \<le> 19"
  proof (rule ccontr)
    assume "\<not> n \<le> 19"
    then have "(10 :: nat) ^ 20 \<le> 10 ^ n" by (intro power_increasing) auto
    with a show False by simp
  qed
next
  assume "n \<le> 19"
  then have "(10 :: nat) ^ n \<le> 10 ^ 19" by (intro power_increasing) auto
  then show "(10 :: nat) ^ n < 2 ^ 64" by simp
qed

lemma nat_exact_division: "0 < d \<Longrightarrow> m mod d = 0 \<and> s = m div d \<longleftrightarrow> s * d = (m :: nat)"
  using div_mult_mod_eq [of m d] by auto

lemma unat64_exact_division:
  assumes "d \<noteq> 0"
  shows "(m mod d = 0 \<and> s = m div d) \<longleftrightarrow> unat s * unat d = unat (m :: uint64)"
proof -
  have "m mod d = 0 \<longleftrightarrow> unat m mod unat d = 0" by (metis unat_eq_zero unat_mod)
  moreover have "s = m div d \<longleftrightarrow> unat s = unat m div unat d" by (metis unat_div unat64_eqI)
  moreover have "0 < unat d" using assms by (simp add: unat_gt_0)
  ultimately show ?thesis using nat_exact_division by simp
qed

lemma scaleMagnitude_Inr_iff:
  "scaleMagnitude m p = Inr s \<longleftrightarrow> scaled_as (unat m) p (unat s) \<and> - 19 \<le> p"
proof (cases "0 \<le> p")
  case True
  then show ?thesis
    using unat64_less [of s] by (auto simp: scaleMagnitude_def scaled_as_def mulPow10_Inr_iff unat_eq_zero)
next
  case False
  let ?d = "10 ^ nat (- p) :: uint64"
  have mul: "mulPow10 1 (- p) = (if nat (- p) \<le> 19 then Inr ?d else Inl (Msg ''magnitude too large''))"
    using False by (simp add: mulPow10_eq pow10_less_iff [simplified])
  show ?thesis
  proof (cases "nat (- p) \<le> 19")
    case small: True
    then have "(10 :: nat) ^ nat (- p) < 2 ^ 64" by (simp only: pow10_less_iff)
    then have d: "unat ?d = 10 ^ nat (- p)" using unat64_of_nat [of "10 ^ nat (- p)"] by simp
    then have "?d \<noteq> 0" using unat_eq_zero [of ?d] by simp
    note exact = unat64_exact_division [OF this, of m s]
    have "scaleMagnitude m p = Inr s \<longleftrightarrow> m mod ?d = 0 \<and> s = m div ?d"
      using False small by (cases "m mod ?d = 0") (auto simp: scaleMagnitude_def mul)
    also have "\<dots> \<longleftrightarrow> unat s * 10 ^ nat (- p) = unat m" using exact d by simp
    finally show ?thesis using small False by (auto simp: scaled_as_def)
  next
    case big: False
    with False show ?thesis by (auto simp: scaleMagnitude_def mul)
  qed
qed

section \<open>ParseAmount accepts exactly the representable decimals\<close>

definition mantissa_text :: "decimal \<Rightarrow> string" where
  "mantissa_text d = whole_part d @ (case frac_part d of None \<Rightarrow> [] | Some f \<Rightarrow> CHR ''.'' # f)"

definition exp_text :: "decimal \<Rightarrow> string" where
  "exp_text d = (case exp_part d of None \<Rightarrow> [] | Some (c, s) \<Rightarrow> c # s)"

lemma render_parts: "render d = sign_part d @ mantissa_text d @ exp_text d"
  by (simp add: render_def mantissa_text_def exp_text_def)

lemma digits_absent:
  "isDigits s \<Longrightarrow> CHR ''.'' \<notin> set s \<and> set s \<inter> set ''eE'' = {} \<and> CHR ''-'' \<notin> set s \<and> CHR ''+'' \<notin> set s"
  by (auto simp: isDigits_def list_all_iff dest: digit_not_sign)

lemma splitExponent_render:
  assumes "wf_decimal d"
  shows "splitExponent (mantissa_text d @ exp_text d) = Inr (mantissa_text d, exponent_of d)"
proof -
  have m: "set (mantissa_text d) \<inter> set ''eE'' = {}"
    using assms digits_absent by (auto simp: wf_decimal_def mantissa_text_def frac_digits_def split: option.splits)
  show ?thesis
  proof (cases "exp_part d")
    case None
    have "strings_IndexAny (mantissa_text d) ''eE'' = None" using m unfolding IndexAny_None_iff .
    with None show ?thesis by (simp add: splitExponent_def exp_text_def exponent_of_def)
  next
    case (Some e)
    obtain c s where e: "e = (c, s)" by (cases e)
    with Some assms obtain k where c: "c \<in> set ''eE''" and k: "Atoi s = Inr k" "\<bar>k\<bar> \<le> 1000"
      by (auto simp: wf_decimal_def wf_exp_def split: sum.splits)
    have "strings_IndexAny (mantissa_text d @ c # s) ''eE'' = Some (length (mantissa_text d))"
      using m c by (rule IndexAny_append)
    with Some e k show ?thesis
      by (auto simp: splitExponent_def exp_text_def exponent_of_def)
  qed
qed

lemma parseMantissa_render:
  assumes "wf_decimal d"
  shows "parseMantissa (mantissa_text d) = Inr (m, n) \<longleftrightarrow>
    digits_val d < 2 ^ 64 \<and> m = of_nat (digits_val d) \<and> n = length (frac_digits d)"
proof -
  have "strings_Cut (mantissa_text d) (CHR ''.'') = (whole_part d, frac_digits d, frac_part d \<noteq> None)"
    using assms digits_absent
    by (cases "frac_part d") (simp_all add: wf_decimal_def mantissa_text_def frac_digits_def Cut_absent Cut_append)
  then show ?thesis
    using assms
    by (auto simp: parseMantissa_def wf_decimal_def isDigits_def bind_res_Inr_iff ParseUint_Inr_iff digits_val_def)
qed

lemma ParseAmount_signed:
  assumes "r \<noteq> []" "hd r \<noteq> CHR ''-''" "hd r \<noteq> CHR ''+''" "sg \<in> {[], ''-'', ''+''}"
  shows "ParseAmount (sg @ r) = bind_res (scaledAmount r) (\<lambda>scaled.
    if scaled > 9223372036854775807 then Inl (Msg ''amount is out of range'')
    else Inr (if sg = ''-'' then - scaled else scaled))"
  using assms by (cases "scaledAmount r"; elim insertE) (simp_all add: ParseAmount_def)

lemma scaledAmount_render:
  assumes "wf_decimal d"
  shows "scaledAmount (mantissa_text d @ exp_text d) = Inr k \<longleftrightarrow> digits_val d < 2 ^ 64 \<and>
    scaleMagnitude (of_nat (digits_val d)) (exponent_of d - int (length (frac_digits d)) + 8) = Inr k"
  using parseMantissa_render [OF assms]
  by (auto simp: scaledAmount_def splitExponent_render [OF assms] bind_res_Inr_iff amountFractionDigits_def)

lemma mantissa_text_hd:
  assumes "wf_decimal d"
  shows "mantissa_text d \<noteq> [] \<and> hd (mantissa_text d) \<noteq> CHR ''-'' \<and> hd (mantissa_text d) \<noteq> CHR ''+''"
  using assms
  by (cases "whole_part d") (auto simp: wf_decimal_def mantissa_text_def isDigits_def dest: digit_not_sign)

lemma ParseAmount_render:
  assumes "wf_decimal d"
  shows "ParseAmount (render d) = Inr v \<longleftrightarrow>
    digits_val d < 2 ^ 64 \<and>
    (\<exists>k. scaleMagnitude (of_nat (digits_val d)) (exponent_of d - int (length (frac_digits d)) + 8) = Inr k
       \<and> \<not> k > 9223372036854775807 \<and> v = (if sign_part d = ''-'' then - k else k))"
proof -
  let ?r = "mantissa_text d @ exp_text d"
  have eq: "ParseAmount (sign_part d @ ?r) = bind_res (scaledAmount ?r) (\<lambda>scaled.
      if scaled > 9223372036854775807 then Inl (Msg ''amount is out of range'')
      else Inr (if sign_part d = ''-'' then - scaled else scaled))"
    using mantissa_text_hd [OF assms] assms by (intro ParseAmount_signed) (auto simp: wf_decimal_def)
  show ?thesis
    unfolding render_parts eq bind_res_Inr_iff scaledAmount_render [OF assms] guard_Inr_iff by blast
qed

lemma splitExponent_parts:
  assumes "splitExponent r = Inr (m, e)"
  obtains x where "r = m @ (case x of None \<Rightarrow> [] | Some (c, s) \<Rightarrow> c # s)"
    and "\<And>sg w f. wf_exp (Decimal sg w f x)"
proof (cases "strings_IndexAny r ''eE''")
  case None
  with assms show ?thesis by (intro that [of None]) (auto simp: splitExponent_def wf_exp_def)
next
  case (Some i)
  note i = IndexAny_Some [OF Some]
  with Some assms obtain k where "Atoi (drop (Suc i) r) = Inr k" "\<bar>k\<bar> \<le> 1000" "m = take i r"
    by (auto simp: splitExponent_def split: sum.splits if_splits)
  with i show ?thesis
    by (intro that [of "Some (r ! i, drop (Suc i) r)"]) (auto simp: wf_exp_def id_take_nth_drop [symmetric])
qed

lemma parseMantissa_parts:
  assumes "parseMantissa m = Inr p"
  obtains w f where "m = w @ (case f of None \<Rightarrow> [] | Some f \<Rightarrow> CHR ''.'' # f)" "w \<noteq> []" "isDigits w"
    and "\<And>sg x. isDigits (frac_digits (Decimal sg w f x))"
proof -
  obtain w f found where cut: "strings_Cut m (CHR ''.'') = (w, f, found)" by (metis prod_cases3)
  with assms have "w \<noteq> []" "isDigits w" "isDigits f"
    by (auto simp: parseMantissa_def split: if_splits)
  with Cut_parts [OF cut] show ?thesis
    by (intro that [of w "if found then Some f else None"]) (auto simp: frac_digits_def)
qed

lemma scaledAmount_is_decimal:
  assumes "scaledAmount r = Inr k" "sg \<in> {[], ''-'', ''+''}"
  shows "\<exists>d. wf_decimal d \<and> sg @ r = render d"
proof -
  from assms(1) obtain m e p where "splitExponent r = Inr (m, e)" and "parseMantissa m = Inr p"
    by (auto simp: scaledAmount_def bind_res_Inr_iff)
  then obtain x w f where "r = m @ (case x of None \<Rightarrow> [] | Some (c, s) \<Rightarrow> c # s)"
      "\<And>sg w f. wf_exp (Decimal sg w f x)"
      "m = w @ (case f of None \<Rightarrow> [] | Some f \<Rightarrow> CHR ''.'' # f)" "w \<noteq> []" "isDigits w"
      "\<And>sg x. isDigits (frac_digits (Decimal sg w f x))"
    by (metis splitExponent_parts parseMantissa_parts)
  with assms(2) show ?thesis
    by (intro exI [of _ "Decimal sg w f x"]) (simp add: wf_decimal_def render_def)
qed

lemma ParseAmount_is_decimal:
  assumes "ParseAmount s = Inr v"
  shows "\<exists>d. wf_decimal d \<and> s = render d"
proof -
  let ?signed = "hd s = CHR ''-'' \<or> hd s = CHR ''+''"
  let ?sg = "if ?signed then [hd s] else []"
  let ?r = "if ?signed then tl s else s"
  from assms have s: "s \<noteq> []" by (auto simp: ParseAmount_def)
  with assms obtain k where "scaledAmount ?r = Inr k"
    by (auto simp: ParseAmount_def Let_def bind_res_Inr_iff split: if_splits)
  then have "\<exists>d. wf_decimal d \<and> ?sg @ ?r = render d"
    by (rule scaledAmount_is_decimal) auto
  moreover have "?sg @ ?r = s" using s by simp
  ultimately show ?thesis by metis
qed

definition decimal_sign :: "decimal \<Rightarrow> int" where
  "decimal_sign d = (if sign_part d = ''-'' then -1 else 1)"

lemma decimal_value_scaled:
  "decimal_value d * 10 ^ 8 = of_int (decimal_sign d) *
     (of_nat (digits_val d) * 10 powi (exponent_of d - int (length (frac_digits d)) + 8))"
  by (simp add: decimal_value_def decimal_sign_def power_int_add)

lemma scaled_as_value:
  "scaled_as (digits_val d) (exponent_of d - int (length (frac_digits d)) + 8) k \<longleftrightarrow>
     decimal_value d * 10 ^ 8 = of_int (decimal_sign d * int k)"
proof -
  have "(of_nat k :: rat) = x \<longleftrightarrow> of_int (decimal_sign d) * x = of_int (decimal_sign d * int k)" for x
    by (auto simp: decimal_sign_def)
  then show ?thesis by (simp only: scaled_as_rat decimal_value_scaled)
qed

lemma scaled_as_value_ex:
  "(\<exists>n. scaled_as (digits_val d) (exponent_of d - int (length (frac_digits d)) + 8) n
      \<and> k = decimal_sign d * int n) \<longleftrightarrow> decimal_value d * 10 ^ 8 = of_int k"
proof
  assume "decimal_value d * 10 ^ 8 = of_int k"
  then have "of_int k = of_int (decimal_sign d) *
      (of_nat (digits_val d) * 10 powi (exponent_of d - int (length (frac_digits d)) + 8) :: rat)"
    by (simp only: decimal_value_scaled)
  then have "(0 :: rat) \<le> of_int (decimal_sign d * k)"
    by (auto simp: decimal_sign_def split: if_splits)
  then have "k = decimal_sign d * int (nat (decimal_sign d * k))"
    by (auto simp: decimal_sign_def split: if_splits)
  with \<open>decimal_value d * 10 ^ 8 = of_int k\<close> show "\<exists>n. scaled_as (digits_val d)
      (exponent_of d - int (length (frac_digits d)) + 8) n \<and> k = decimal_sign d * int n"
    unfolding scaled_as_value by metis
qed (auto simp: scaled_as_value)

lemma int64_sign_magnitude:
  "(\<exists>k :: uint64. unat k \<le> 9223372036854775807 \<and> P (unat k) \<and> v = (if neg then - k else k)) \<longleftrightarrow>
   sint v \<noteq> min_int64 \<and> (\<exists>n. P n \<and> sint v = (if neg then - 1 else 1) * int n)"
proof
  assume "\<exists>k :: uint64. unat k \<le> 9223372036854775807 \<and> P (unat k) \<and> v = (if neg then - k else k)"
  then obtain k :: uint64 where k: "unat k \<le> 9223372036854775807" "P (unat k)" "v = (if neg then - k else k)"
    by blast
  then have "sint v = (if neg then - 1 else 1) * int (unat k)"
    by (simp only: sint64_unat sint64_uminus_unat split: if_splits) auto
  moreover from this k(1) have "sint v \<noteq> min_int64"
    by (cases neg) (auto simp del: of_nat_unat)
  ultimately show "sint v \<noteq> min_int64 \<and> (\<exists>n. P n \<and> sint v = (if neg then - 1 else 1) * int n)"
    using k(2) by blast
next
  assume "sint v \<noteq> min_int64 \<and> (\<exists>n. P n \<and> sint v = (if neg then - 1 else 1) * int n)"
  then obtain n where n: "P n" "sint v = (if neg then - 1 else 1) * int n" and "sint v \<noteq> min_int64"
    by blast
  then have le: "n \<le> 9223372036854775807"
    using sint64_range [of v] by (auto split: if_splits)
  then have u: "unat (of_nat n :: uint64) = n" by (intro unat64_of_nat) simp
  have "v = word_of_int (sint v)" by simp
  also have "\<dots> = (if neg then - of_nat n else of_nat n)" unfolding n(2) by simp
  finally have "v = (if neg then - of_nat n else of_nat n)" .
  with n le u show "\<exists>k :: uint64. unat k \<le> 9223372036854775807 \<and> P (unat k) \<and> v = (if neg then - k else k)"
    by (intro exI [of _ "of_nat n"]) simp
qed

lemma ParseAmount_render_exact:
  assumes wf: "wf_decimal d"
  shows "ParseAmount (render d) = Inr v \<longleftrightarrow> digits_val d < 2 ^ 64
      \<and> int (length (frac_digits d)) - exponent_of d \<le> 27
      \<and> decimal_value d * 10 ^ 8 = of_int (sint v) \<and> sint v \<noteq> min_int64"
proof (cases "digits_val d < 2 ^ 64")
  case True
  let ?p = "exponent_of d - int (length (frac_digits d)) + 8"
  have "ParseAmount (render d) = Inr v \<longleftrightarrow> - 19 \<le> ?p \<and>
      (\<exists>k :: uint64. unat k \<le> 9223372036854775807 \<and> scaled_as (digits_val d) ?p (unat k)
         \<and> v = (if sign_part d = ''-'' then - k else k))"
    unfolding ParseAmount_render [OF wf] scaleMagnitude_Inr_iff unat64_of_nat [OF True]
    using True by (auto simp: word_less_nat_alt not_less)
  also have "\<dots> \<longleftrightarrow> - 19 \<le> ?p \<and> sint v \<noteq> min_int64 \<and>
      (\<exists>n. scaled_as (digits_val d) ?p n \<and> sint v = decimal_sign d * int n)"
    unfolding int64_sign_magnitude decimal_sign_def ..
  also have "(\<exists>n. scaled_as (digits_val d) ?p n \<and> sint v = decimal_sign d * int n) \<longleftrightarrow>
      decimal_value d * 10 ^ 8 = of_int (sint v)"
    by (rule scaled_as_value_ex)
  finally show ?thesis using True by auto
next
  case False
  then show ?thesis by (simp add: ParseAmount_render [OF wf])
qed


section \<open>Printing and parsing are inverse\<close>

lemma unat64_magnitude:
  "unat (if sint v < 0 then - (v + 1) + 1 else v :: int64) = nat \<bar>sint v\<bar>"
proof -
  have "(if sint v < 0 then - (v + 1) + 1 else v) = word_of_int \<bar>sint v\<bar>" by simp
  moreover have "uint (word_of_int \<bar>sint v\<bar> :: uint64) = \<bar>sint v\<bar>"
    using sint64_range [of v] by (intro uint64_of_int) (auto simp: abs_if)
  ultimately show ?thesis by (simp add: unat_eq_nat_uint)
qed

definition padded_digits :: "nat \<Rightarrow> string" where
  "padded_digits n = (let ds = FormatUint n in
     if length ds \<le> 8 then replicate (8 - length ds + 1) (CHR ''0'') @ ds else ds)"

lemma padded_digits_props:
  "isDigits (padded_digits n)" "8 < length (padded_digits n)" "dec_val (padded_digits n) = n"
  by (auto simp: padded_digits_def Let_def isDigits_def dec_val_append dec_val_Cons is_digit_def
      digit_val_def list_all_iff [of _ "replicate _ _"])

definition formatted :: "int64 \<Rightarrow> decimal" where
  "formatted v = (let ds = padded_digits (nat \<bar>sint v\<bar>); n = length ds - 8 in
     Decimal (if sint v < 0 then ''-'' else []) (take n ds) (Some (drop n ds)) None)"

lemma FormatAmount_render: "FormatAmount v = render (formatted v)"
  unfolding FormatAmount_def Let_def unat64_magnitude amountFractionDigits_def
  by (simp add: formatted_def render_def padded_digits_def Let_def)

lemma formatted_props:
  "wf_decimal (formatted v)" "length (frac_digits (formatted v)) = 8" "exponent_of (formatted v) = 0"
  "digits_val (formatted v) = nat \<bar>sint v\<bar>" "decimal_sign (formatted v) = (if sint v < 0 then - 1 else 1)"
  using padded_digits_props [of "nat \<bar>sint v\<bar>"]
  by (auto simp: formatted_def wf_decimal_def wf_exp_def frac_digits_def exponent_of_def digits_val_def
      decimal_sign_def isDigits_def list_all_iff Let_def dest: in_set_takeD in_set_dropD)

text \<open>Equations that evaluate the parser and the printer on closed terms.\<close>

lemmas parse_eval = ParseAmount_def scaledAmount_def splitExponent_def parseMantissa_def ParseUint_def
  is_digit_def digit_val_def scaleMagnitude_def mulPow10_eq isDigits_def Atoi_def ParseInt_def
  amountFractionDigits_def

lemmas format_eval = Let_def FormatAmount_render formatted_def padded_digits_def render_def FormatUint.simps

lemma ParseAmount_Format:
  assumes "v \<noteq> - 9223372036854775808"
  shows "ParseAmount (FormatAmount v) = Inr v"
proof -
  have "sint v \<noteq> sint (- 9223372036854775808 :: int64)" using assms sint64_eq_iff by blast
  then have "sint v \<noteq> min_int64" by simp
  moreover have "decimal_value (formatted v) * 10 ^ 8 = of_int (sint v)"
    unfolding decimal_value_scaled formatted_props by (auto simp: abs_if)
  moreover have "nat \<bar>sint v\<bar> < 2 ^ 64" using sint64_range [of v] by (auto simp: abs_if)
  ultimately show ?thesis
    unfolding FormatAmount_render ParseAmount_render_exact [OF formatted_props(1)] formatted_props by simp
qed

text \<open>
  C38: printing an amount and parsing it back gives the same amount, for every \<open>int64\<close> but the least
  one.
\<close>

theorem ParseAmount_FormatAmount:
  assumes "v \<noteq> - 9223372036854775808"
  shows "ParseAmount (FormatAmount v) = Inr v"
  using assms by (rule ParseAmount_Format)

theorem ParseAmount_FormatAmount_witness:
  "(- 1234567890123 :: int64) \<noteq> - 9223372036854775808
   \<and> FormatAmount (- 1234567890123) = ''-12345.67890123''
   \<and> ParseAmount (FormatAmount (- 1234567890123)) = Inr (- 1234567890123)"
proof -
  have ne: "(- 1234567890123 :: int64) \<noteq> - 9223372036854775808" by simp
  moreover have "FormatAmount (- 1234567890123) = ''-12345.67890123''" by (simp add: format_eval)
  ultimately show ?thesis using ParseAmount_FormatAmount [OF ne] by (intro conjI)
qed

text \<open>
  The least \<open>int64\<close>, which \<open>FormatAmount\<close> takes care to print, is the value the round trip
  loses: its printed form is rejected by \<open>ParseAmount\<close> as out of range.
\<close>

theorem ParseAmount_min_int64_rejected:
  "FormatAmount (- 9223372036854775808) = ''-92233720368.54775808''
   \<and> ParseAmount ''-92233720368.54775808'' = Inl (Msg ''amount is out of range'')"
  by (simp add: format_eval parse_eval)

section \<open>Products and quotients\<close>

lemma AmountScale_sint [simp]: "sint AmountScale = 100000000"
  by (simp add: AmountScale_def)

lemma int64_result_iff:
  "(if \<not> is_int64 q then Inl e else Inr (word_of_int q :: int64)) = Inr c \<longleftrightarrow> sint c = q"
  by (auto simp: sint64_of_int)

lemma MulAmount_Inr_iff: "MulAmount a b = Inr c \<longleftrightarrow> sint c = (sint a * sint b) sdiv 100000000"
  unfolding MulAmount_def Let_def int64_result_iff by simp

lemma DivAmount_Inr_iff:
  "DivAmount a b = Inr c \<longleftrightarrow> b \<noteq> 0 \<and> sint c = (sint a * 100000000) sdiv sint b"
proof (cases "b = 0")
  case False
  then show ?thesis unfolding DivAmount_def Let_def by (simp only: if_False int64_result_iff) simp
qed (simp add: DivAmount_def)

text \<open>
  The rescaled product and quotient are truncated towards zero by less than one unit of the
  last place (of the divisor for the quotient) and are never larger in magnitude than the exact
  ones; an error is returned only for a zero divisor or when the exact result, once rescaled, is at
  least \<open>2 ^ 63\<close> in magnitude, so no product or quotient wraps around.
\<close>

theorem MulAmount_DivAmount_truncate:
  "(case MulAmount a b of
      Inr c \<Rightarrow> \<bar>sint a * sint b - sint c * 10 ^ 8\<bar> < 10 ^ 8 \<and> \<bar>sint c * 10 ^ 8\<bar> \<le> \<bar>sint a * sint b\<bar>
    | Inl _ \<Rightarrow> 2 ^ 63 * 10 ^ 8 \<le> \<bar>sint a * sint b\<bar>)
   \<and> (case DivAmount a b of
      Inr c \<Rightarrow> \<bar>sint a * 10 ^ 8 - sint c * sint b\<bar> < \<bar>sint b\<bar> \<and> \<bar>sint c * sint b\<bar> \<le> \<bar>sint a * 10 ^ 8\<bar>
    | Inl _ \<Rightarrow> b = 0 \<or> 2 ^ 63 * \<bar>sint b\<bar> \<le> \<bar>sint a * 10 ^ 8\<bar>)"
proof (intro conjI)
  show "case MulAmount a b of
      Inr c \<Rightarrow> \<bar>sint a * sint b - sint c * 10 ^ 8\<bar> < 10 ^ 8 \<and> \<bar>sint c * 10 ^ 8\<bar> \<le> \<bar>sint a * sint b\<bar>
    | Inl _ \<Rightarrow> 2 ^ 63 * 10 ^ 8 \<le> \<bar>sint a * sint b\<bar>"
  proof (cases "MulAmount a b")
    case (Inr c)
    then have "sint c = (sint a * sint b) sdiv 10 ^ 8" by (simp add: MulAmount_Inr_iff)
    with Inr show ?thesis
      using sdiv_remainder_bound [of "10 ^ 8" "sint a * sint b"] sdiv_mult_le [of "sint a * sint b" "10 ^ 8"]
      by simp
  next
    case (Inl e)
    then have "\<not> is_int64 ((sint a * sint b) sdiv 10 ^ 8)"
      by (simp add: MulAmount_def Let_def split: if_splits)
    from sdiv_out_of_range [OF this] Inl show ?thesis by simp
  qed
  show "case DivAmount a b of
      Inr c \<Rightarrow> \<bar>sint a * 10 ^ 8 - sint c * sint b\<bar> < \<bar>sint b\<bar> \<and> \<bar>sint c * sint b\<bar> \<le> \<bar>sint a * 10 ^ 8\<bar>
    | Inl _ \<Rightarrow> b = 0 \<or> 2 ^ 63 * \<bar>sint b\<bar> \<le> \<bar>sint a * 10 ^ 8\<bar>"
  proof (cases "DivAmount a b")
    case (Inr c)
    then have "b \<noteq> 0" "sint c = (sint a * 10 ^ 8) sdiv sint b" by (simp_all add: DivAmount_Inr_iff)
    with Inr show ?thesis
      using sdiv_remainder_bound [of "sint b" "sint a * 10 ^ 8"] sdiv_mult_le [of "sint a * 10 ^ 8" "sint b"]
      by simp
  next
    case (Inl e)
    then have "b = 0 \<or> \<not> is_int64 ((sint a * 10 ^ 8) sdiv sint b)"
      by (simp add: DivAmount_def Let_def split: if_splits)
    with Inl show ?thesis using sdiv_out_of_range [of "sint a * 10 ^ 8" "sint b"] by auto
  qed
qed

end
