(* ===== verification/Json.thy ===== *)
theory Json
  imports GoLib "HOL-Library.Monad_Syntax" "HOL-Library.AList"
begin

text \<open>
  The part of Go's \<open>encoding/json\<close> that the sources use: \<open>Marshal\<close> of flat structs and of maps of
  flat structs, \<open>Unmarshal\<close> (and \<open>Decoder.Decode\<close>, which reads one value and leaves the rest) into
  such types. A document is parsed into a tree, which is then decoded by the rules for struct and map
  targets: unknown keys are skipped, keys match exactly or under case folding, \<open>null\<close> leaves a field
  alone, the last of repeated keys wins, and any value of the wrong type makes the whole call fail.
  Strings are byte strings; bytes that are not UTF-8 are replaced by U+FFFD in both directions.
\<close>

section \<open>UTF-8\<close>

definition utf8_cont :: "char \<Rightarrow> bool" where
  "utf8_cont c \<longleftrightarrow> 128 \<le> byte c \<and> byte c \<le> 191"

definition utf8_seq2 :: "char \<Rightarrow> char \<Rightarrow> bool" where
  "utf8_seq2 a b \<longleftrightarrow> 194 \<le> byte a \<and> byte a \<le> 223 \<and> utf8_cont b"

definition utf8_seq3 :: "char \<Rightarrow> char \<Rightarrow> char \<Rightarrow> bool" where
  "utf8_seq3 a b c \<longleftrightarrow> 224 \<le> byte a \<and> byte a \<le> 239
     \<and> (if byte a = 224 then 160 else 128) \<le> byte b \<and> byte b \<le> (if byte a = 237 then 159 else 191) \<and> utf8_cont c"

definition utf8_seq4 :: "char \<Rightarrow> char \<Rightarrow> char \<Rightarrow> char \<Rightarrow> bool" where
  "utf8_seq4 a b c d \<longleftrightarrow> 240 \<le> byte a \<and> byte a \<le> 244
     \<and> (if byte a = 240 then 144 else 128) \<le> byte b \<and> byte b \<le> (if byte a = 244 then 143 else 191) \<and> utf8_cont c \<and> utf8_cont d"

text \<open>Length of the well-formed sequence at the head of a string, 0 if there is none.\<close>

fun utf8_len :: "string \<Rightarrow> nat" where
  "utf8_len [] = 0"
| "utf8_len (a # r) =
     (if byte a < 128 then 1
      else case r of [] \<Rightarrow> 0
           | b # r2 \<Rightarrow> if utf8_seq2 a b then 2
               else (case r2 of [] \<Rightarrow> 0
                     | c # r3 \<Rightarrow> if utf8_seq3 a b c then 3
                         else (case r3 of [] \<Rightarrow> 0 | d # _ \<Rightarrow> if utf8_seq4 a b c d then 4 else 0)))"

declare utf8_len.simps(2) [simp del]

text \<open>\<open>utf8.EncodeRune\<close>; surrogates and values beyond U+10FFFF become U+FFFD.\<close>

definition utf8_encode :: "nat \<Rightarrow> string" where
  "utf8_encode r0 =
     (let r = (if (55296 \<le> r0 \<and> r0 \<le> 57343) \<or> 1114111 < r0 then 65533 else r0)
      in if r < 128 then [char_of r]
         else if r < 2048 then [char_of (192 + r div 64), char_of (128 + r mod 64)]
         else if r < 65536 then [char_of (224 + r div 4096), char_of (128 + r div 64 mod 64), char_of (128 + r mod 64)]
         else [char_of (240 + r div 262144), char_of (128 + r div 4096 mod 64), char_of (128 + r div 64 mod 64), char_of (128 + r mod 64)])"

definition utf8_replacement :: string where
  "utf8_replacement = [CHR 0xEF, CHR 0xBF, CHR 0xBD]"

section \<open>Strings\<close>

definition hex_digit :: "nat \<Rightarrow> char" where
  "hex_digit n = (if n < 10 then char_of (48 + n) else char_of (87 + n))"

definition hex_val :: "char \<Rightarrow> nat option" where
  "hex_val c =
     (if is_digit c then Some (byte c - 48)
      else if 97 \<le> byte c \<and> byte c \<le> 102 then Some (byte c - 87)
      else if 65 \<le> byte c \<and> byte c \<le> 70 then Some (byte c - 55)
      else None)"

text \<open>The four hexadecimal digits of a \<open>\u\<close> escape.\<close>

definition getu4 :: "string \<Rightarrow> (nat \<times> string) option" where
  "getu4 s = (case s of a # b # c # d # r \<Rightarrow>
       do { x \<leftarrow> hex_val a; y \<leftarrow> hex_val b; z \<leftarrow> hex_val c; w \<leftarrow> hex_val d; Some (4096 * x + 256 * y + 16 * z + w, r) }
     | _ \<Rightarrow> None)"

text \<open>A low surrogate escaped right after a high one.\<close>

definition low_surrogate :: "string \<Rightarrow> (nat \<times> string) option" where
  "low_surrogate s = (case s of a # b # r \<Rightarrow>
       if a = CHR 0x5C \<and> b = CHR ''u'' then
         (case getu4 r of Some (x, r') \<Rightarrow> if 56320 \<le> x \<and> x \<le> 57343 then Some (x, r') else None | None \<Rightarrow> None)
       else None
     | _ \<Rightarrow> None)"

definition unescape_u :: "string \<Rightarrow> (string \<times> string) option" where
  "unescape_u s = (case getu4 s of None \<Rightarrow> None
     | Some (x, r) \<Rightarrow>
         if 55296 \<le> x \<and> x \<le> 56319 then
           (case low_surrogate r of
              Some (y, r') \<Rightarrow> Some (utf8_encode (65536 + (x - 55296) * 1024 + (y - 56320)), r')
            | None \<Rightarrow> Some (utf8_replacement, r))
         else Some (utf8_encode x, r))"

definition unescape_char :: "char \<Rightarrow> char option" where
  "unescape_char c =
     (if c = CHR 0x22 \<or> c = CHR 0x5C \<or> c = CHR ''/'' then Some c
      else if c = CHR ''b'' then Some (CHR 0x08) else if c = CHR ''f'' then Some (CHR 0x0C)
      else if c = CHR ''n'' then Some (CHR 0x0A) else if c = CHR ''r'' then Some (CHR 0x0D)
      else if c = CHR ''t'' then Some (CHR 0x09) else None)"

lemma unescape_u_length: "unescape_u s = Some (t, r) \<Longrightarrow> length r < length s"
  by (fastforce simp: unescape_u_def getu4_def low_surrogate_def bind_eq_Some_conv split: list.splits option.splits if_splits)

text \<open>The body of a string literal, up to and without the closing quote, decoded.\<close>

function unquote :: "string \<Rightarrow> (string \<times> string) option" where
  "unquote s = (case s of [] \<Rightarrow> None
     | c # r \<Rightarrow>
         if c = CHR 0x22 then Some ([], r)
         else if c = CHR 0x5C then
           (case r of [] \<Rightarrow> None
            | e # r' \<Rightarrow>
                if e = CHR ''u'' then
                  (case unescape_u r' of None \<Rightarrow> None
                   | Some (t, r'') \<Rightarrow> map_option (\<lambda>(u, q). (t @ u, q)) (unquote r''))
                else (case unescape_char e of None \<Rightarrow> None
                      | Some x \<Rightarrow> map_option (\<lambda>(u, q). (x # u, q)) (unquote r')))
         else if byte c < 32 then None
         else let n = utf8_len s
              in if n = 0 then map_option (\<lambda>(u, q). (utf8_replacement @ u, q)) (unquote r)
                 else map_option (\<lambda>(u, q). (take n s @ u, q)) (unquote (drop (n - 1) r)))"
  by pat_completeness auto
termination
  by (relation "measure length") (auto dest!: unescape_u_length)

declare unquote.simps [simp del]

text \<open>\<open>appendString\<close> with HTML escaping, as \<open>Marshal\<close> uses it.\<close>

definition escape_ascii :: "char \<Rightarrow> string" where
  "escape_ascii c =
     (if c = CHR 0x22 \<or> c = CHR 0x5C then [CHR 0x5C, c]
      else if c = CHR 0x08 then [CHR 0x5C, CHR ''b''] else if c = CHR 0x0C then [CHR 0x5C, CHR ''f'']
      else if c = CHR 0x0A then [CHR 0x5C, CHR ''n''] else if c = CHR 0x0D then [CHR 0x5C, CHR ''r'']
      else if c = CHR 0x09 then [CHR 0x5C, CHR ''t'']
      else if byte c < 32 \<or> c = CHR ''<'' \<or> c = CHR ''>'' \<or> c = CHR ''&'' then
        [CHR 0x5C, CHR ''u'', CHR ''0'', CHR ''0'', hex_digit (byte c div 16), hex_digit (byte c mod 16)]
      else [c])"

function quote_body :: "string \<Rightarrow> string" where
  "quote_body s = (case s of [] \<Rightarrow> []
     | c # r \<Rightarrow>
         if byte c < 128 then escape_ascii c @ quote_body r
         else let n = utf8_len s
              in if n = 0 then [CHR 0x5C, CHR ''u'', CHR ''f'', CHR ''f'', CHR ''f'', CHR ''d''] @ quote_body r
                 else if take 3 s = [CHR 0xE2, CHR 0x80, CHR 0xA8] \<or> take 3 s = [CHR 0xE2, CHR 0x80, CHR 0xA9] then
                   [CHR 0x5C, CHR ''u'', CHR ''2'', CHR ''0'', CHR ''2'', hex_digit (byte (s ! 2) mod 16)] @ quote_body (drop 2 r)
                 else take n s @ quote_body (drop (n - 1) r))"
  by pat_completeness auto
termination
  by (relation "measure length") auto

declare quote_body.simps [simp del]

definition json_quote :: "string \<Rightarrow> string" where
  "json_quote s = CHR 0x22 # quote_body s @ [CHR 0x22]"

section \<open>Documents\<close>

datatype json = JNull | JBool bool | JNum string | JStr string | JArr "json list" | JObj "(string \<times> json) list"

definition is_ws :: "char \<Rightarrow> bool" where
  "is_ws c \<longleftrightarrow> c = CHR 0x20 \<or> c = CHR 0x09 \<or> c = CHR 0x0A \<or> c = CHR 0x0D"

abbreviation skip_ws :: "string \<Rightarrow> string" where "skip_ws \<equiv> dropWhile is_ws"

definition scan_digits :: "string \<Rightarrow> (string \<times> string) option" where
  "scan_digits s = (if takeWhile is_digit s = [] then None else Some (takeWhile is_digit s, dropWhile is_digit s))"

definition scan_int :: "string \<Rightarrow> (string \<times> string) option" where
  "scan_int s = (case s of [] \<Rightarrow> None | c # r \<Rightarrow> if c = CHR ''0'' then Some ([c], r) else scan_digits s)"

definition scan_frac :: "string \<Rightarrow> (string \<times> string) option" where
  "scan_frac s = (case s of c # r \<Rightarrow> if c = CHR ''.'' then map_option (\<lambda>(d, q). (c # d, q)) (scan_digits r) else Some ([], s) | [] \<Rightarrow> Some ([], s))"

definition scan_exp :: "string \<Rightarrow> (string \<times> string) option" where
  "scan_exp s = (case s of c # r \<Rightarrow>
       if c = CHR ''e'' \<or> c = CHR ''E'' then
         (case r of g # r' \<Rightarrow>
            if g = CHR ''+'' \<or> g = CHR ''-'' then map_option (\<lambda>(d, q). (c # g # d, q)) (scan_digits r')
            else map_option (\<lambda>(d, q). (c # d, q)) (scan_digits r)
          | [] \<Rightarrow> None)
       else Some ([], s)
     | [] \<Rightarrow> Some ([], s))"

definition scan_number :: "string \<Rightarrow> (string \<times> string) option" where
  "scan_number s =
     (let (sign, s) = (case s of c # r \<Rightarrow> if c = CHR ''-'' then ([c], r) else ([], s) | [] \<Rightarrow> ([], s))
      in do { (i, s) \<leftarrow> scan_int s; (f, s) \<leftarrow> scan_frac s; (e, s) \<leftarrow> scan_exp s; Some (sign @ i @ f @ e, s) })"

definition scan_literal :: "string \<Rightarrow> json \<Rightarrow> string \<Rightarrow> (json \<times> string) option" where
  "scan_literal word v s = map_option (\<lambda>r. (v, r)) (strings_CutPrefix s word)"

text \<open>
  A value, the members of an object and the elements of an array. The depth of nesting is limited to
  10000 as in the scanner; the first argument is fuel, and one unit per byte is enough
  (\<open>jvalue_fuel\<close>).
\<close>

fun jvalue :: "nat \<Rightarrow> nat \<Rightarrow> string \<Rightarrow> (json \<times> string) option"
and jmembers :: "nat \<Rightarrow> nat \<Rightarrow> string \<Rightarrow> ((string \<times> json) list \<times> string) option"
and jelems :: "nat \<Rightarrow> nat \<Rightarrow> string \<Rightarrow> (json list \<times> string) option" where
  "jvalue 0 d s = None"
| "jvalue (Suc n) d s =
     (case skip_ws s of [] \<Rightarrow> None
      | c # r \<Rightarrow>
          if c = CHR 0x7B then
            (if 10000 \<le> d then None
             else case skip_ws r of [] \<Rightarrow> None
                  | c' # r' \<Rightarrow> if c' = CHR 0x7D then Some (JObj [], r')
                               else map_option (\<lambda>(ms, q). (JObj ms, q)) (jmembers n (d + 1) r))
          else if c = CHR 0x5B then
            (if 10000 \<le> d then None
             else case skip_ws r of [] \<Rightarrow> None
                  | c' # r' \<Rightarrow> if c' = CHR 0x5D then Some (JArr [], r')
                               else map_option (\<lambda>(vs, q). (JArr vs, q)) (jelems n (d + 1) r))
          else if c = CHR 0x22 then map_option (\<lambda>(t, q). (JStr t, q)) (unquote r)
          else if c = CHR ''n'' then scan_literal ''null'' JNull (c # r)
          else if c = CHR ''t'' then scan_literal ''true'' (JBool True) (c # r)
          else if c = CHR ''f'' then scan_literal ''false'' (JBool False) (c # r)
          else map_option (\<lambda>(t, q). (JNum t, q)) (scan_number (c # r)))"
| "jmembers 0 d s = None"
| "jmembers (Suc n) d s =
     (case skip_ws s of [] \<Rightarrow> None
      | c # r \<Rightarrow>
          if c \<noteq> CHR 0x22 then None
          else (case unquote r of None \<Rightarrow> None
                | Some (k, r1) \<Rightarrow>
                   (case skip_ws r1 of [] \<Rightarrow> None
                    | c1 # r2 \<Rightarrow>
                       if c1 \<noteq> CHR '':'' then None
                       else (case jvalue n d r2 of None \<Rightarrow> None
                             | Some (v, r3) \<Rightarrow>
                                (case skip_ws r3 of [] \<Rightarrow> None
                                 | c3 # r4 \<Rightarrow>
                                    if c3 = CHR 0x7D then Some ([(k, v)], r4)
                                    else if c3 = CHR '','' then map_option (\<lambda>(ms, q). ((k, v) # ms, q)) (jmembers n d r4)
                                    else None)))))"
| "jelems 0 d s = None"
| "jelems (Suc n) d s =
     (case jvalue n d s of None \<Rightarrow> None
      | Some (v, r3) \<Rightarrow>
         (case skip_ws r3 of [] \<Rightarrow> None
          | c3 # r4 \<Rightarrow>
             if c3 = CHR 0x5D then Some ([v], r4)
             else if c3 = CHR '','' then map_option (\<lambda>(vs, q). (v # vs, q)) (jelems n d r4)
             else None))"

text \<open>One value from the head of the input, as \<open>Decoder.Decode\<close> reads it.\<close>

definition json_decode :: "string \<Rightarrow> (json \<times> string) option" where
  "json_decode s = jvalue (2 * length s + 1) 0 s"

text \<open>A whole document, as \<open>Unmarshal\<close> reads it.\<close>

definition json_document :: "string \<Rightarrow> json option" where
  "json_document s = (case json_decode s of None \<Rightarrow> None | Some (v, r) \<Rightarrow> if list_all is_ws r then Some v else None)"

section \<open>The fuel is enough\<close>

lemma unquote_length: "unquote s = Some (t, q) \<Longrightarrow> length q < length s"
proof (induction s arbitrary: t q rule: unquote.induct)
  case (1 s)
  show ?case
  proof (cases s)
    case Nil
    then show ?thesis using "1.prems" by (simp add: unquote.simps)
  next
    case (Cons c r)
    consider "c = CHR 0x22" | "c = CHR 0x5C" | "c \<noteq> CHR 0x22" "c \<noteq> CHR 0x5C" "\<not> byte c < 32"
      using "1.prems" Cons by (subst (asm) unquote.simps) (auto split: if_splits)
    then show ?thesis
    proof cases
      case 1
      then show ?thesis using "1.prems" Cons by (subst (asm) unquote.simps) simp
    next
      case 2
      then obtain e r' where r: "r = e # r'" using "1.prems" Cons by (cases r) (auto simp: unquote.simps)
      show ?thesis
      proof (cases "e = CHR ''u''")
        case True
        then obtain u r'' t' where u: "unescape_u r' = Some (u, r'')" "unquote r'' = Some (t', q)"
          using "1.prems" Cons r 2 by (subst (asm) unquote.simps) (auto split: option.splits)
        have "length q < length r''" by (rule "1.IH"(1) [OF Cons _ 2 r True u(1) refl u(2)]) (simp add: 2)
        then show ?thesis using unescape_u_length [OF u(1)] Cons r by simp
      next
        case False
        then obtain x t' where u: "unescape_char e = Some x" "unquote r' = Some (t', q)"
          using "1.prems" Cons r 2 by (subst (asm) unquote.simps) (auto split: option.splits)
        have "length q < length r'" by (rule "1.IH"(2) [OF Cons _ 2 r False u]) (simp add: 2)
        then show ?thesis using Cons r by simp
      qed
    next
      case 3
      show ?thesis
      proof (cases "utf8_len s = 0")
        case True
        then obtain t' where u: "unquote r = Some (t', q)"
          using "1.prems" Cons 3 by (subst (asm) unquote.simps) (auto simp: Let_def)
        have "length q < length r" by (rule "1.IH"(3) [OF Cons 3 refl True u])
        then show ?thesis using Cons by simp
      next
        case False
        then obtain t' where u: "unquote (drop (utf8_len s - 1) r) = Some (t', q)"
          using "1.prems" Cons 3 by (subst (asm) unquote.simps) (auto simp: Let_def)
        have "length q < length (drop (utf8_len s - 1) r)" by (rule "1.IH"(4) [OF Cons 3 refl False u])
        then show ?thesis using Cons by simp
      qed
    qed
  qed
qed

lemma scan_length:
  "scan_digits s = Some (t, q) \<Longrightarrow> length q < length s"
  "scan_int s = Some (t, q) \<Longrightarrow> length q < length s"
  "scan_frac s = Some (t, q) \<Longrightarrow> length q \<le> length s"
  "scan_exp s = Some (t, q) \<Longrightarrow> length q \<le> length s"
proof -
  show digits: "scan_digits s = Some (t, q) \<Longrightarrow> length q < length s" for s t
    by (cases s) (auto simp: scan_digits_def le_imp_less_Suc length_dropWhile_le split: if_splits)
  show "scan_int s = Some (t, q) \<Longrightarrow> length q < length s"
    by (auto simp: scan_int_def dest: digits split: list.splits if_splits)
  show "scan_frac s = Some (t, q) \<Longrightarrow> length q \<le> length s"
    by (fastforce simp: scan_frac_def dest: digits split: list.splits if_splits)
  show "scan_exp s = Some (t, q) \<Longrightarrow> length q \<le> length s"
    by (fastforce simp: scan_exp_def dest: digits split: list.splits if_splits)
qed

lemma scan_number_length: "scan_number s = Some (t, q) \<Longrightarrow> length q < length s"
  by (fastforce simp: scan_number_def bind_eq_Some_conv dest!: scan_length split: list.splits if_splits)

lemma scan_literal_length: "scan_literal w v s = Some (x, q) \<Longrightarrow> w \<noteq> [] \<Longrightarrow> length q < length s"
  by (auto simp: scan_literal_def CutPrefix_iff)

lemma skip_ws_Cons: "skip_ws s = c # r \<Longrightarrow> length r < length s"
  using length_dropWhile_le [of is_ws s] by simp

text \<open>More fuel does not change a result, and twice the length of the input is enough for any.\<close>

lemma jvalue_fuel:
  "jvalue n d s = Some (v, r) \<Longrightarrow> length r < length s \<and> (\<forall>m. 2 * length s + 1 \<le> m \<longrightarrow> jvalue m d s = Some (v, r))"
  "jmembers n d s = Some (ms, r) \<Longrightarrow> length r < length s \<and> (\<forall>m. 2 * length s + 1 \<le> m \<longrightarrow> jmembers m d s = Some (ms, r))"
  "jelems n d s = Some (vs, r) \<Longrightarrow> length r < length s \<and> (\<forall>m. 2 * length s + 2 \<le> m \<longrightarrow> jelems m d s = Some (vs, r))"
proof (induction n d s and n d s and n d s arbitrary: v r and ms r and vs r rule: jvalue_jmembers_jelems.induct)
  case (2 n d s)
  obtain c u where cu: "skip_ws s = c # u" using "2.prems" by (cases "skip_ws s") auto
  note lu = skip_ws_Cons [OF cu]
  have m: "\<exists>m'. m = Suc m' \<and> 2 * length u + 2 \<le> m'" if "Suc (2 * length s) \<le> m" for m
    using that lu by (intro exI [of _ "m - 1"]) auto
  consider (obj) "c = CHR 0x7B" | (arr) "c = CHR 0x5B" | (atom) "c \<noteq> CHR 0x7B" "c \<noteq> CHR 0x5B" by blast
  then show ?case
  proof cases
    case obj
    then obtain c' r' where r': "skip_ws u = c' # r'" "\<not> 10000 \<le> d" using "2.prems" cu by (auto split: list.splits if_splits)
    show ?thesis
    proof (cases "c' = CHR 0x7D")
      case True
      then show ?thesis using "2.prems" cu obj r' lu skip_ws_Cons [OF r'(1)] by (auto dest!: m)
    next
      case False
      then obtain ms where ms: "jmembers n (d + 1) u = Some (ms, r)" "v = JObj ms" using "2.prems" cu obj r' by auto
      then have "length r < length u \<and> (\<forall>m. 2 * length u + 1 \<le> m \<longrightarrow> jmembers m (d + 1) u = Some (ms, r))"
        using "2.IH"(1) [OF cu obj r'(2,1) False] by blast
      then show ?thesis using cu obj r' False lu ms(2) by (auto dest!: m)
    qed
  next
    case arr
    then obtain c' r' where r': "skip_ws u = c' # r'" "\<not> 10000 \<le> d" using "2.prems" cu by (auto split: list.splits if_splits)
    show ?thesis
    proof (cases "c' = CHR 0x5D")
      case True
      then show ?thesis using "2.prems" cu arr r' lu skip_ws_Cons [OF r'(1)] by (auto dest!: m)
    next
      case False
      have nc: "c \<noteq> CHR 0x7B" using arr by simp
      from False obtain vs where vs: "jelems n (d + 1) u = Some (vs, r)" "v = JArr vs" using "2.prems" cu arr r' by auto
      then have "length r < length u \<and> (\<forall>m. 2 * length u + 2 \<le> m \<longrightarrow> jelems m (d + 1) u = Some (vs, r))"
        using "2.IH"(2) [OF cu nc arr r'(2,1) False] by blast
      then show ?thesis using cu arr r' False lu vs(2) by (auto dest!: m)
    qed
  next
    case atom
    have "length r < length (c # u)"
      using "2.prems" cu atom by (auto dest!: unquote_length scan_number_length scan_literal_length split: if_splits)
    moreover have "length (c # u) \<le> length s" using cu lu by simp
    ultimately show ?thesis using "2.prems" cu atom by (auto dest!: m)
  qed
next
  case (4 n d s)
  obtain c u where cu: "skip_ws s = c # u" "c = CHR 0x22" using "4.prems" by (auto split: list.splits if_splits)
  obtain k r1 where k: "unquote u = Some (k, r1)" using "4.prems" cu by (auto split: option.splits)
  obtain r2 where r2: "skip_ws r1 = CHR '':'' # r2" using "4.prems" cu k by (auto split: list.splits if_splits)
  obtain v r3 where v: "jvalue n d r2 = Some (v, r3)" using "4.prems" cu k r2 by (auto split: option.splits)
  obtain c3 r4 where r4: "skip_ws r3 = c3 # r4" using "4.prems" cu k r2 v by (auto split: list.splits)
  have ih: "length r3 < length r2 \<and> (\<forall>m. 2 * length r2 + 1 \<le> m \<longrightarrow> jvalue m d r2 = Some (v, r3))"
    using "4.IH"(1) [OF cu(1) _ k refl r2 _ v] cu(2) by simp
  note len = skip_ws_Cons [OF cu(1)] unquote_length [OF k] skip_ws_Cons [OF r2] skip_ws_Cons [OF r4]
  have m: "\<exists>m'. m = Suc m' \<and> 2 * length r2 + 1 \<le> m'" if "Suc (2 * length s) \<le> m" for m
    using that len by (intro exI [of _ "m - 1"]) auto
  show ?case
  proof (cases "c3 = CHR 0x7D")
    case True
    then show ?thesis using "4.prems" cu k r2 v r4 ih len by (auto dest!: m)
  next
    case False
    then obtain ms' where c3: "c3 = CHR '',''" and ms: "jmembers n d r4 = Some (ms', r)" "ms = (k, v) # ms'"
      using "4.prems" cu k r2 v r4 by (auto split: if_splits)
    have "length r < length r4 \<and> (\<forall>m. 2 * length r4 + 1 \<le> m \<longrightarrow> jmembers m d r4 = Some (ms', r))"
      using "4.IH"(2) [OF cu(1) _ k refl r2 _ v refl r4 False c3 ms(1)] cu(2) by simp
    then show ?thesis using cu k r2 v r4 ih len False c3 ms(2) by (auto dest!: m)
  qed
next
  case (6 n d s)
  obtain v r3 where v: "jvalue n d s = Some (v, r3)" using "6.prems" by (auto split: option.splits)
  obtain c3 r4 where r4: "skip_ws r3 = c3 # r4" using "6.prems" v by (auto split: list.splits)
  have ih: "length r3 < length s \<and> (\<forall>m. 2 * length s + 1 \<le> m \<longrightarrow> jvalue m d s = Some (v, r3))"
    using "6.IH"(1) [OF v] .
  note len = skip_ws_Cons [OF r4]
  have m: "\<exists>m'. m = Suc m' \<and> 2 * length s + 1 \<le> m'" if "Suc (Suc (2 * length s)) \<le> m" for m
    using that by (intro exI [of _ "m - 1"]) auto
  show ?case
  proof (cases "c3 = CHR 0x5D")
    case True
    then show ?thesis using "6.prems" v r4 ih len by (auto dest!: m)
  next
    case False
    then obtain vs' where c3: "c3 = CHR '',''" and vs: "jelems n d r4 = Some (vs', r)" "vs = v # vs'"
      using "6.prems" v r4 by (auto split: if_splits)
    have "length r < length r4 \<and> (\<forall>m. 2 * length r4 + 2 \<le> m \<longrightarrow> jelems m d r4 = Some (vs', r))"
      using "6.IH"(2) [OF v refl r4 False c3 vs(1)] .
    then show ?thesis using v r4 ih len False c3 vs(2) by (auto dest!: m)
  qed
qed simp_all

lemma jvalue_more:
  assumes "jvalue n d s = Some (v, r)" "2 * length s + 1 \<le> m"
  shows "jvalue m d s = Some (v, r)"
  using jvalue_fuel(1) [OF assms(1)] assms(2) by (simp del: jvalue.simps)

lemma jmembers_more:
  assumes "jmembers n d s = Some (ms, r)" "2 * length s + 1 \<le> m"
  shows "jmembers m d s = Some (ms, r)"
  using jvalue_fuel(2) [OF assms(1)] assms(2) by (simp del: jmembers.simps)

section \<open>What is printed is read back\<close>

function valid_utf8 :: "string \<Rightarrow> bool" where
  "valid_utf8 s \<longleftrightarrow> (if s = [] then True else if utf8_len s = 0 then False else valid_utf8 (drop (utf8_len s) s))"
  by pat_completeness auto
termination
  by (relation "measure length") auto

declare valid_utf8.simps [simp del]

definition is_ascii :: "string \<Rightarrow> bool" where
  "is_ascii s \<longleftrightarrow> list_all (\<lambda>c. byte c < 128) s"

lemma utf8_len_le: "utf8_len s \<le> length s"
  by (cases s) (auto simp: utf8_len.simps(2) split: list.splits)

lemma utf8_len_ascii: "byte c < 128 \<Longrightarrow> utf8_len (c # s) = 1"
  by (simp add: utf8_len.simps(2))

lemma utf8_len_take: "utf8_len s \<noteq> 0 \<Longrightarrow> utf8_len (take (utf8_len s) s @ t) = utf8_len s"
proof (cases s)
  case (Cons a r)
  then show "utf8_len s \<noteq> 0 \<Longrightarrow> utf8_len (take (utf8_len s) s @ t) = utf8_len s"
    by (simp add: utf8_len.simps(2) split: list.splits if_split_asm)
qed simp

lemma valid_utf8_Nil [simp]: "valid_utf8 []"
  by (simp add: valid_utf8.simps)

lemma valid_utf8_ascii: "is_ascii s \<Longrightarrow> valid_utf8 s"
  by (induction s) (auto simp: is_ascii_def valid_utf8.simps [of "_ # _"] utf8_len_ascii)

lemma hex_digit_val: "n < 16 \<Longrightarrow> hex_val (hex_digit n) = Some n"
  by (auto simp: hex_val_def hex_digit_def is_digit_def)

lemma unquote_plain:
  assumes "32 \<le> byte c" "c \<noteq> CHR 0x22" "c \<noteq> CHR 0x5C" "byte c < 128"
  shows "unquote (c # w) = map_option (\<lambda>(u, q). (c # u, q)) (unquote w)"
  using assms utf8_len_ascii [of c w] by (subst unquote.simps) (simp add: Let_def)

lemma unquote_escape: "unescape_char e = Some x \<Longrightarrow> unquote (CHR 0x5C # e # w) = map_option (\<lambda>(u, q). (x # u, q)) (unquote w)"
  by (subst unquote.simps) (auto simp: unescape_char_def split: if_splits)

lemma unquote_u: "unescape_u w = Some (t, r) \<Longrightarrow> unquote (CHR 0x5C # CHR ''u'' # w) = map_option (\<lambda>(u, q). (t @ u, q)) (unquote r)"
  by (subst unquote.simps) simp

lemma unescape_u_00:
  assumes "byte c < 128"
  shows "unescape_u (CHR ''0'' # CHR ''0'' # hex_digit (byte c div 16) # hex_digit (byte c mod 16) # w) = Some ([c], w)"
proof -
  have "getu4 (CHR ''0'' # CHR ''0'' # hex_digit (byte c div 16) # hex_digit (byte c mod 16) # w) = Some (byte c, w)"
    using assms by (simp add: getu4_def hex_digit_val) (simp add: hex_val_def is_digit_def)
  then show ?thesis using assms by (simp add: unescape_u_def utf8_encode_def)
qed

lemma unquote_escape_ascii:
  assumes "byte c < 128"
  shows "unquote (escape_ascii c @ w) = map_option (\<lambda>(u, q). (c # u, q)) (unquote w)"
proof -
  show ?thesis
  proof (cases "byte c < 32 \<or> c = CHR ''<'' \<or> c = CHR ''>'' \<or> c = CHR ''&''")
    case True
    then show ?thesis
      using unquote_u [OF unescape_u_00 [OF assms, of w]]
      by (auto simp: escape_ascii_def unquote_escape unescape_char_def)
  next
    case False
    then show ?thesis
      using assms by (auto simp: escape_ascii_def unquote_escape unescape_char_def intro: unquote_plain)
  qed
qed

lemma unquote_line_separators:
  "unquote (CHR 0x5C # CHR ''u'' # CHR ''2'' # CHR ''0'' # CHR ''2'' # CHR ''8'' # w) = map_option (\<lambda>(u, q). ([CHR 0xE2, CHR 0x80, CHR 0xA8] @ u, q)) (unquote w)"
  "unquote (CHR 0x5C # CHR ''u'' # CHR ''2'' # CHR ''0'' # CHR ''2'' # CHR ''9'' # w) = map_option (\<lambda>(u, q). ([CHR 0xE2, CHR 0x80, CHR 0xA9] @ u, q)) (unquote w)"
  by (rule unquote_u; simp add: unescape_u_def getu4_def hex_val_def is_digit_def utf8_encode_def Let_def char_of_def bit_iff_odd)+

lemma unquote_multibyte:
  assumes "\<not> byte c < 128" "n = utf8_len (c # t)" "n \<noteq> 0"
  shows "unquote (take n (c # t) @ w) = map_option (\<lambda>(u, q). (take n (c # t) @ u, q)) (unquote w)"
proof -
  obtain n' where n': "n = Suc n'" using assms(3) by (cases n) auto
  have len: "length (take n (c # t)) = n" using utf8_len_le [of "c # t"] assms(2) by simp
  have "utf8_len (take n (c # t) @ w) = n" using utf8_len_take [of "c # t" w] assms(2,3) by simp
  moreover have "c \<noteq> CHR 0x22" "c \<noteq> CHR 0x5C" "\<not> byte c < 32" using assms(1) by auto
  ultimately show ?thesis
    using n' len assms(3) by (subst unquote.simps) (simp add: Let_def)
qed

lemma unquote_quote_body: "valid_utf8 s \<Longrightarrow> unquote (quote_body s @ CHR 0x22 # r) = Some (s, r)"
proof (induction s rule: quote_body.induct)
  case (1 s)
  show ?case
  proof (cases s)
    case Nil
    then show ?thesis by (simp add: quote_body.simps unquote.simps)
  next
    case (Cons c t)
    define n where "n = utf8_len s"
    have n: "n \<noteq> 0" "valid_utf8 (drop n s)" using "1.prems" Cons by (auto simp: n_def valid_utf8.simps [of "c # t"] split: if_splits)
    show ?thesis
    proof (cases "byte c < 128")
      case True
      then have "n = 1" using Cons by (simp add: n_def utf8_len_ascii)
      then have "unquote (quote_body t @ CHR 0x22 # r) = Some (t, r)" using "1.IH"(1) [OF Cons True] n(2) Cons by simp
      then show ?thesis using True Cons by (subst quote_body.simps) (simp add: unquote_escape_ascii)
    next
      case False
      show ?thesis
      proof (cases "take 3 s = [CHR 0xE2, CHR 0x80, CHR 0xA8] \<or> take 3 s = [CHR 0xE2, CHR 0x80, CHR 0xA9]")
        case True
        then obtain d where t: "t = CHR 0x80 # d # drop 2 t" "c = CHR 0xE2" "d = CHR 0xA8 \<or> d = CHR 0xA9"
          using Cons by (cases t; cases "tl t") auto
        have "utf8_len (c # CHR 0x80 # d # drop 2 t) = 3"
          using t(2,3) by (auto simp: utf8_len.simps(2) utf8_cont_def utf8_seq2_def utf8_seq3_def)
        then have s: "s = take 3 s @ drop 2 t" "n = 3" using Cons t(1) by (simp_all add: n_def)
        then have "unquote (quote_body (drop 2 t) @ CHR 0x22 # r) = Some (drop 2 t, r)"
          using "1.IH"(3) [OF Cons False refl _ True] n Cons n_def by simp
        moreover have "quote_body s = [CHR 0x5C, CHR ''u'', CHR ''2'', CHR ''0'', CHR ''2'', hex_digit (byte (s ! 2) mod 16)] @ quote_body (drop 2 t)"
          using False True n Cons n_def by (subst quote_body.simps) (simp add: Let_def)
        moreover have "s = c # CHR 0x80 # d # drop 2 t" using Cons t(1) by simp
        then have "s ! 2 = d" "s = [CHR 0xE2, CHR 0x80, d] @ drop 2 t" using t(2) by simp_all
        moreover have "hex_digit (byte d mod 16) = (if d = CHR 0xA8 then CHR ''8'' else CHR ''9'')"
          using t(3) by (auto simp: hex_digit_def char_of_def bit_iff_odd)
        ultimately show ?thesis using t(3) by (elim disjE) (simp_all add: unquote_line_separators)
      next
        case F: False
        have "drop (n - 1) t = drop n s" using Cons n by (cases n) auto
        then have "unquote (quote_body (drop (n - 1) t) @ CHR 0x22 # r) = Some (drop n s, r)"
          using "1.IH"(4) [OF Cons False refl _ F] n n_def by simp
        moreover have "quote_body s = take n s @ quote_body (drop (n - 1) t)"
          using False F n Cons n_def by (subst quote_body.simps) (auto simp: Let_def)
        ultimately show ?thesis
          using unquote_multibyte [OF False, of n t] n n_def Cons by simp
      qed
    qed
  qed
qed

text \<open>Integers.\<close>

lemma FormatUint_hd_zero: "hd (FormatUint n) = CHR ''0'' \<Longrightarrow> n = 0"
proof (induction n rule: FormatUint.induct)
  case (1 n)
  show ?case
  proof (cases "n < 10")
    case True
    then have "digit_val (digit_char n) = digit_val (CHR ''0'')" using "1.prems" by (simp add: FormatUint.simps)
    then show ?thesis using True by (simp add: digit_val_def [of "CHR ''0''"])
  next
    case False
    then have "hd (FormatUint (n div 10)) = CHR ''0''" using "1.prems" by (subst (asm) FormatUint.simps) simp
    then show ?thesis using "1.IH" False by simp
  qed
qed

lemma scan_int_FormatUint:
  assumes "c = CHR '','' \<or> c = CHR 0x7D"
  shows "scan_int (FormatUint n @ c # r) = Some (FormatUint n, c # r)"
proof -
  have c: "\<not> is_digit c" using assms by (auto simp: is_digit_def)
  obtain d ds where F: "FormatUint n = d # ds" by (meson FormatUint_nonempty neq_Nil_conv)
  show ?thesis
  proof (cases "d = CHR ''0''")
    case True
    then have "n = 0" using FormatUint_hd_zero [of n] F by simp
    then show ?thesis by (simp add: FormatUint.simps scan_int_def)
  next
    case False
    have "takeWhile is_digit (FormatUint n @ c # r) = FormatUint n" "dropWhile is_digit (FormatUint n @ c # r) = c # r"
      using FormatUint_digits [of n] c by (simp_all add: list_all_iff takeWhile_append dropWhile_append)
    then show ?thesis using False F by (simp add: scan_int_def scan_digits_def)
  qed
qed

lemma scan_number_Itoa:
  assumes "c = CHR '','' \<or> c = CHR 0x7D"
  shows "scan_number (Itoa k @ c # r) = Some (Itoa k, c # r)"
proof -
  have "scan_frac (c # r) = Some ([], c # r)" "scan_exp (c # r) = Some ([], c # r)"
    using assms by (auto simp: scan_frac_def scan_exp_def)
  note tail = scan_int_FormatUint [OF assms] this
  show ?thesis
  proof (cases "k < 0")
    case True
    then show ?thesis by (simp add: scan_number_def Itoa_def tail)
  next
    case False
    obtain d ds where F: "FormatUint (nat k) = d # ds" by (meson FormatUint_nonempty neq_Nil_conv)
    then have "d \<noteq> CHR ''-''" using FormatUint_hd [of "nat k"] by simp
    then show ?thesis using False F tail(1) [of "nat k" r] tail(2,3) by (simp add: scan_number_def Itoa_def)
  qed
qed

text \<open>A rendered value: read back at depth \<open>d\<close> in front of a comma or a closing brace.\<close>

definition renders :: "nat \<Rightarrow> string \<Rightarrow> json \<Rightarrow> bool" where
  "renders d t v \<longleftrightarrow> (\<forall>c r. (c = CHR '','' \<or> c = CHR 0x7D) \<longrightarrow> (\<exists>n. jvalue n d (t @ c # r) = Some (v, c # r)))"

lemma renders_string: "valid_utf8 s \<Longrightarrow> renders d (json_quote s) (JStr s)"
proof -
  assume v: "valid_utf8 s"
  have "jvalue (Suc 0) d (json_quote s @ r) = Some (JStr s, r)" for r
    by (simp add: json_quote_def is_ws_def unquote_quote_body [OF v])
  then show ?thesis unfolding renders_def by blast
qed

lemma jvalue_number:
  assumes "c = CHR ''-'' \<or> is_digit c"
  shows "jvalue (Suc n) d (c # r) = map_option (\<lambda>(t, q). (JNum t, q)) (scan_number (c # r))"
proof -
  have "c \<noteq> CHR 0x7B" "c \<noteq> CHR 0x5B" "c \<noteq> CHR 0x22" "c \<noteq> CHR ''n''" "c \<noteq> CHR ''t''" "c \<noteq> CHR ''f''" "\<not> is_ws c"
    using assms by (auto simp: is_digit_def is_ws_def)
  then show ?thesis by simp
qed

lemma renders_int: "renders d (Itoa k) (JNum (Itoa k))"
proof -
  obtain c ds where F: "Itoa k = c # ds" "c = CHR ''-'' \<or> is_digit c"
  proof (cases "k < 0")
    case True
    then show thesis using that [of "CHR ''-''"] by (simp add: Itoa_def)
  next
    case False
    obtain d ds where "FormatUint (nat k) = d # ds" by (meson FormatUint_nonempty neq_Nil_conv)
    then show thesis using that [of d ds] False FormatUint_digits [of "nat k"] by (simp add: Itoa_def)
  qed
  have "jvalue (Suc 0) d (Itoa k @ c' # r) = Some (JNum (Itoa k), c' # r)" if "c' = CHR '','' \<or> c' = CHR 0x7D" for c' r
    using scan_number_Itoa [OF that, of k r] jvalue_number [OF F(2), of 0 d "ds @ c' # r"] F(1) by simp
  then show ?thesis unfolding renders_def by blast
qed

text \<open>\<open>Marshal\<close> of an object whose member values are already rendered.\<close>

definition json_member :: "string \<times> string \<Rightarrow> string" where
  "json_member m = json_quote (fst m) @ '':'' @ snd m"

definition json_object :: "(string \<times> string) list \<Rightarrow> string" where
  "json_object ms = CHR 0x7B # strings_Join (map json_member ms) (CHR '','') @ [CHR 0x7D]"

definition renders_members :: "nat \<Rightarrow> (string \<times> string) list \<Rightarrow> (string \<times> json) list \<Rightarrow> bool" where
  "renders_members d ms vs \<longleftrightarrow> list_all2 (\<lambda>(k, t) (k', v). k' = k \<and> valid_utf8 k \<and> renders d t v) ms vs"

lemma jmembers_step:
  assumes k: "valid_utf8 k" and v: "renders d t v" and c: "c = CHR '','' \<or> c = CHR 0x7D"
    and rest: "c = CHR '','' \<longrightarrow> (\<exists>n. jmembers n d r = Some (ms, q))" "c = CHR 0x7D \<longrightarrow> ms = [] \<and> q = r"
  shows "\<exists>n. jmembers n d (json_member (k, t) @ c # r) = Some ((k, v) # ms, q)"
proof -
  have "\<exists>n. jvalue n d (t @ c # r) = Some (v, c # r)" using v [unfolded renders_def, rule_format, OF c] .
  then obtain n1 where n1: "jvalue n1 d (t @ c # r) = Some (v, c # r)" by (elim exE)
  define m where "m = 2 * length (t @ c # r) + 1"
  have vm: "jvalue m d (t @ c # r) = Some (v, c # r)" by (rule jvalue_more [OF n1]) (simp add: m_def)
  have r1: "jmembers m d r = Some (ms, q)" if comma: "c = CHR '',''"
  proof -
    obtain n2 where n2: "jmembers n2 d r = Some (ms, q)" using rest(1) comma by auto
    show ?thesis by (rule jmembers_more [OF n2]) (simp add: m_def)
  qed
  have "json_member (k, t) @ c # r = CHR 0x22 # quote_body k @ CHR 0x22 # CHR '':'' # t @ c # r"
    by (simp add: json_member_def json_quote_def)
  moreover have "jmembers (Suc m) d (CHR 0x22 # quote_body k @ CHR 0x22 # CHR '':'' # t @ c # r) = Some ((k, v) # ms, q)"
    using c
  proof
    assume "c = CHR '',''"
    then show ?thesis using vm r1 by (simp add: is_ws_def unquote_quote_body [OF k])
  next
    assume "c = CHR 0x7D"
    then show ?thesis using vm rest(2) by (simp add: is_ws_def unquote_quote_body [OF k])
  qed
  ultimately show ?thesis by metis
qed

lemma jmembers_join:
  assumes "renders_members d ms vs" "ms \<noteq> []"
  shows "\<exists>n. jmembers n d (strings_Join (map json_member ms) (CHR '','') @ CHR 0x7D # r) = Some (vs, r)"
  using assms
proof (induction ms arbitrary: vs)
  case (Cons m ms)
  obtain k t where m: "m = (k, t)" by fastforce
  obtain v vs' where vs: "vs = (k, v) # vs'" "valid_utf8 k" "renders d t v" "renders_members d ms vs'"
    using Cons.prems(1) by (auto simp: renders_members_def m list_all2_Cons1)
  show ?case
  proof (cases ms)
    case Nil
    then show ?thesis using jmembers_step [OF vs(2,3), of "CHR 0x7D" r "[]" r] vs(1,4) by (simp add: m renders_members_def)
  next
    case (Cons m' ms')
    have "\<exists>n. jmembers n d (strings_Join (map json_member ms) (CHR '','') @ CHR 0x7D # r) = Some (vs', r)"
      using Cons.IH [OF vs(4)] Cons by simp
    then show ?thesis using jmembers_step [OF vs(2,3), of "CHR '',''" _ vs' r] by (simp add: m Cons vs(1))
  qed
qed simp

lemma json_object_read:
  assumes "renders_members (d + 1) ms vs" "ms \<noteq> []" "d < 10000"
  shows "\<exists>n. jvalue n d (json_object ms @ r) = Some (JObj vs, r)"
proof -
  obtain n where n: "jmembers n (d + 1) (strings_Join (map json_member ms) (CHR '','') @ CHR 0x7D # r) = Some (vs, r)"
    using jmembers_join [OF assms(1,2)] by blast
  obtain k t ms' where ms: "ms = (k, t) # ms'" using assms(2) by (cases ms) auto
  obtain u where "strings_Join (map json_member ms) (CHR '','') = CHR 0x22 # u"
    by (cases ms') (auto simp: ms json_member_def json_quote_def)
  with n assms(3) have "jvalue (Suc n) d (json_object ms @ r) = Some (JObj vs, r)"
    by (simp add: json_object_def is_ws_def)
  then show ?thesis by blast
qed

lemma renders_object: "renders_members (d + 1) ms vs \<Longrightarrow> ms \<noteq> [] \<Longrightarrow> d < 10000 \<Longrightarrow> renders d (json_object ms) (JObj vs)"
  unfolding renders_def using json_object_read by blast

lemma json_decode_object:
  assumes "renders_members 1 ms vs" "ms \<noteq> []"
  shows "json_decode (json_object ms) = Some (JObj vs, [])"
proof -
  obtain n where "jvalue n 0 (json_object ms) = Some (JObj vs, [])" using json_object_read [of 0 ms vs "[]"] assms by auto
  then show ?thesis unfolding json_decode_def by (rule jvalue_more) simp
qed

lemma json_document_object: "renders_members 1 ms vs \<Longrightarrow> ms \<noteq> [] \<Longrightarrow> json_document (json_object ms) = Some (JObj vs)"
  by (simp add: json_document_def json_decode_object)

section \<open>Decoding into structs and maps\<close>

text \<open>Upper case, with the two runes outside ASCII that fold to an ASCII letter.\<close>

fun foldName :: "string \<Rightarrow> string" where
  "foldName [] = []"
| "foldName (c # s) =
     (if 97 \<le> byte c \<and> byte c \<le> 122 then char_of (byte c - 32) # foldName s
      else case s of
          d # s' \<Rightarrow>
            if c = CHR 0xC5 \<and> d = CHR 0xBF then CHR ''S'' # foldName s'
            else (case s' of e # s'' \<Rightarrow>
                    if c = CHR 0xE2 \<and> d = CHR 0x84 \<and> e = CHR 0xAA then CHR ''K'' # foldName s'' else c # foldName s
                  | [] \<Rightarrow> c # foldName s)
        | [] \<Rightarrow> c # foldName s)"

text \<open>The field a key selects: the one of that name, else the first that matches under folding.\<close>

definition find_field :: "string list \<Rightarrow> string \<Rightarrow> string option" where
  "find_field names key = (if key \<in> set names then Some key else find (\<lambda>n. foldName n = foldName key) names)"

text \<open>\<open>set f v r\<close> stores a value in a field of the struct; None is a value of the wrong type.\<close>

fun decode_members :: "string list \<Rightarrow> (string \<Rightarrow> json \<Rightarrow> 'r \<Rightarrow> 'r option) \<Rightarrow> (string \<times> json) list \<Rightarrow> 'r \<Rightarrow> 'r option" where
  "decode_members names st [] r = Some r"
| "decode_members names st ((k, v) # ms) r =
     (case find_field names k of
        None \<Rightarrow> decode_members names st ms r
      | Some f \<Rightarrow> if v = JNull then decode_members names st ms r
                  else (case st f v r of None \<Rightarrow> None | Some r' \<Rightarrow> decode_members names st ms r'))"

definition decode_struct :: "string list \<Rightarrow> (string \<Rightarrow> json \<Rightarrow> 'r \<Rightarrow> 'r option) \<Rightarrow> 'r \<Rightarrow> json \<Rightarrow> 'r option" where
  "decode_struct names st r v = (case v of JNull \<Rightarrow> Some r | JObj ms \<Rightarrow> decode_members names st ms r | _ \<Rightarrow> None)"

text \<open>
  A map target, as the association list of its distinct keys: the last of repeated keys wins. None in
  the result is the nil map that \<open>null\<close> produces.
\<close>

fun decode_entries :: "(json \<Rightarrow> 'r option) \<Rightarrow> (string \<times> json) list \<Rightarrow> (string \<times> 'r) list \<Rightarrow> (string \<times> 'r) list option" where
  "decode_entries dec [] m = Some m"
| "decode_entries dec ((k, v) # ms) m = (case dec v of None \<Rightarrow> None | Some x \<Rightarrow> decode_entries dec ms (AList.update k x m))"

definition decode_map :: "(json \<Rightarrow> 'r option) \<Rightarrow> json \<Rightarrow> (string \<times> 'r) list option option" where
  "decode_map dec v = (case v of JNull \<Rightarrow> Some None | JObj ms \<Rightarrow> map_option Some (decode_entries dec ms []) | _ \<Rightarrow> None)"

lemma decode_entries_distinct: "decode_entries dec ms m = Some m' \<Longrightarrow> distinct (map fst m) \<Longrightarrow> distinct (map fst m')"
  by (induction dec ms m arbitrary: m' rule: decode_entries.induct) (auto split: option.splits simp: distinct_update)

lemma decode_map_distinct: "decode_map dec v = Some (Some m) \<Longrightarrow> distinct (map fst m)"
  by (auto simp: decode_map_def dest: decode_entries_distinct split: json.splits)

text \<open>Members with distinct keys, each decoded to its entry, are decoded to the list of entries.\<close>

lemma decode_entries_append:
  assumes "list_all2 (\<lambda>(k, v) (k', x). k' = k \<and> dec v = Some x) ms es" "distinct (map fst es)" "set (map fst m) \<inter> set (map fst es) = {}"
  shows "decode_entries dec ms m = Some (m @ es)"
  using assms
proof (induction ms arbitrary: es m)
  case (Cons kv ms)
  obtain k v where kv: "kv = (k, v)" by fastforce
  obtain x es' where es: "es = (k, x) # es'" "dec v = Some x" "list_all2 (\<lambda>(k, v) (k', x). k' = k \<and> dec v = Some x) ms es'"
    using Cons.prems(1) by (auto simp: kv list_all2_Cons1)
  have "AList.update k x m = m @ [(k, x)]" using Cons.prems(3) es(1) by (induction m) auto
  then show ?case using Cons.IH [OF es(3), of "m @ [(k, x)]"] Cons.prems(2,3) es by (auto simp: kv)
qed simp

definition json_string :: "json \<Rightarrow> string option" where
  "json_string v = (case v of JStr s \<Rightarrow> Some s | _ \<Rightarrow> None)"

text \<open>An integer field of the given width.\<close>

definition json_int :: "nat \<Rightarrow> json \<Rightarrow> int option" where
  "json_int bits v = (case v of JNum t \<Rightarrow>
       (case ParseInt t 64 of Inr k \<Rightarrow> if - (2 ^ (bits - 1)) \<le> k \<and> k < 2 ^ (bits - 1) then Some k else None | Inl _ \<Rightarrow> None)
     | _ \<Rightarrow> None)"

lemma find_field_exact [simp]: "f \<in> set names \<Longrightarrow> find_field names f = Some f"
  by (simp add: find_field_def)

lemma json_int_Itoa: "- (2 ^ (bits - 1)) \<le> k \<Longrightarrow> k < 2 ^ (bits - 1) \<Longrightarrow> bits \<le> 64 \<Longrightarrow> json_int bits (JNum (Itoa k)) = Some k"
proof -
  assume k: "- (2 ^ (bits - 1)) \<le> k" "k < 2 ^ (bits - 1)" "bits \<le> 64"
  have "(2 :: int) ^ (bits - 1) \<le> 2 ^ 63" using k(3) by (intro power_increasing) auto
  then have "is_int64 k" using k(1,2) unfolding is_int64_iff by linarith
  then show ?thesis using Atoi_Itoa [of k] k(1,2) by (simp add: json_int_def Atoi_def)
qed

end
