(* ===== verification/GoTime.thy ===== *)
theory GoTime
  imports GoLib "HOL-Library.Monad_Syntax"
begin

text \<open>
  The part of Go's \<open>time\<close> package that the sources use on wall-clock times: \<open>Parse\<close> with the layouts
  \<open>RFC3339\<close> and \<open>RFC3339Nano\<close> (the same language: a fraction is accepted after the seconds in both),
  and \<open>Format\<close> with \<open>RFC3339Nano\<close>. A time is an instant in nanoseconds since the Unix epoch and the
  offset of its location from UTC in seconds. The calendar is the proleptic Gregorian one.
\<close>

section \<open>Calendar\<close>

definition is_leap :: "int \<Rightarrow> bool" where
  "is_leap y \<longleftrightarrow> y mod 4 = 0 \<and> (y mod 100 \<noteq> 0 \<or> y mod 400 = 0)"

definition month_lengths :: "int \<Rightarrow> int list" where
  "month_lengths y = [31, if is_leap y then 29 else 28, 31, 30, 31, 30, 31, 31, 30, 31, 30, 31]"

definition daysIn :: "nat \<Rightarrow> int \<Rightarrow> int" where
  "daysIn m y = month_lengths y ! (m - 1)"

text \<open>Days from 0001-01-01 to the first day of a year, and from 1970-01-01 to a date.\<close>

definition days_to_year :: "int \<Rightarrow> int" where
  "days_to_year y = 365 * (y - 1) + (y - 1) div 4 - (y - 1) div 100 + (y - 1) div 400"

definition days_of_civil :: "int \<Rightarrow> nat \<Rightarrow> int \<Rightarrow> int" where
  "days_of_civil y m d = days_to_year y + sum_list (take (m - 1) (month_lengths y)) + (d - 1) - 719162"

text \<open>The year of a day count and the day within it, by cycles of 400, 100, 4 and 1 years.\<close>

definition year_of_days :: "int \<Rightarrow> int \<times> int" where
  "year_of_days n =
     (let a = n div 146097; r = n mod 146097;
          b = min 3 (r div 36524); r = r - 36524 * b;
          c = r div 1461; r = r mod 1461;
          e = min 3 (r div 365)
      in (400 * a + 100 * b + 4 * c + e + 1, r - 365 * e))"

fun month_of_yday :: "int list \<Rightarrow> int \<Rightarrow> nat \<Rightarrow> nat \<times> int" where
  "month_of_yday [] yday m = (m, yday + 1)"
| "month_of_yday (n # ns) yday m = (if yday < n then (m, yday + 1) else month_of_yday ns (yday - n) (m + 1))"

definition civil_of_days :: "int \<Rightarrow> int \<times> nat \<times> int" where
  "civil_of_days days = (let (y, yday) = year_of_days (days + 719162); (m, d) = month_of_yday (month_lengths y) yday 1 in (y, m, d))"

lemma year_cycles:
  fixes k :: int
  obtains a b c e where "k = 400 * a + 100 * b + 4 * c + e" "0 \<le> b" "b < 4" "0 \<le> c" "c < 25" "0 \<le> e" "e < 4"
proof
  let ?r = "k mod 400" and ?s = "k mod 400 mod 100"
  show "k = 400 * (k div 400) + 100 * (?r div 100) + 4 * (?s div 4) + ?s mod 4"
    using mult_div_mod_eq [of 400 k] mult_div_mod_eq [of 100 ?r] mult_div_mod_eq [of 4 ?s] by linarith
  show "0 \<le> ?r div 100" "?r div 100 < 4" "0 \<le> ?s div 4" "?s div 4 < 25" "0 \<le> ?s mod 4" "?s mod 4 < 4"
    using pos_mod_bound [of 400 k] pos_mod_sign [of 400 k] pos_mod_bound [of 100 ?r] pos_mod_sign [of 100 ?r]
      pos_mod_bound [of 4 ?s] pos_mod_sign [of 4 ?s] by linarith+
qed

lemma div_cycle:
  "0 \<le> r \<Longrightarrow> r < m \<Longrightarrow> (m * q + r) div m = q" "0 \<le> r \<Longrightarrow> r < m \<Longrightarrow> (m * q + r) mod m = r" for m q r :: int
  by simp_all

lemma year_of_days_to_year:
  assumes "0 \<le> yday" "yday < (if is_leap y then 366 else 365)"
  shows "year_of_days (days_to_year y + yday) = (y, yday)"
proof -
  obtain a b c e where k: "y - 1 = 400 * a + 100 * b + 4 * c + e"
    and bd: "0 \<le> b" "b < 4" "0 \<le> c" "c < 25" "0 \<le> e" "e < 4"
    by (rule year_cycles)
  have q4: "(y - 1) div 4 = 100 * a + 25 * b + c" using div_cycle(1) [of e 4 "100 * a + 25 * b + c"] bd by (simp add: k)
  have q100: "(y - 1) div 100 = 4 * a + b" using div_cycle(1) [of "4 * c + e" 100 "4 * a + b"] bd by (simp add: k)
  have q400: "(y - 1) div 400 = a" using div_cycle(1) [of "100 * b + 4 * c + e" 400 a] bd by (simp add: k)
  have y: "y = 400 * a + 100 * b + 4 * c + e + 1" using k by simp
  have n: "days_to_year y + yday = 146097 * a + (36524 * b + (1461 * c + (365 * e + yday)))"
    unfolding days_to_year_def q4 q100 q400 using k by simp
  have "is_leap y \<Longrightarrow> e = 3 \<and> (c = 24 \<longrightarrow> b = 3)"
  proof -
    assume "is_leap y"
    then have "y mod 4 = 0" "y mod 100 = 0 \<longrightarrow> y mod 400 = 0" by (auto simp: is_leap_def)
    moreover have "y = (e + 1) + (100 * a + 25 * b + c) * 4" using y by simp
    then have "y mod 4 = (e + 1) mod 4" by (simp only: mod_mult_self1)
    moreover have "e = 0 \<or> e = 1 \<or> e = 2 \<or> e = 3" using bd by linarith
    ultimately have e: "e = 3" by auto
    have "b = 3" if "c = 24"
    proof -
      have y': "y = 0 + (4 * a + b + 1) * 100" "y = 100 * (b + 1) + a * 400" using that e y by simp_all
      have "y mod 100 = 0" unfolding y'(1) by simp
      moreover have "y mod 400 = (100 * (b + 1)) mod 400" unfolding y'(2) by (rule mod_mult_self1)
      moreover have "b = 0 \<or> b = 1 \<or> b = 2 \<or> b = 3" using bd by linarith
      ultimately show ?thesis using \<open>y mod 100 = 0 \<longrightarrow> y mod 400 = 0\<close> by auto
    qed
    with e show ?thesis by blast
  qed
  then have last: "365 < e * 0 + yday + 1 \<Longrightarrow> e = 3 \<and> (c = 24 \<longrightarrow> b = 3)" using assms by (auto split: if_splits)
  have r4: "0 \<le> 365 * e + yday" "365 * e + yday < 1461" using assms bd last by (auto split: if_splits)
  have r100: "0 \<le> 1461 * c + (365 * e + yday)" "1461 * c + (365 * e + yday) < 36524 \<or> b = 3 \<and> 1461 * c + (365 * e + yday) = 36524"
    using assms bd last by (auto split: if_splits)
  have r400: "0 \<le> 36524 * b + (1461 * c + (365 * e + yday))" "36524 * b + (1461 * c + (365 * e + yday)) < 146097"
    using r100 bd by auto
  have b: "min 3 ((36524 * b + (1461 * c + (365 * e + yday))) div 36524) = b"
    using r100(2)
  proof
    assume "1461 * c + (365 * e + yday) < 36524"
    then show ?thesis using div_cycle(1) [OF r100(1), of 36524 b] bd by simp
  next
    assume "b = 3 \<and> 1461 * c + (365 * e + yday) = 36524"
    then show ?thesis by simp
  qed
  have e: "min 3 ((365 * e + yday) div 365) = e"
  proof (cases "yday < 365")
    case True
    then show ?thesis using div_cycle(1) [OF assms(1), of 365 e] bd by simp
  next
    case False
    then have "yday = 365" "e = 3" using assms last by (auto split: if_splits)
    then show ?thesis by simp
  qed
  show ?thesis
    unfolding n year_of_days_def Let_def div_cycle [OF r400] b
    using div_cycle [OF r4, of c] e y by simp
qed

lemma month_lengths_eq: "length (month_lengths y) = 12" "sum_list (month_lengths y) = (if is_leap y then 366 else 365)"
  "n \<in> set (month_lengths y) \<Longrightarrow> 0 < n"
  by (auto simp: month_lengths_def)

lemma daysIn_le_31: "1 \<le> m \<Longrightarrow> m \<le> 12 \<Longrightarrow> daysIn m y \<le> 31"
proof -
  assume "1 \<le> m" "m \<le> 12"
  then have "daysIn m y \<in> set (month_lengths y)" unfolding daysIn_def by (intro nth_mem) (simp add: month_lengths_eq)
  then show ?thesis by (auto simp: month_lengths_def split: if_splits)
qed

lemma month_of_yday_take:
  assumes "k < length ns" "\<forall>n \<in> set ns. 0 < n" "0 \<le> d" "d < ns ! k"
  shows "month_of_yday ns (sum_list (take k ns) + d) m = (m + k, d + 1)"
  using assms
proof (induction k arbitrary: ns m)
  case 0
  then show ?case by (cases ns) auto
next
  case (Suc k)
  then obtain n ns' where ns: "ns = n # ns'" by (cases ns) auto
  have "0 \<le> sum_list (take k ns')"
    by (rule sum_list_nonneg) (use Suc.prems(2) in \<open>auto simp: ns dest!: in_set_takeD intro: less_imp_le\<close>)
  then show ?case using Suc.IH [of ns' "m + 1"] Suc.prems by (simp add: ns)
qed

lemma civil_of_days_of_civil:
  assumes "1 \<le> m" "m \<le> 12" "1 \<le> d" "d \<le> daysIn m y"
  shows "civil_of_days (days_of_civil y m d) = (y, m, d)"
proof -
  define yday where "yday = sum_list (take (m - 1) (month_lengths y)) + (d - 1)"
  have k: "m - 1 < length (month_lengths y)" using assms by (simp add: month_lengths_eq)
  have "0 \<le> sum_list (take (m - 1) (month_lengths y))"
    by (rule sum_list_nonneg) (auto dest!: in_set_takeD month_lengths_eq(3))
  then have lo: "0 \<le> yday" using assms by (simp add: yday_def)
  have "sum_list (month_lengths y) = sum_list (take (m - 1) (month_lengths y)) + (month_lengths y ! (m - 1) + sum_list (drop (Suc (m - 1)) (month_lengths y)))"
    by (metis Cons_nth_drop_Suc append_take_drop_id k sum_list.Cons sum_list.append)
  moreover have "0 \<le> sum_list (drop (Suc (m - 1)) (month_lengths y))"
    by (rule sum_list_nonneg) (auto dest!: in_set_dropD month_lengths_eq(3))
  ultimately have hi: "yday < (if is_leap y then 366 else 365)"
    using assms month_lengths_eq(2) [of y] by (simp add: yday_def daysIn_def split: if_splits)
  have "days_of_civil y m d + 719162 = days_to_year y + yday" by (simp add: days_of_civil_def yday_def)
  then have "year_of_days (days_of_civil y m d + 719162) = (y, yday)" using year_of_days_to_year [OF lo hi] by simp
  moreover have "month_of_yday (month_lengths y) yday 1 = (m, d)"
    unfolding yday_def using assms month_lengths_eq(3)
    by (subst month_of_yday_take [OF k]) (auto simp: daysIn_def)
  ultimately show ?thesis by (simp add: civil_of_days_def)
qed

section \<open>Format and Parse\<close>

record gotime =
  gt_ns :: int
  gt_offset :: int

abbreviation second_ns :: int where "second_ns \<equiv> 1000000000"

definition pad_zero :: "nat \<Rightarrow> string \<Rightarrow> string" where
  "pad_zero w s = replicate (w - length s) (CHR ''0'') @ s"

definition appendInt :: "int \<Rightarrow> nat \<Rightarrow> string" where
  "appendInt x w = (if x < 0 then CHR ''-'' # pad_zero w (FormatUint (nat (- x))) else pad_zero w (FormatUint (nat x)))"

definition trim_zeros :: "string \<Rightarrow> string" where
  "trim_zeros s = rev (dropWhile (\<lambda>c. c = CHR ''0'') (rev s))"

definition format_frac :: "int \<Rightarrow> string" where
  "format_frac ns = (if ns = 0 then [] else CHR ''.'' # trim_zeros (pad_zero 9 (FormatUint (nat ns))))"

definition format_zone :: "int \<Rightarrow> string" where
  "format_zone off =
     (if off = 0 then ''Z''
      else let zone = off sdiv 60; z = \<bar>zone\<bar>
           in (if zone < 0 then CHR ''-'' else CHR ''+'') # appendInt (z div 60) 2 @ '':'' @ appendInt (z mod 60) 2)"

definition format_civil :: "int \<times> nat \<times> int \<Rightarrow> int \<Rightarrow> int \<Rightarrow> string" where
  "format_civil ymd sod ns = (case ymd of (y, m, d) \<Rightarrow>
     appendInt y 4 @ ''-'' @ appendInt (int m) 2 @ ''-'' @ appendInt d 2 @ ''T'' @
     appendInt (sod div 3600) 2 @ '':'' @ appendInt (sod mod 3600 div 60) 2 @ '':'' @ appendInt (sod mod 60) 2 @ format_frac ns)"

text \<open>\<open>t.Format(time.RFC3339Nano)\<close>\<close>

definition time_Format :: "gotime \<Rightarrow> string" where
  "time_Format t =
     (let secs = gt_ns t div second_ns + gt_offset t
      in format_civil (civil_of_days (secs div 86400)) (secs mod 86400) (gt_ns t mod second_ns) @ format_zone (gt_offset t))"

definition get_char :: "char \<Rightarrow> string \<Rightarrow> string option" where
  "get_char c s = (case s of [] \<Rightarrow> None | x # xs \<Rightarrow> if x = c then Some xs else None)"

definition getnum :: "bool \<Rightarrow> string \<Rightarrow> (nat \<times> string) option" where
  "getnum fixed s =
     (case s of [] \<Rightarrow> None
      | a # r \<Rightarrow> if \<not> is_digit a then None
          else (case r of
                  b # r' \<Rightarrow> if is_digit b then Some (10 * digit_val a + digit_val b, r')
                            else if fixed then None else Some (digit_val a, r)
                | [] \<Rightarrow> if fixed then None else Some (digit_val a, r)))"

definition getyear :: "string \<Rightarrow> (nat \<times> string) option" where
  "getyear s = (if length s < 4 \<or> \<not> list_all is_digit (take 4 s) then None else Some (dec_val (take 4 s), drop 4 s))"

text \<open>An optional fraction of any number of digits, of which nine count; a comma is accepted too.\<close>

definition parse_frac :: "string \<Rightarrow> int \<times> string" where
  "parse_frac s =
     (case s of c # d # r \<Rightarrow>
        if (c = CHR ''.'' \<or> c = CHR '','') \<and> is_digit d
        then let ds = takeWhile is_digit (d # r); used = take 9 ds
             in (int (dec_val used * 10 ^ (9 - length used)), dropWhile is_digit (d # r))
        else (0, s)
      | _ \<Rightarrow> (0, s))"

text \<open>\<open>Z\<close> or a signed offset; an hour of 24 and a minute of 60 are accepted.\<close>

definition parse_zone :: "string \<Rightarrow> (int \<times> string) option" where
  "parse_zone s =
     (case s of [] \<Rightarrow> None
      | c # r \<Rightarrow>
          if c = CHR ''Z'' then Some (0, r)
          else if c = CHR ''+'' \<or> c = CHR ''-'' then
            do {
              (hr, r) \<leftarrow> getnum True r;
              r \<leftarrow> get_char (CHR '':'') r;
              (mm, r) \<leftarrow> getnum True r;
              if hr > 24 \<or> mm > 60 then None
              else Some ((if c = CHR ''-'' then - 1 else 1) * (int hr * 60 + int mm) * 60, r)
            }
          else None)"

definition civil_time :: "int \<Rightarrow> nat \<Rightarrow> int \<Rightarrow> int \<Rightarrow> int \<Rightarrow> int \<Rightarrow> int \<Rightarrow> int \<Rightarrow> gotime" where
  "civil_time year month day hour minute sec nsec off =
     \<lparr>gt_ns = (days_of_civil year month day * 86400 + hour * 3600 + minute * 60 + sec - off) * second_ns + nsec, gt_offset = off\<rparr>"

definition parse_RFC3339 :: "string \<Rightarrow> gotime option" where
  "parse_RFC3339 s =
     do {
       (year, s) \<leftarrow> getyear s;
       s \<leftarrow> get_char (CHR ''-'') s;
       (month, s) \<leftarrow> getnum True s;
       s \<leftarrow> get_char (CHR ''-'') s;
       (day, s) \<leftarrow> getnum True s;
       s \<leftarrow> get_char (CHR ''T'') s;
       (hour, s) \<leftarrow> getnum False s;
       s \<leftarrow> get_char (CHR '':'') s;
       (minute, s) \<leftarrow> getnum True s;
       s \<leftarrow> get_char (CHR '':'') s;
       (sec, s) \<leftarrow> getnum True s;
       let (nsec, s) = parse_frac s;
       (off, s) \<leftarrow> parse_zone s;
       if s \<noteq> [] \<or> month < 1 \<or> 12 < month \<or> 24 \<le> hour \<or> 60 \<le> minute \<or> 60 \<le> sec
          \<or> day < 1 \<or> int day > daysIn month (int year) then None
       else Some (civil_time (int year) month (int day) (int hour) (int minute) (int sec) nsec off)
     }"

text \<open>\<open>time.Parse(time.RFC3339, s)\<close> and \<open>time.Parse(time.RFC3339Nano, s)\<close>\<close>

definition time_Parse :: "string \<Rightarrow> gotime result" where
  "time_Parse s = (case parse_RFC3339 s of None \<Rightarrow> Inl (Msg ''parsing time'') | Some t \<Rightarrow> Inr t)"

section \<open>Round trip\<close>

text \<open>The times that \<open>Format\<close> prints so that \<open>Parse\<close> reads them back.\<close>

definition printable :: "gotime \<Rightarrow> bool" where
  "printable t \<longleftrightarrow> gt_offset t mod 60 = 0 \<and> \<bar>gt_offset t\<bar> < 25 * 3600
     \<and> (\<exists>y m d. 0 \<le> y \<and> y \<le> 9999 \<and> 1 \<le> m \<and> m \<le> 12 \<and> 1 \<le> d \<and> d \<le> daysIn m y
          \<and> (gt_ns t div second_ns + gt_offset t) div 86400 = days_of_civil y m d)"

lemma appendInt_2: "0 \<le> x \<Longrightarrow> x < 100 \<Longrightarrow> appendInt x 2 = [digit_char (nat x div 10), digit_char (nat x mod 10)]"
proof -
  assume x: "0 \<le> x" "x < 100"
  have small: "FormatUint n = [digit_char n]" if "n < 10" for n using that by (simp add: FormatUint.simps)
  show ?thesis
  proof (cases "x < 10")
    case True
    then show ?thesis using x small [of "nat x"] by (simp add: appendInt_def pad_zero_def)
  next
    case False
    then have "FormatUint (nat x) = [digit_char (nat x div 10), digit_char (nat x mod 10)]"
      using x by (subst FormatUint.simps) (simp add: small)
    then show ?thesis using x by (simp add: appendInt_def pad_zero_def)
  qed
qed

lemma getnum_appendInt:
  assumes "0 \<le> x" "x < 100"
  shows "getnum b (appendInt x 2 @ s) = Some (nat x, s)"
proof -
  have "nat x div 10 < 10" "nat x mod 10 < 10" using assms by auto
  then show ?thesis unfolding appendInt_2 [OF assms] by (simp add: getnum_def)
qed

lemma get_char_Cons: "get_char c (c # s) = Some s"
  by (simp add: get_char_def)

lemma FormatUint_length: "0 < w \<Longrightarrow> n < 10 ^ w \<Longrightarrow> length (FormatUint n) \<le> w"
proof (induction w arbitrary: n)
  case (Suc w)
  show ?case
  proof (cases "n < 10")
    case True
    then show ?thesis by (simp add: FormatUint.simps)
  next
    case False
    then have "n div 10 < 10 ^ w" "0 < w" using Suc.prems by (auto intro: gr0I)
    then show ?thesis using Suc.IH [of "n div 10"] False by (subst FormatUint.simps) simp
  qed
qed simp

lemma pad_zero_FormatUint:
  assumes "0 < w" "n < 10 ^ w"
  shows "length (pad_zero w (FormatUint n)) = w" "list_all is_digit (pad_zero w (FormatUint n))" "dec_val (pad_zero w (FormatUint n)) = n"
  using FormatUint_length [OF assms] by (auto simp: pad_zero_def dec_val_append list_all_iff is_digit_def)
    (use FormatUint_digits [of n] in \<open>simp_all add: list_all_iff is_digit_def\<close>)

lemma getyear_appendInt: "0 \<le> y \<Longrightarrow> y \<le> 9999 \<Longrightarrow> getyear (appendInt y 4 @ s) = Some (nat y, s)"
  using pad_zero_FormatUint [of 4 "nat y"] by (simp add: getyear_def appendInt_def)

lemma trim_zeros_split: "\<exists>k. s = trim_zeros s @ replicate k (CHR ''0'')"
proof -
  have "takeWhile (\<lambda>c. c = CHR ''0'') (rev s) = replicate (length (takeWhile (\<lambda>c. c = CHR ''0'') (rev s))) (CHR ''0'')"
    by (intro replicate_eqI) (auto dest: set_takeWhileD)
  then have "rev s = replicate (length (takeWhile (\<lambda>c. c = CHR ''0'') (rev s))) (CHR ''0'') @ rev (trim_zeros s)"
    unfolding trim_zeros_def rev_rev_ident by (metis takeWhile_dropWhile_id)
  then have "s = trim_zeros s @ replicate (length (takeWhile (\<lambda>c. c = CHR ''0'') (rev s))) (CHR ''0'')"
    by (metis rev_append rev_replicate rev_rev_ident)
  then show ?thesis ..
qed

lemma parse_format_frac:
  assumes "0 \<le> ns" "ns < second_ns" "c = CHR ''Z'' \<or> c = CHR ''+'' \<or> c = CHR ''-''"
  shows "parse_frac (format_frac ns @ c # s) = (ns, c # s)"
proof (cases "ns = 0")
  case True
  then show ?thesis using assms(3) by (cases s) (auto simp: format_frac_def parse_frac_def)
next
  case False
  define p where "p = pad_zero 9 (FormatUint (nat ns))"
  have p: "length p = 9" "list_all is_digit p" "dec_val p = nat ns"
    unfolding p_def using assms by (intro pad_zero_FormatUint; simp)+
  obtain k where k: "p = trim_zeros p @ replicate k (CHR ''0'')" using trim_zeros_split by blast
  have len: "length (trim_zeros p) + k = 9" using p(1) k by (metis length_append length_replicate)
  have dig: "list_all is_digit (trim_zeros p)" using p(2) k by (metis list_all_append)
  have "dec_val p = dec_val (trim_zeros p) * 10 ^ k" by (subst k) (simp add: dec_val_append)
  moreover have "dec_val p \<noteq> 0" using p(3) False assms by simp
  ultimately obtain d r where dr: "trim_zeros p = d # r" by (cases "trim_zeros p") auto
  have c: "\<not> is_digit c" using assms(3) by (auto simp: is_digit_def)
  have "takeWhile is_digit (d # r @ c # s) = trim_zeros p" "dropWhile is_digit (d # r @ c # s) = c # s"
    using dig c unfolding dr by (simp_all add: list_all_iff takeWhile_append dropWhile_append)
  moreover have "nat ns = dec_val (trim_zeros p) * 10 ^ (9 - length (trim_zeros p))"
    using \<open>dec_val p = dec_val (trim_zeros p) * 10 ^ k\<close> p(3) len by (metis add_diff_cancel_left')
  then have "int (dec_val (trim_zeros p)) * 10 ^ (9 - length (trim_zeros p)) = ns" using assms(1) by (metis int_nat_eq of_nat_mult of_nat_numeral of_nat_power)
  moreover have "take 9 (trim_zeros p) = trim_zeros p" "is_digit d" using len dig dr by (simp_all)
  moreover have "format_frac ns = CHR ''.'' # d # r" using False dr by (simp add: format_frac_def p_def)
  ultimately show ?thesis using assms(1) by (simp add: parse_frac_def Let_def dr del: takeWhile.simps dropWhile.simps)
qed

lemma parse_format_zone:
  assumes "off mod 60 = 0" "\<bar>off\<bar> < 25 * 3600"
  shows "parse_zone (format_zone off) = Some (off, [])"
proof (cases "off = 0")
  case True
  then show ?thesis by (simp add: format_zone_def parse_zone_def)
next
  case False
  obtain q where q: "off = q * 60" using assms(1) by (metis mod_0_imp_dvd dvdE mult.commute)
  have zone: "off sdiv 60 = q" unfolding q by (simp add: signed_divide_int_def sgn_mult abs_mult mult_sgn_abs)
  define h mm where "h = \<bar>q\<bar> div 60" and "mm = \<bar>q\<bar> mod 60"
  have b: "0 \<le> h" "h < 25" "0 \<le> mm" "mm < 60" "\<bar>q\<bar> = h * 60 + mm" unfolding h_def mm_def using assms(2) q by auto
  have F: "format_zone off = (if q < 0 then CHR ''-'' else CHR ''+'') # appendInt h 2 @ CHR '':'' # appendInt mm 2 @ []"
    using False by (simp add: format_zone_def zone Let_def h_def mm_def)
  have "(if q < 0 then - 1 else 1) * (h * 60 + mm) * 60 = off" using b(5) q by (simp add: abs_if split: if_splits)
  then show ?thesis
    unfolding F parse_zone_def using b by (simp add: getnum_appendInt get_char_def del: append_Nil2) (auto split: if_splits)
qed

theorem time_Parse_Format:
  assumes "printable t"
  shows "time_Parse (time_Format t) = Inr t"
proof -
  define secs where "secs = gt_ns t div second_ns + gt_offset t"
  define sod where "sod = secs mod 86400"
  define ns where "ns = gt_ns t mod second_ns"
  note pr = assms [unfolded printable_def, folded secs_def]
  have off: "gt_offset t mod 60 = 0" "\<bar>gt_offset t\<bar> < 25 * 3600" by (rule pr [THEN conjunct1], rule pr [THEN conjunct2, THEN conjunct1])
  obtain y m d where "0 \<le> y \<and> y \<le> 9999 \<and> 1 \<le> m \<and> m \<le> 12 \<and> 1 \<le> d \<and> d \<le> daysIn m y \<and> secs div 86400 = days_of_civil y m d"
    by (rule pr [THEN conjunct2, THEN conjunct2, THEN exE]) (elim exE)
  then have ymd: "0 \<le> y" "y \<le> 9999" "1 \<le> m" "m \<le> 12" "1 \<le> d" "d \<le> daysIn m y" "secs div 86400 = days_of_civil y m d"
    by simp_all
  have d31: "d < 100" using ymd(6) daysIn_le_31 [OF ymd(3,4), of y] by simp
  have sod: "0 \<le> sod" "sod < 86400" by (simp_all add: sod_def)
  have "sod mod 3600 < 3600" "sod mod 60 < 60" by simp_all
  then have hm: "sod div 3600 < 24" "sod mod 3600 div 60 < 60" "sod mod 60 < 60" using sod by linarith+
  from hm have lt: "nat (sod div 3600) < 24" "nat (sod mod 3600 div 60) < 60" "nat (sod mod 60) < 60"
    by (simp_all only: nat_less_iff [OF order_refl] zless_nat_conj nat_less_eq_zless)
  have ns: "0 \<le> ns" "ns < second_ns" by (simp_all add: ns_def)
  obtain c r where zone: "format_zone (gt_offset t) = c # r" "c = CHR ''Z'' \<or> c = CHR ''+'' \<or> c = CHR ''-''"
    by (cases "gt_offset t = 0"; cases "gt_offset t sdiv 60 < 0") (simp_all add: format_zone_def Let_def)
  have hms: "sod = sod div 3600 * 3600 + sod mod 3600 div 60 * 60 + sod mod 60"
  proof -
    have "sod mod 3600 mod 60 = sod mod 60" by (rule mod_mod_cancel) simp
    then show ?thesis using mult_div_mod_eq [of 3600 sod] mult_div_mod_eq [of 60 "sod mod 3600"] by linarith
  qed
  have F: "time_Format t = appendInt y 4 @ CHR ''-'' # appendInt (int m) 2 @ CHR ''-'' # appendInt d 2 @ CHR ''T'' #
     appendInt (sod div 3600) 2 @ CHR '':'' # appendInt (sod mod 3600 div 60) 2 @ CHR '':'' # appendInt (sod mod 60) 2 @ format_frac ns @ c # r"
    using ymd(7) civil_of_days_of_civil [OF ymd(3-6)] zone(1)
    by (simp add: time_Format_def format_civil_def Let_def secs_def [symmetric] sod_def [symmetric] ns_def [symmetric])
  have hms0: "0 \<le> sod div 3600" "sod div 3600 < 100" "0 \<le> sod mod 3600 div 60" "sod mod 3600 div 60 < 100" "0 \<le> sod mod 60" "sod mod 60 < 100"
    using sod(1) hm by (simp_all only: pos_imp_zdiv_nonneg_iff pos_mod_sign zero_less_numeral)
  have m: "0 \<le> int m" "int m < 100" "0 \<le> d" using ymd by auto
  note num = getyear_appendInt [OF ymd(1,2)] getnum_appendInt [OF m(1,2)] getnum_appendInt [OF m(3) d31]
    getnum_appendInt [OF hms0(1,2)] getnum_appendInt [OF hms0(3,4)] getnum_appendInt [OF hms0(5,6)]
  note conv = nat_0_le [OF ymd(1)] nat_int [of m] nat_0_le [OF m(3)] nat_0_le [OF hms0(1)] nat_0_le [OF hms0(3)] nat_0_le [OF hms0(5)]
  note lt' = not_less [THEN iffD2, OF ymd(3)] not_less [THEN iffD2, OF ymd(4)] not_less [THEN iffD2, OF ymd(6)]
    not_le [THEN iffD2, OF lt(1)] not_le [THEN iffD2, OF lt(2)] not_le [THEN iffD2, OF lt(3)]
  have "\<not> nat d < 1" using ymd(5) by linarith
  have z: "parse_zone (c # r) = Some (gt_offset t, [])" using parse_format_zone [OF off] zone(1) by simp
  have ns_eq: "gt_ns t = ((days_of_civil y m d * 86400 + sod) - gt_offset t) * second_ns + ns"
  proof -
    have "days_of_civil y m d * 86400 + sod - gt_offset t = gt_ns t div second_ns"
      using mult_div_mod_eq [of 86400 secs] unfolding ymd(7) sod_def [symmetric] by (simp add: secs_def)
    then show ?thesis using mult_div_mod_eq [of second_ns "gt_ns t"] unfolding ns_def by simp
  qed
  have "parse_RFC3339 (time_Format t) =
     Some \<lparr>gt_ns = (days_of_civil y m d * 86400 + sod div 3600 * 3600 + sod mod 3600 div 60 * 60 + sod mod 60 - gt_offset t) * second_ns + ns,
           gt_offset = gt_offset t\<rparr>"
    unfolding F parse_RFC3339_def
    by (simp only: civil_time_def num get_char_Cons parse_format_frac [OF ns zone(2)] z bind.bind_lunit prod.case Let_def lt' \<open>\<not> nat d < 1\<close> conv simp_thms if_False list.simps)
  moreover have "days_of_civil y m d * 86400 + sod div 3600 * 3600 + sod mod 3600 div 60 * 60 + sod mod 60 = days_of_civil y m d * 86400 + sod"
    using hms by linarith
  ultimately have "parse_RFC3339 (time_Format t) = Some \<lparr>gt_ns = gt_ns t, gt_offset = gt_offset t\<rparr>"
    by (simp only: ns_eq [symmetric])
  then have "parse_RFC3339 (time_Format t) = Some t" by simp
  then show ?thesis by (simp add: time_Parse_def)
qed

section \<open>What Parse returns\<close>

lemma parse_frac_range: "parse_frac s = (ns, r) \<Longrightarrow> 0 \<le> ns \<and> ns < second_ns"
proof (cases "\<exists>c d q. s = c # d # q \<and> (c = CHR ''.'' \<or> c = CHR '','') \<and> is_digit d")
  case True
  assume ns: "parse_frac s = (ns, r)"
  from True obtain c d q where s: "s = c # d # q" "c = CHR ''.'' \<or> c = CHR '',''" "is_digit d" by blast
  define used where "used = take 9 (takeWhile is_digit (d # q))"
  have "list_all is_digit used" by (auto simp: used_def list_all_iff dest!: in_set_takeD set_takeWhileD)
  then have "dec_val used < 10 ^ length used" by (rule dec_val_less)
  then have "dec_val used * 10 ^ (9 - length used) < 10 ^ length used * 10 ^ (9 - length used)" by simp
  also have "\<dots> = (10 ^ 9 :: nat)" by (simp add: power_add [symmetric] used_def)
  finally have "int (dec_val used * 10 ^ (9 - length used)) < int (10 ^ 9)" unfolding of_nat_less_iff .
  moreover have "ns = int (dec_val used * 10 ^ (9 - length used))"
    using ns s by (auto simp: parse_frac_def Let_def used_def)
  ultimately show ?thesis by simp
next
  case False
  assume "parse_frac s = (ns, r)"
  then show ?thesis using False by (auto simp: parse_frac_def split: list.splits if_splits)
qed

lemma parse_zone_range: "parse_zone s = Some (off, r) \<Longrightarrow> off mod 60 = 0 \<and> \<bar>off\<bar> \<le> 25 * 3600"
  by (auto simp: parse_zone_def bind_eq_Some_conv split: list.splits if_splits)

lemma time_Parse_result:
  assumes "time_Parse s = Inr t"
  shows "gt_offset t mod 60 = 0" "\<bar>gt_offset t\<bar> \<le> 25 * 3600" "\<bar>gt_offset t\<bar> < 25 * 3600 \<longrightarrow> printable t"
proof -
  obtain y m d h mi sc ns off q where t': "t = civil_time (int y) m (int d) (int h) (int mi) (int sc) ns off"
    and ok: "1 \<le> m" "m \<le> 12" "h < 24" "mi < 60" "sc < 60" "1 \<le> d" "int d \<le> daysIn m (int y)"
    and fr: "ns = fst (parse_frac q)" and z: "parse_zone (snd (parse_frac q)) = Some (off, [])" and y: "\<exists>u v. getyear u = Some (y, v)"
    using assms unfolding time_Parse_def parse_RFC3339_def
    by (clarsimp simp: bind_eq_Some_conv not_less not_le case_prod_unfold Let_def split: option.splits if_splits) (metis Suc_leI)
  note t = t' [unfolded civil_time_def]
  show "gt_offset t mod 60 = 0" "\<bar>gt_offset t\<bar> \<le> 25 * 3600" using parse_zone_range [OF z] by (simp_all add: t)
  have y9: "int y \<le> 9999"
  proof -
    obtain u v where "getyear u = Some (y, v)" using y by blast
    then have "list_all is_digit (take 4 u)" "length (take 4 u) = 4" "y = dec_val (take 4 u)" by (auto simp: getyear_def split: if_splits)
    then show ?thesis using dec_val_less [of "take 4 u"] by simp
  qed
  define sod where "sod = int h * 3600 + int mi * 60 + int sc"
  have sod: "0 \<le> sod" "sod < 86400" using ok by (auto simp: sod_def)
  have ns: "0 \<le> ns" "ns < second_ns" using parse_frac_range [of q ns "snd (parse_frac q)"] fr by auto
  have "gt_ns t = second_ns * ((days_of_civil (int y) m (int d) * 86400 + sod) - off) + ns" by (simp add: t sod_def)
  then have "gt_ns t div second_ns = (days_of_civil (int y) m (int d) * 86400 + sod) - off" using div_cycle(1) [OF ns] by simp
  then have "(gt_ns t div second_ns + gt_offset t) div 86400 = days_of_civil (int y) m (int d)"
    using div_cycle(1) [OF sod, of "days_of_civil (int y) m (int d)"] by (simp add: t mult.commute)
  then show "\<bar>gt_offset t\<bar> < 25 * 3600 \<longrightarrow> printable t"
    unfolding printable_def using ok y9 \<open>gt_offset t mod 60 = 0\<close> by (intro impI conjI exI [of _ "int y"] exI [of _ m] exI [of _ "int d"]) simp_all
qed

end
