(* ===== verification/Wire.thy ===== *)
theory Wire
  imports Ledger Amount Json GoTime
begin

text \<open>
  The transaction event on the wire. The ingestion side (\<open>src/internal/ingestion/ingestion.go\<close>,
  \<open>Publish\<close> of \<open>src/internal/ingestion/kafka/publisher.go\<close>) renders an \<open>Event\<close> as a flat JSON
  object of strings; the processor side (\<open>decodeTransaction\<close> of
  \<open>src/internal/processor/kafka/consumer.go\<close>) reads that object back into a ledger transaction.
  The package \<open>github.com/google/uuid\<close> is a parameter: the record \<open>uuid_package\<close> holds its
  \<open>String\<close> and \<open>Parse\<close>, and \<open>uuid_laws\<close> states what its documentation promises of them.
\<close>

section \<open>Model of ingestion.go\<close>

definition CurrentSchemaVersion :: int16 where "CurrentSchemaVersion = 1"

record Event =
  ev_EventID :: UUID
  ev_TenantID :: string
  ev_SchemaVersion :: int16
  ev_Instrument :: string
  ev_Side :: Side
  ev_Quantity :: int64
  ev_Price :: int64
  ev_Currency :: string
  ev_OccurredAt :: gotime

text \<open>The interface \<open>Publisher\<close> has one method; its implementations differ in the state they run on.\<close>

type_synonym 'w Publisher = "ctx \<Rightarrow> Event \<Rightarrow> 'w \<Rightarrow> error \<times> 'w"

text \<open>A record of the Kafka client library.\<close>

record kgo_Record =
  kr_Topic :: string
  kr_Partition :: int32
  kr_Offset :: int64
  kr_Key :: string
  kr_Value :: string

text \<open>The text of an error, as \<open>err.Error()\<close> gives it.\<close>

fun error_text :: "goerror \<Rightarrow> string" where
  "error_text (Sentinel s) = s"
| "error_text (Msg s) = s"
| "error_text (Wrap s e) = s @ '': '' @ error_text e"
| "error_text (Wrap2 d s e) = error_text d @ '': '' @ s @ '': '' @ error_text e"

section \<open>The uuid package\<close>

record uuid_package =
  uuid_String :: "UUID \<Rightarrow> string"
  uuid_Parse :: "string \<Rightarrow> UUID result"

text \<open>\<open>String\<close> gives the canonical ASCII form, and \<open>Parse\<close> accepts that form.\<close>

definition uuid_laws :: "uuid_package \<Rightarrow> bool" where
  "uuid_laws u \<longleftrightarrow> (\<forall>i. uuid_Parse u (uuid_String u i) = Inr i \<and> is_ascii (uuid_String u i))"

section \<open>The wire format\<close>

record wireEvent =
  we_EventID :: string
  we_TenantID :: string
  we_SchemaVersion :: int16
  we_Instrument :: string
  we_Side :: string
  we_Quantity :: string
  we_Price :: string
  we_Currency :: string
  we_OccurredAt :: string

text \<open>The struct literal that \<open>Publish\<close> builds, and its members in the order of the struct's fields.\<close>

definition wireEvent_of :: "uuid_package \<Rightarrow> Event \<Rightarrow> wireEvent" where
  "wireEvent_of u event =
     \<lparr>we_EventID = uuid_String u (ev_EventID event),
      we_TenantID = ev_TenantID event,
      we_SchemaVersion = ev_SchemaVersion event,
      we_Instrument = ev_Instrument event,
      we_Side = ev_Side event,
      we_Quantity = FormatAmount (ev_Quantity event),
      we_Price = FormatAmount (ev_Price event),
      we_Currency = ev_Currency event,
      we_OccurredAt = time_Format (ev_OccurredAt event)\<rparr>"

definition wireEvent_members :: "wireEvent \<Rightarrow> (string \<times> string) list" where
  "wireEvent_members w =
     [(''event_id'', json_quote (we_EventID w)), (''tenant_id'', json_quote (we_TenantID w)),
      (''schema_version'', Itoa (sint (we_SchemaVersion w))), (''instrument'', json_quote (we_Instrument w)),
      (''side'', json_quote (we_Side w)), (''quantity'', json_quote (we_Quantity w)),
      (''price'', json_quote (we_Price w)), (''currency'', json_quote (we_Currency w)),
      (''occurred_at'', json_quote (we_OccurredAt w))]"

text \<open>\<open>json.Marshal\<close> of the struct, which cannot fail: every field is a string or an integer.\<close>

definition marshal_wireEvent :: "wireEvent \<Rightarrow> string" where
  "marshal_wireEvent w = json_object (wireEvent_members w)"

text \<open>\<open>json.Unmarshal\<close> into the consumer's copy of the struct.\<close>

definition wireEvent_zero :: wireEvent where
  "wireEvent_zero = \<lparr>we_EventID = [], we_TenantID = [], we_SchemaVersion = 0, we_Instrument = [], we_Side = [],
     we_Quantity = [], we_Price = [], we_Currency = [], we_OccurredAt = []\<rparr>"

definition wireEvent_names :: "string list" where
  "wireEvent_names = [''event_id'', ''tenant_id'', ''schema_version'', ''instrument'', ''side'', ''quantity'',
     ''price'', ''currency'', ''occurred_at'']"

definition wireEvent_set :: "string \<Rightarrow> json \<Rightarrow> wireEvent \<Rightarrow> wireEvent option" where
  "wireEvent_set f v w =
     (if f = ''schema_version'' then map_option (\<lambda>k. w\<lparr>we_SchemaVersion := word_of_int k\<rparr>) (json_int 16 v)
      else map_option (\<lambda>s.
        if f = ''event_id'' then w\<lparr>we_EventID := s\<rparr>
        else if f = ''tenant_id'' then w\<lparr>we_TenantID := s\<rparr>
        else if f = ''instrument'' then w\<lparr>we_Instrument := s\<rparr>
        else if f = ''side'' then w\<lparr>we_Side := s\<rparr>
        else if f = ''quantity'' then w\<lparr>we_Quantity := s\<rparr>
        else if f = ''price'' then w\<lparr>we_Price := s\<rparr>
        else if f = ''currency'' then w\<lparr>we_Currency := s\<rparr>
        else w\<lparr>we_OccurredAt := s\<rparr>) (json_string v))"

definition unmarshal_wireEvent :: "string \<Rightarrow> wireEvent option" where
  "unmarshal_wireEvent value =
     (case json_document value of None \<Rightarrow> None | Some v \<Rightarrow> decode_struct wireEvent_names wireEvent_set wireEvent_zero v)"

text \<open>The zero \<open>time.Time\<close> is the first instant of year 1.\<close>

definition zero_time :: time where "zero_time = - 62135596800000000000"

definition decodeTransaction :: "uuid_package \<Rightarrow> string \<Rightarrow> Transaction result" where
  "decodeTransaction u value =
     (case unmarshal_wireEvent value of
        None \<Rightarrow> Inl (Msg ''decode transaction event: unmarshal payload'')
      | Some wire \<Rightarrow>
          bind_res (wrap_res ''decode transaction event: parse event id'' (uuid_Parse u (we_EventID wire))) (\<lambda>eventID.
          bind_res (wrap_res ''decode transaction event: parse quantity'' (ParseAmount (we_Quantity wire))) (\<lambda>quantity.
          bind_res (wrap_res ''decode transaction event: parse price'' (ParseAmount (we_Price wire))) (\<lambda>price.
          bind_res (wrap_res ''decode transaction event: parse occurred_at'' (time_Parse (we_OccurredAt wire))) (\<lambda>occurredAt.
          Inr \<lparr>tx_ID = 0, tx_EventID = eventID, tx_TenantID = we_TenantID wire, tx_SchemaVersion = we_SchemaVersion wire,
               tx_Instrument = we_Instrument wire, tx_Side = we_Side wire, tx_Quantity = quantity, tx_Price = price,
               tx_Currency = we_Currency wire, tx_OccurredAt = gt_ns occurredAt, tx_ReceivedAt = zero_time\<rparr>)))))"

section \<open>Round trip\<close>

text \<open>The transaction an event stands for.\<close>

definition transaction_of :: "Event \<Rightarrow> Transaction" where
  "transaction_of event =
     \<lparr>tx_ID = 0, tx_EventID = ev_EventID event, tx_TenantID = ev_TenantID event, tx_SchemaVersion = ev_SchemaVersion event,
      tx_Instrument = ev_Instrument event, tx_Side = ev_Side event, tx_Quantity = ev_Quantity event,
      tx_Price = ev_Price event, tx_Currency = ev_Currency event, tx_OccurredAt = gt_ns (ev_OccurredAt event),
      tx_ReceivedAt = zero_time\<rparr>"

definition event_payload :: "uuid_package \<Rightarrow> Event \<Rightarrow> string" where
  "event_payload u event = marshal_wireEvent (wireEvent_of u event)"

text \<open>The events whose payload the processor reads back.\<close>

definition wire_text :: "wireEvent \<Rightarrow> bool" where
  "wire_text w \<longleftrightarrow> list_all valid_utf8 [we_EventID w, we_TenantID w, we_Instrument w, we_Side w, we_Quantity w,
     we_Price w, we_Currency w, we_OccurredAt w]"

definition publishable :: "Event \<Rightarrow> bool" where
  "publishable event \<longleftrightarrow> list_all valid_utf8 [ev_TenantID event, ev_Instrument event, ev_Side event, ev_Currency event]
     \<and> ev_Quantity event \<noteq> - 9223372036854775808 \<and> ev_Price event \<noteq> - 9223372036854775808
     \<and> printable (ev_OccurredAt event)"

definition wireEvent_json :: "wireEvent \<Rightarrow> (string \<times> json) list" where
  "wireEvent_json w =
     [(''event_id'', JStr (we_EventID w)), (''tenant_id'', JStr (we_TenantID w)),
      (''schema_version'', JNum (Itoa (sint (we_SchemaVersion w)))), (''instrument'', JStr (we_Instrument w)),
      (''side'', JStr (we_Side w)), (''quantity'', JStr (we_Quantity w)), (''price'', JStr (we_Price w)),
      (''currency'', JStr (we_Currency w)), (''occurred_at'', JStr (we_OccurredAt w))]"

lemma wireEvent_renders: "wire_text w \<Longrightarrow> renders_members d (wireEvent_members w) (wireEvent_json w)"
  by (simp add: renders_members_def wireEvent_members_def wireEvent_json_def wire_text_def renders_string renders_int
      valid_utf8_ascii is_ascii_def)

lemma int16_sint: "- (2 ^ 15) \<le> sint (v :: int16)" "sint v < 2 ^ 15"
  using sint_range_size [of v] by (simp_all add: word_size)

lemma unmarshal_marshal: "wire_text w \<Longrightarrow> unmarshal_wireEvent (marshal_wireEvent w) = Some w"
proof -
  assume w: "wire_text w"
  have "json_int 16 (JNum (Itoa (sint (we_SchemaVersion w)))) = Some (sint (we_SchemaVersion w))"
    using int16_sint [of "we_SchemaVersion w"] by (intro json_int_Itoa) simp_all
  then have "decode_struct wireEvent_names wireEvent_set wireEvent_zero (JObj (wireEvent_json w)) = Some w"
    by (simp add: decode_struct_def wireEvent_json_def wireEvent_names_def wireEvent_set_def json_string_def wireEvent_zero_def)
  moreover have "json_document (marshal_wireEvent w) = Some (JObj (wireEvent_json w))"
    unfolding marshal_wireEvent_def
    by (rule json_document_object) (simp_all add: wireEvent_renders [OF w], simp add: wireEvent_members_def)
  ultimately show ?thesis by (simp add: unmarshal_wireEvent_def)
qed

lemma is_ascii_simps [simp]:
  "is_ascii []" "is_ascii (c # s) \<longleftrightarrow> byte c < 128 \<and> is_ascii s" "is_ascii (s @ t) \<longleftrightarrow> is_ascii s \<and> is_ascii t"
  by (simp_all add: is_ascii_def)

lemma digits_ascii: "list_all is_digit s \<Longrightarrow> is_ascii s"
  by (auto simp: is_ascii_def is_digit_def list_all_iff)

lemma FormatAmount_ascii: "is_ascii (FormatAmount v)"
proof -
  have "is_ascii (padded_digits n)" for n
    using padded_digits_props(1) [of n] by (simp add: isDigits_def digits_ascii)
  then have "is_ascii (take k (padded_digits n))" "is_ascii (drop k (padded_digits n))" for k n
    using is_ascii_simps(3) [of "take k (padded_digits n)" "drop k (padded_digits n)"] by simp_all
  then show ?thesis by (simp add: FormatAmount_render formatted_def render_def Let_def)
qed

lemma pad_zero_ascii: "is_ascii s \<Longrightarrow> is_ascii (pad_zero w s)"
  by (simp add: pad_zero_def) (simp add: is_ascii_def list_all_iff)

lemma appendInt_ascii: "is_ascii (appendInt x w)"
  by (simp add: appendInt_def pad_zero_ascii digits_ascii)

lemma format_frac_ascii: "is_ascii (format_frac ns)"
proof -
  have "is_ascii s \<Longrightarrow> is_ascii (trim_zeros s)" for s
    by (auto simp: is_ascii_def trim_zeros_def list_all_iff dest!: set_dropWhileD)
  then show ?thesis by (simp add: format_frac_def pad_zero_ascii digits_ascii)
qed

lemma time_Format_ascii: "is_ascii (time_Format t)"
  by (simp add: time_Format_def format_civil_def format_zone_def Let_def appendInt_ascii format_frac_ascii split: prod.split)

lemma wireEvent_of_text: "uuid_laws u \<Longrightarrow> publishable event \<Longrightarrow> wire_text (wireEvent_of u event)"
  by (simp add: wire_text_def wireEvent_of_def publishable_def uuid_laws_def valid_utf8_ascii FormatAmount_ascii time_Format_ascii)

lemma decode_event_payload:
  assumes "uuid_laws u" "publishable event"
  shows "decodeTransaction u (event_payload u event) = Inr (transaction_of event)"
proof -
  have "unmarshal_wireEvent (event_payload u event) = Some (wireEvent_of u event)"
    unfolding event_payload_def using assms by (intro unmarshal_marshal wireEvent_of_text)
  moreover have "uuid_Parse u (uuid_String u (ev_EventID event)) = Inr (ev_EventID event)" using assms(1) by (simp add: uuid_laws_def)
  moreover have "ParseAmount (FormatAmount (ev_Quantity event)) = Inr (ev_Quantity event)"
    "ParseAmount (FormatAmount (ev_Price event)) = Inr (ev_Price event)"
    "time_Parse (time_Format (ev_OccurredAt event)) = Inr (ev_OccurredAt event)"
    using assms(2) by (simp_all add: publishable_def ParseAmount_Format time_Parse_Format)
  ultimately show ?thesis by (simp add: decodeTransaction_def wireEvent_of_def transaction_of_def)
qed

text \<open>An instance of the package's laws: identifiers printed and read in decimal.\<close>

definition decimal_uuid :: uuid_package where
  "decimal_uuid = \<lparr>uuid_String = (\<lambda>i. FormatUint (unat i)),
     uuid_Parse = (\<lambda>s. bind_res (ParseUint s 128) (\<lambda>n. Inr (of_nat n)))\<rparr>"

lemma decimal_uuid_laws: "uuid_laws decimal_uuid"
proof -
  have "unat (i :: UUID) < 2 ^ 128" for i using unsigned_less [of i] by simp
  then show ?thesis by (simp add: uuid_laws_def decimal_uuid_def ParseUint_FormatUint digits_ascii)
qed

text \<open>What a payload that does not decode looks like: the first field that fails decides the error.\<close>

lemma decodeTransaction_Inr:
  assumes "decodeTransaction u value = Inr t"
  obtains wire where "unmarshal_wireEvent value = Some wire" "uuid_Parse u (we_EventID wire) = Inr (tx_EventID t)"
    "ParseAmount (we_Quantity wire) = Inr (tx_Quantity t)" "ParseAmount (we_Price wire) = Inr (tx_Price t)"
    "tx_TenantID t = we_TenantID wire" "tx_Instrument t = we_Instrument wire" "tx_Side t = we_Side wire"
  using assms unfolding decodeTransaction_def by (auto simp: bind_res_Inr_iff split: option.splits)

end
