(* ===== verification/Partitioner.thy ===== *)
theory Partitioner
  imports GoLib "HOL-Library.Multiset" "HOL-Library.Char_ord" "HOL-Library.List_Lexorder"
begin

text \<open>
  The producer's tenant-aware partitioner, \<open>src/internal/ingestion/kafka/partitioner.go\<close>, with the
  record key of \<open>publisher.go\<close>. The reservation table works on \<open>int32\<close> values; a Go map that is
  ranged over is an association list (one iteration order), a map that is only looked up is a
  function. A run-time panic (integer division by zero) is the value None. The calls to
  \<open>metrics.observePartitionRange\<close> are collected in the table's field \<open>rt_observed\<close>.
\<close>

unbundle bit_operations_syntax

section \<open>Model of partitioner.go\<close>

definition DefaultPartitionsPerTenant :: int32 where "DefaultPartitionsPerTenant = 1"

type_synonym TenantPartitionConfig = "(string \<times> int32) list"

record partitionRange =
  pr_start :: int32
  pr_size :: int32

record reservationTable =
  rt_totalPartitions :: int32
  rt_defaultSize :: int32
  rt_explicit :: "string \<rightharpoonup> partitionRange"
  rt_poolStart :: int32
  rt_poolSize :: int32
  rt_poolNext :: int32
  rt_pool :: "string \<rightharpoonup> partitionRange"
  rt_droppedTenants :: "string list"
  rt_observed :: "(string \<times> partitionRange) list"

definition hash_step :: "uint32 \<Rightarrow> char \<Rightarrow> uint32" where
  "hash_step hash singleByte = (hash XOR of_nat (of_char singleByte)) * 16777619"

definition hashBytes :: "string \<Rightarrow> uint32" where
  "hashBytes data = foldl hash_step 2166136261 data"

text \<open>The remainder of two \<open>uint32\<close> values; a zero divisor panics.\<close>

definition mod_uint32 :: "uint32 \<Rightarrow> uint32 \<Rightarrow> uint32 option" where
  "mod_uint32 a b = (if b = 0 then None else Some (a mod b))"

text \<open>A missing key of a Go map reads as the zero value.\<close>

definition reserved_size :: "TenantPartitionConfig \<Rightarrow> string \<Rightarrow> int32" where
  "reserved_size reserved tenantID = (case map_of reserved tenantID of None \<Rightarrow> 0 | Some n \<Rightarrow> n)"

text \<open>
  The loop over the sorted tenant ids: the ranges carved out, in order, the cursor after them, and
  the dropped tenants.
\<close>

fun carve :: "TenantPartitionConfig \<Rightarrow> int32 \<Rightarrow> string list \<Rightarrow> int32 \<Rightarrow> (string \<times> partitionRange) list \<times> int32 \<times> string list" where
  "carve reserved explicitCapacity [] cursor = ([], cursor, [])"
| "carve reserved explicitCapacity (tenantID # tenantIDs) cursor =
     (if sint cursor \<ge> sint explicitCapacity then ([], cursor, tenantID # tenantIDs)
      else let size = reserved_size reserved tenantID;
               size = (if sint size < 1 then 1 else size);
               size = (if sint (cursor + size) > sint explicitCapacity then explicitCapacity - cursor else size);
               (explicit, cursor', dropped) = carve reserved explicitCapacity tenantIDs (cursor + size)
           in ((tenantID, \<lparr>pr_start = cursor, pr_size = size\<rparr>) # explicit, cursor', dropped))"

definition newReservationTable :: "TenantPartitionConfig \<Rightarrow> int32 \<Rightarrow> int32 \<Rightarrow> reservationTable" where
  "newReservationTable reserved defaultSize totalPartitions =
     (let defaultSize = (if sint defaultSize < 1 then DefaultPartitionsPerTenant else defaultSize);
          totalPartitions = (if sint totalPartitions < 1 then 1 else totalPartitions);
          explicitCapacity = (if sint totalPartitions > 1 then totalPartitions - 1 else totalPartitions);
          tenantIDs = sort (map fst reserved);
          (explicit, cursor, dropped) = carve reserved explicitCapacity tenantIDs 0
      in \<lparr>rt_totalPartitions = totalPartitions, rt_defaultSize = defaultSize, rt_explicit = map_of explicit,
          rt_poolStart = cursor, rt_poolSize = totalPartitions - cursor, rt_poolNext = cursor,
          rt_pool = Map.empty, rt_droppedTenants = dropped, rt_observed = explicit\<rparr>)"

definition poolRangeFor :: "reservationTable \<Rightarrow> string \<Rightarrow> (partitionRange \<times> reservationTable) option" where
  "poolRangeFor table tenantID =
     (case rt_pool table tenantID of
        Some rng \<Rightarrow> Some (rng, table)
      | None \<Rightarrow>
          let remaining = rt_poolStart table + rt_poolSize table - rt_poolNext table;
              size = (if sint (rt_defaultSize table) > sint remaining then remaining else rt_defaultSize table)
          in if sint size \<le> 0
             then map_option (\<lambda>h. (\<lparr>pr_start = rt_poolStart table + h, pr_size = 1\<rparr>, table))
                    (mod_uint32 (hashBytes tenantID) (rt_poolSize table))
             else let rng = \<lparr>pr_start = rt_poolNext table, pr_size = size\<rparr>
                  in Some (rng, table\<lparr>rt_poolNext := rt_poolNext table + size,
                                      rt_pool := (rt_pool table)(tenantID \<mapsto> rng),
                                      rt_observed := rt_observed table @ [(tenantID, rng)]\<rparr>))"

definition partitionFor :: "reservationTable \<Rightarrow> string \<Rightarrow> string \<Rightarrow> (int32 \<times> reservationTable) option" where
  "partitionFor table tenantID instrument =
     (case (case rt_explicit table tenantID of Some rng \<Rightarrow> Some (rng, table) | None \<Rightarrow> poolRangeFor table tenantID) of
        None \<Rightarrow> None
      | Some (rng, table') \<Rightarrow>
          map_option (\<lambda>h. (pr_start rng + h, table')) (mod_uint32 (hashBytes instrument) (pr_size rng)))"

definition splitPartitionKey :: "string \<Rightarrow> string \<times> string" where
  "splitPartitionKey key =
     (case bytes_IndexByte key (CHR '':'') of None \<Rightarrow> (key, []) | Some idx \<Rightarrow> (take idx key, drop (idx + 1) key))"

text \<open>\<open>partitionKey\<close> of \<open>publisher.go\<close>.\<close>

definition partitionKey :: "string \<Rightarrow> string \<Rightarrow> string" where
  "partitionKey tenantID instrument = tenantID @ '':'' @ instrument"

text \<open>
  The reservation config behind the atomic pointer. A \<open>Store\<close> installs a new pointer, so the pointer
  is a number that every store increments, and comparing pointers is comparing numbers.
\<close>

record tenantPartitionerState =
  ps_pointer :: nat
  ps_reserved :: TenantPartitionConfig
  ps_defaultSize :: int32

definition newTenantPartitioner :: "TenantPartitionConfig \<Rightarrow> int32 \<Rightarrow> tenantPartitionerState" where
  "newTenantPartitioner reserved defaultSize = \<lparr>ps_pointer = 0, ps_reserved = reserved, ps_defaultSize = defaultSize\<rparr>"

definition updateReservations :: "TenantPartitionConfig \<Rightarrow> int32 \<Rightarrow> tenantPartitionerState \<Rightarrow> tenantPartitionerState" where
  "updateReservations reserved defaultSize shared =
     \<lparr>ps_pointer = ps_pointer shared + 1, ps_reserved = reserved, ps_defaultSize = defaultSize\<rparr>"

text \<open>A topic's partitioner: the state and table it last built; both nil at first (\<open>ForTopic\<close>).\<close>

record tenantTopicPartitioner =
  tp_state :: "tenantPartitionerState option"
  tp_table :: "reservationTable option"
  tp_droppedTotal :: nat

definition ForTopic :: tenantTopicPartitioner where
  "ForTopic = \<lparr>tp_state = None, tp_table = None, tp_droppedTotal = 0\<rparr>"

definition rebuild :: "tenantPartitionerState \<Rightarrow> int \<Rightarrow> tenantTopicPartitioner \<Rightarrow> reservationTable \<times> tenantTopicPartitioner" where
  "rebuild shared totalPartitions part =
     (let build = (let table = newReservationTable (ps_reserved shared) (ps_defaultSize shared) (word_of_int totalPartitions)
                   in (table, part\<lparr>tp_state := Some shared, tp_table := Some table,
                         tp_droppedTotal := tp_droppedTotal part + length (rt_droppedTenants table)\<rparr>))
      in case tp_table part of
           None \<Rightarrow> build
         | Some table \<Rightarrow>
             if map_option ps_pointer (tp_state part) \<noteq> Some (ps_pointer shared)
                \<or> rt_totalPartitions table \<noteq> word_of_int totalPartitions then build
             else (table, part))"

definition Partition :: "tenantPartitionerState \<Rightarrow> string \<Rightarrow> int \<Rightarrow> tenantTopicPartitioner \<Rightarrow> (int \<times> tenantTopicPartitioner) option" where
  "Partition shared key totalPartitions part =
     (let (table, part1) = rebuild shared totalPartitions part;
          (tenantID, instrument) = splitPartitionKey key
      in map_option (\<lambda>(p, table'). (sint p, part1\<lparr>tp_table := Some table'\<rparr>)) (partitionFor table tenantID instrument))"

section \<open>Well-formed tables\<close>

definition range_set :: "partitionRange \<Rightarrow> int set" where
  "range_set r = {sint (pr_start r) ..< sint (pr_start r) + sint (pr_size r)}"

definition ranges_in :: "int \<Rightarrow> int \<Rightarrow> (string \<rightharpoonup> partitionRange) \<Rightarrow> bool" where
  "ranges_in lo hi m \<longleftrightarrow> (\<forall>t r. m t = Some r \<longrightarrow>
     lo \<le> sint (pr_start r) \<and> 1 \<le> sint (pr_size r) \<and> sint (pr_start r) + sint (pr_size r) \<le> hi)"

definition ranges_disjoint :: "(string \<rightharpoonup> partitionRange) \<Rightarrow> bool" where
  "ranges_disjoint m \<longleftrightarrow> (\<forall>t u r s. t \<noteq> u \<longrightarrow> m t = Some r \<longrightarrow> m u = Some s \<longrightarrow> range_set r \<inter> range_set s = {})"

text \<open>Reserved ranges, then the pool, of which a prefix is assigned; nothing overlaps.\<close>

definition table_ok :: "reservationTable \<Rightarrow> bool" where
  "table_ok tb \<longleftrightarrow> 1 \<le> sint (rt_totalPartitions tb) \<and> 1 \<le> sint (rt_defaultSize tb)
     \<and> 0 \<le> sint (rt_poolStart tb) \<and> sint (rt_poolStart tb) + sint (rt_poolSize tb) = sint (rt_totalPartitions tb)
     \<and> sint (rt_poolStart tb) \<le> sint (rt_poolNext tb) \<and> sint (rt_poolNext tb) \<le> sint (rt_totalPartitions tb)
     \<and> ranges_in 0 (sint (rt_poolStart tb)) (rt_explicit tb) \<and> ranges_disjoint (rt_explicit tb)
     \<and> ranges_in (sint (rt_poolStart tb)) (sint (rt_poolNext tb)) (rt_pool tb) \<and> ranges_disjoint (rt_pool tb)"

text \<open>No reservation is so large that adding it to a partition index leaves \<open>int32\<close>.\<close>

definition sizes_fit :: "TenantPartitionConfig \<Rightarrow> int32 \<Rightarrow> bool" where
  "sizes_fit reserved parts \<longleftrightarrow> (\<forall>(t, n) \<in> set reserved. sint n + sint parts \<le> max_int32)"

lemma ranges_in_upd:
  "ranges_in lo hi m \<Longrightarrow> lo' \<le> lo \<Longrightarrow> hi \<le> hi' \<Longrightarrow> lo' \<le> sint (pr_start r) \<Longrightarrow> 1 \<le> sint (pr_size r)
    \<Longrightarrow> sint (pr_start r) + sint (pr_size r) \<le> hi' \<Longrightarrow> ranges_in lo' hi' (m(t \<mapsto> r))"
  by (fastforce simp: ranges_in_def)

lemma ranges_disjoint_upd:
  assumes "ranges_disjoint m" "ranges_in lo hi m"
    "hi \<le> sint (pr_start r) \<or> sint (pr_start r) + sint (pr_size r) \<le> lo"
  shows "ranges_disjoint (m(t \<mapsto> r))"
proof -
  have "range_set s \<inter> range_set r = {}" if "m u = Some s" for u s
  proof -
    have "lo \<le> sint (pr_start s)" "sint (pr_start s) + sint (pr_size s) \<le> hi"
      using assms(2) that unfolding ranges_in_def by blast+
    then show ?thesis using assms(3) by (auto simp: range_set_def)
  qed
  then show ?thesis using assms(1) unfolding ranges_disjoint_def by (auto simp: Int_commute)
qed

text \<open>The size given to the next reserved tenant.\<close>

definition carve_size :: "TenantPartitionConfig \<Rightarrow> int32 \<Rightarrow> int32 \<Rightarrow> string \<Rightarrow> int32" where
  "carve_size reserved cap cursor t =
     (let size = (if sint (reserved_size reserved t) < 1 then 1 else reserved_size reserved t)
      in if sint (cursor + size) > sint cap then cap - cursor else size)"

lemma carve_Cons:
  "carve reserved cap (t # ts) cursor =
     (if sint cursor \<ge> sint cap then ([], cursor, t # ts)
      else let size = carve_size reserved cap cursor t; (ex, cur, dr) = carve reserved cap ts (cursor + size)
           in ((t, \<lparr>pr_start = cursor, pr_size = size\<rparr>) # ex, cur, dr))"
  by (simp add: carve_size_def Let_def)

lemma carve_size_fits:
  assumes "sizes_fit reserved parts" "0 \<le> sint cursor" "sint cursor < sint cap" "sint cap \<le> sint parts"
  shows "1 \<le> sint (carve_size reserved cap cursor t)"
    "sint (cursor + carve_size reserved cap cursor t) = sint cursor + sint (carve_size reserved cap cursor t)"
    "sint cursor + sint (carve_size reserved cap cursor t) \<le> sint cap"
proof -
  define n where "n = (if sint (reserved_size reserved t) < 1 then 1 else reserved_size reserved t)"
  have n1: "1 \<le> sint n" by (simp add: n_def)
  have "sint (reserved_size reserved t) + sint parts \<le> max_int32 \<or> reserved_size reserved t = 0"
    using assms(1) by (auto simp: sizes_fit_def reserved_size_def split: option.splits dest: map_of_SomeD)
  then have "is_int32 (sint cursor + sint n)"
    using assms(2-4) sint32_range [of cap] unfolding is_int32_def n_def by auto
  then have add: "sint (cursor + n) = sint cursor + sint n" by (rule sint32_add)
  have "is_int32 (sint cap - sint cursor)"
    using assms(2,3) sint32_range [of cap] unfolding is_int32_def by linarith
  then have diff: "sint (cap - cursor) = sint cap - sint cursor" by (rule sint32_diff)
  have size: "carve_size reserved cap cursor t = (if sint cap < sint cursor + sint n then cap - cursor else n)"
    unfolding carve_size_def Let_def n_def [symmetric] add by simp
  show "1 \<le> sint (carve_size reserved cap cursor t)"
    "sint cursor + sint (carve_size reserved cap cursor t) \<le> sint cap"
    "sint (cursor + carve_size reserved cap cursor t) = sint cursor + sint (carve_size reserved cap cursor t)"
    unfolding size using n1 add diff assms(3) by auto
qed

lemma carve_ranges:
  assumes "sizes_fit reserved parts" "sint cap \<le> sint parts" "0 \<le> sint cursor" "sint cursor \<le> sint cap"
    "carve reserved cap ts cursor = (ex, cur, dr)"
  shows "sint cursor \<le> sint cur \<and> sint cur \<le> sint cap \<and> ranges_in (sint cursor) (sint cur) (map_of ex)
    \<and> ranges_disjoint (map_of ex) \<and> ts = map fst ex @ dr \<and> (dr \<noteq> [] \<longrightarrow> cur = cap)"
  using assms(3-5)
proof (induction ts arbitrary: cursor ex)
  case Nil
  then show ?case by (auto simp: ranges_in_def ranges_disjoint_def)
next
  case (Cons t ts)
  show ?case
  proof (cases "sint cursor \<ge> sint cap")
    case True
    then show ?thesis using Cons.prems by (auto simp: ranges_in_def ranges_disjoint_def sint32_eq_iff)
  next
    case False
    define n where "n = carve_size reserved cap cursor t"
    note fit = carve_size_fits [OF assms(1) Cons.prems(1) _ assms(2), of t, folded n_def]
    obtain ex' where rest: "carve reserved cap ts (cursor + n) = (ex', cur, dr)"
      and ex: "ex = (t, \<lparr>pr_start = cursor, pr_size = n\<rparr>) # ex'"
      using Cons.prems(3) False unfolding carve_Cons n_def [symmetric] by (auto simp: Let_def split: prod.splits)
    have ih: "sint (cursor + n) \<le> sint cur \<and> sint cur \<le> sint cap \<and> ranges_in (sint (cursor + n)) (sint cur) (map_of ex')
      \<and> ranges_disjoint (map_of ex') \<and> ts = map fst ex' @ dr \<and> (dr \<noteq> [] \<longrightarrow> cur = cap)"
      by (rule Cons.IH [OF _ _ rest]) (use fit False Cons.prems(1) in auto)
    have "ranges_in (sint cursor) (sint cur) (map_of ex)"
      unfolding ex map_of.simps using ih fit False by (intro ranges_in_upd [of "sint (cursor + n)" "sint cur"]) auto
    moreover have "ranges_disjoint (map_of ex)"
      unfolding ex map_of.simps using ih fit False by (intro ranges_disjoint_upd [of _ "sint (cursor + n)" "sint cur"]) auto
    moreover have "t # ts = map fst ex @ dr" "sint cursor \<le> sint cur" using ih fit False ex by auto
    ultimately show ?thesis using ih by blast
  qed
qed

lemma newReservationTable_ok:
  fixes dsize :: int32
  assumes "sizes_fit reserved parts" "1 \<le> sint parts"
  defines "tb \<equiv> newReservationTable reserved dsize parts"
  shows "table_ok tb \<and> rt_totalPartitions tb = parts \<and> rt_pool tb = Map.empty
    \<and> (1 < sint parts \<longrightarrow> 1 \<le> sint (rt_poolSize tb))
    \<and> (\<exists>ex. sort (map fst reserved) = map fst ex @ rt_droppedTenants tb \<and> rt_explicit tb = map_of ex
        \<and> (rt_droppedTenants tb \<noteq> [] \<longrightarrow> sint (rt_poolStart tb) = max 1 (sint parts - 1)))"
proof -
  define cap where "cap = (if sint parts > 1 then parts - 1 else parts)"
  have "sint (parts - 1) = sint parts - 1" using assms(2) sint32_diff [of parts 1] sint32_range [of parts]
    by (simp add: is_int32_def)
  then have cap: "sint cap = (if sint parts > 1 then sint parts - 1 else sint parts)" by (simp add: cap_def)
  obtain ex cur dr where c: "carve reserved cap (sort (map fst reserved)) 0 = (ex, cur, dr)" by (metis prod_cases3)
  have cr: "0 \<le> sint cur \<and> sint cur \<le> sint cap \<and> ranges_in 0 (sint cur) (map_of ex) \<and> ranges_disjoint (map_of ex)
      \<and> sort (map fst reserved) = map fst ex @ dr \<and> (dr \<noteq> [] \<longrightarrow> cur = cap)"
    using carve_ranges [OF assms(1) _ _ _ c] cap assms(2) by (simp split: if_splits)
  have tb: "tb = \<lparr>rt_totalPartitions = parts, rt_defaultSize = (if sint dsize < 1 then DefaultPartitionsPerTenant else dsize),
      rt_explicit = map_of ex, rt_poolStart = cur, rt_poolSize = parts - cur, rt_poolNext = cur,
      rt_pool = Map.empty, rt_droppedTenants = dr, rt_observed = ex\<rparr>"
    using assms(2) c unfolding tb_def newReservationTable_def cap_def by (simp add: Let_def)
  have "is_int32 (sint parts - sint cur)" using cr cap assms(2) sint32_range [of parts] unfolding is_int32_def by (auto split: if_splits)
  then have "sint (parts - cur) = sint parts - sint cur" by (rule sint32_diff)
  then show ?thesis
    using cr cap assms(2)
    by (auto simp: tb table_ok_def DefaultPartitionsPerTenant_def ranges_in_def ranges_disjoint_def split: if_splits)
qed

section \<open>A table in use\<close>

text \<open>
  The range a table gives a tenant it has seen: its reservation, its cached pool range or, when the
  pool is used up, one partition of the pool chosen by the hash of the tenant id.
\<close>

definition range_of :: "reservationTable \<Rightarrow> string \<Rightarrow> partitionRange option" where
  "range_of tb t =
     (case rt_explicit tb t of Some r \<Rightarrow> Some r
      | None \<Rightarrow> (case rt_pool tb t of Some r \<Rightarrow> Some r
          | None \<Rightarrow> if rt_poolNext tb = rt_totalPartitions tb
                    then Some \<lparr>pr_start = rt_poolStart tb + hashBytes t mod rt_poolSize tb, pr_size = 1\<rparr> else None))"

text \<open>A table with at least one partition in the pool, whose assigned prefix is accounted for.\<close>

definition table_live :: "reservationTable \<Rightarrow> bool" where
  "table_live tb \<longleftrightarrow> table_ok tb \<and> 1 \<le> sint (rt_poolSize tb) \<and> finite (dom (rt_pool tb))
     \<and> sint (rt_poolNext tb) \<le> sint (rt_poolStart tb) + int (card (dom (rt_pool tb))) * sint (rt_defaultSize tb)"

text \<open>What a lookup leaves alone, and that no tenant seen before moves.\<close>

definition table_le :: "reservationTable \<Rightarrow> reservationTable \<Rightarrow> bool" where
  "table_le tb tb' \<longleftrightarrow> rt_totalPartitions tb' = rt_totalPartitions tb \<and> rt_defaultSize tb' = rt_defaultSize tb
     \<and> rt_explicit tb' = rt_explicit tb \<and> rt_poolStart tb' = rt_poolStart tb \<and> rt_poolSize tb' = rt_poolSize tb
     \<and> (\<forall>t r. range_of tb t = Some r \<longrightarrow> range_of tb' t = Some r)"

lemma table_le_refl [simp]: "table_le tb tb"
  by (simp add: table_le_def)

lemma table_le_trans [trans]: "table_le a b \<Longrightarrow> table_le b c \<Longrightarrow> table_le a c"
  by (simp add: table_le_def)

lemma mod_uint32_some: "1 \<le> sint n \<Longrightarrow> mod_uint32 h n = Some (h mod n)"
  by (auto simp: mod_uint32_def)

lemma fallback_range:
  assumes "table_live tb"
  shows "sint (rt_poolStart tb + h mod rt_poolSize tb) = sint (rt_poolStart tb) + sint (h mod rt_poolSize tb)"
    "sint (rt_poolStart tb) \<le> sint (rt_poolStart tb + h mod rt_poolSize tb)"
    "sint (rt_poolStart tb + h mod rt_poolSize tb) < sint (rt_totalPartitions tb)"
proof -
  have ok: "1 \<le> sint (rt_poolSize tb)" "0 \<le> sint (rt_poolStart tb)"
    "sint (rt_poolStart tb) + sint (rt_poolSize tb) = sint (rt_totalPartitions tb)"
    using assms by (auto simp: table_live_def table_ok_def)
  note m = sint32_mod [OF ok(1), of h]
  have "is_int32 (sint (rt_poolStart tb) + sint (h mod rt_poolSize tb))"
    unfolding is_int32_def using ok m sint32_range [of "rt_totalPartitions tb"] by linarith
  then show add: "sint (rt_poolStart tb + h mod rt_poolSize tb) = sint (rt_poolStart tb) + sint (h mod rt_poolSize tb)"
    by (rule sint32_add)
  show "sint (rt_poolStart tb) \<le> sint (rt_poolStart tb + h mod rt_poolSize tb)"
    "sint (rt_poolStart tb + h mod rt_poolSize tb) < sint (rt_totalPartitions tb)"
    unfolding add using ok m by linarith+
qed

lemma range_of_bounds:
  assumes "table_live tb" "range_of tb t = Some r"
  shows "0 \<le> sint (pr_start r)" "1 \<le> sint (pr_size r)" "sint (pr_start r) + sint (pr_size r) \<le> sint (rt_totalPartitions tb)"
proof -
  have ok: "0 \<le> sint (rt_poolStart tb)" "sint (rt_poolStart tb) \<le> sint (rt_poolNext tb)" "sint (rt_poolNext tb) \<le> sint (rt_totalPartitions tb)"
    "ranges_in 0 (sint (rt_poolStart tb)) (rt_explicit tb)"
    "ranges_in (sint (rt_poolStart tb)) (sint (rt_poolNext tb)) (rt_pool tb)"
    using assms(1) by (auto simp: table_live_def table_ok_def)
  have "0 \<le> sint (pr_start r) \<and> 1 \<le> sint (pr_size r) \<and> sint (pr_start r) + sint (pr_size r) \<le> sint (rt_totalPartitions tb)"
  proof (cases "rt_explicit tb t")
    case (Some r')
    then show ?thesis using assms(2) ok unfolding range_of_def ranges_in_def by fastforce
  next
    case ex: None
    show ?thesis
    proof (cases "rt_pool tb t")
      case (Some r')
      then show ?thesis using ex assms(2) ok unfolding range_of_def ranges_in_def by fastforce
    next
      case None
      then show ?thesis using ex assms(2) ok fallback_range [OF assms(1), of "hashBytes t"]
        by (auto simp: range_of_def split: if_splits)
    qed
  qed
  then show "0 \<le> sint (pr_start r)" "1 \<le> sint (pr_size r)" "sint (pr_start r) + sint (pr_size r) \<le> sint (rt_totalPartitions tb)"
    by auto
qed

text \<open>Assigning the next block of the pool keeps a table live.\<close>

lemma assign_live:
  fixes obs :: "(string \<times> partitionRange) list"
  assumes live: "table_live tb" and new: "rt_explicit tb t = None" "rt_pool tb t = None"
    and n: "1 \<le> sint n" "sint n \<le> sint (rt_defaultSize tb)"
      "sint (rt_poolNext tb) + sint n \<le> sint (rt_totalPartitions tb)"
  defines "rng \<equiv> \<lparr>pr_start = rt_poolNext tb, pr_size = n\<rparr>"
  defines "tb' \<equiv> tb\<lparr>rt_poolNext := rt_poolNext tb + n, rt_pool := (rt_pool tb)(t \<mapsto> rng), rt_observed := obs\<rparr>"
  shows "table_live tb' \<and> table_le tb tb' \<and> range_of tb' t = Some rng"
proof -
  have ok: "table_ok tb" "finite (dom (rt_pool tb))" using live by (auto simp: table_live_def)
  have "is_int32 (sint (rt_poolNext tb) + sint n)"
    unfolding is_int32_def using ok n sint32_range [of "rt_totalPartitions tb"] unfolding table_ok_def by linarith
  then have add: "sint (rt_poolNext tb + n) = sint (rt_poolNext tb) + sint n" by (rule sint32_add)
  have pool: "ranges_in (sint (rt_poolStart tb)) (sint (rt_poolNext tb)) (rt_pool tb)" "ranges_disjoint (rt_pool tb)"
    "sint (rt_poolStart tb) \<le> sint (rt_poolNext tb)"
    using ok by (auto simp: table_ok_def)
  have "ranges_in (sint (rt_poolStart tb)) (sint (rt_poolNext tb + n)) ((rt_pool tb)(t \<mapsto> rng))"
    using pool n add by (intro ranges_in_upd [OF pool(1)]) (auto simp: rng_def)
  moreover have "ranges_disjoint ((rt_pool tb)(t \<mapsto> rng))"
    using pool by (intro ranges_disjoint_upd [OF pool(2,1)]) (auto simp: rng_def)
  ultimately have "table_ok tb'" using ok n add unfolding table_ok_def tb'_def by simp
  moreover have "t \<notin> dom (rt_pool tb)" using new by auto
  then have "int (card (dom (rt_pool tb'))) = int (card (dom (rt_pool tb))) + 1" using ok(2) by (simp add: tb'_def)
  then have "sint (rt_poolNext tb') \<le> sint (rt_poolStart tb') + int (card (dom (rt_pool tb'))) * sint (rt_defaultSize tb')"
    using live n add by (simp add: table_live_def tb'_def distrib_right)
  ultimately have "table_live tb'" using live by (simp add: table_live_def tb'_def)
  moreover have "rt_poolNext tb \<noteq> rt_totalPartitions tb" using n by (auto simp: sint32_eq_iff)
  then have "table_le tb tb'" using new by (auto simp: table_le_def range_of_def tb'_def split: option.splits)
  ultimately show ?thesis using new by (simp add: range_of_def tb'_def)
qed

lemma poolRangeFor_live:
  assumes live: "table_live tb" and new: "rt_explicit tb t = None"
  shows "\<exists>rng tb'. poolRangeFor tb t = Some (rng, tb') \<and> table_live tb' \<and> table_le tb tb' \<and> range_of tb' t = Some rng
    \<and> dom (rt_pool tb') \<subseteq> insert t (dom (rt_pool tb))"
proof (cases "rt_pool tb t")
  case (Some rng)
  then show ?thesis using assms by (auto simp: poolRangeFor_def range_of_def)
next
  case None
  have ok: "table_ok tb" "1 \<le> sint (rt_poolSize tb)" using live by (auto simp: table_live_def)
  define rem where "rem = rt_poolStart tb + rt_poolSize tb - rt_poolNext tb"
  have "is_int32 (sint (rt_poolStart tb) + sint (rt_poolSize tb))"
    using ok sint32_range [of "rt_totalPartitions tb"] by (simp add: table_ok_def is_int32_def)
  then have T: "rt_poolStart tb + rt_poolSize tb = rt_totalPartitions tb"
    unfolding sint32_eq_iff using ok by (simp add: sint32_add table_ok_def)
  have "is_int32 (sint (rt_totalPartitions tb) - sint (rt_poolNext tb))"
    using ok sint32_range [of "rt_totalPartitions tb"] unfolding table_ok_def is_int32_def by linarith
  then have rem: "sint rem = sint (rt_totalPartitions tb) - sint (rt_poolNext tb)" unfolding rem_def T by (rule sint32_diff)
  define n where "n = (if sint (rt_defaultSize tb) > sint rem then rem else rt_defaultSize tb)"
  have d1: "1 \<le> sint (rt_defaultSize tb)" using ok by (simp add: table_ok_def)
  note eq = poolRangeFor_def [of tb t, unfolded None option.case Let_def, folded rem_def, folded n_def]
  show ?thesis
  proof (cases "sint n \<le> 0")
    case True
    then have "rt_poolNext tb = rt_totalPartitions tb"
      using ok rem d1 by (auto simp: n_def table_ok_def sint32_eq_iff split: if_splits)
    then show ?thesis using eq True live new None by (auto simp: mod_uint32_some [OF ok(2)] range_of_def)
  next
    case False
    then show ?thesis
      using eq assign_live [OF live new None, of n "rt_observed tb @ [(t, \<lparr>pr_start = rt_poolNext tb, pr_size = n\<rparr>)]"] rem
      by (auto simp: n_def split: if_splits)
  qed
qed

text \<open>The partition at which an instrument lies in a range.\<close>

definition place :: "partitionRange \<Rightarrow> string \<Rightarrow> int32" where
  "place r i = pr_start r + hashBytes i mod pr_size r"

lemma place_in_range:
  assumes "0 \<le> sint (pr_start r)" "1 \<le> sint (pr_size r)" "sint (pr_start r) + sint (pr_size r) \<le> max_int32"
  shows "sint (place r i) \<in> range_set r"
proof -
  note m = sint32_mod [OF assms(2), of "hashBytes i"]
  have "is_int32 (sint (pr_start r) + sint (hashBytes i mod pr_size r))" unfolding is_int32_def using assms m by linarith
  then have "sint (place r i) = sint (pr_start r) + sint (hashBytes i mod pr_size r)" unfolding place_def by (rule sint32_add)
  then show ?thesis using m by (simp add: range_set_def)
qed

lemma partitionFor_live:
  assumes "table_live tb"
  shows "\<exists>rng tb'. partitionFor tb t i = Some (place rng i, tb') \<and> table_live tb' \<and> table_le tb tb' \<and> range_of tb' t = Some rng
    \<and> dom (rt_pool tb') \<subseteq> dom (rt_pool tb) \<union> ({t} - dom (rt_explicit tb))"
proof (cases "rt_explicit tb t")
  case (Some rng)
  then have r: "range_of tb t = Some rng" by (simp add: range_of_def)
  then show ?thesis using Some assms mod_uint32_some [OF range_of_bounds(2) [OF assms r]] by (auto simp: partitionFor_def place_def)
next
  case None
  then obtain rng tb' where tb': "poolRangeFor tb t = Some (rng, tb')" "table_live tb'" "table_le tb tb'" "range_of tb' t = Some rng"
    "dom (rt_pool tb') \<subseteq> insert t (dom (rt_pool tb))"
    using poolRangeFor_live [OF assms] by blast
  then show ?thesis using None mod_uint32_some [OF range_of_bounds(2) [OF tb'(2,4)]] by (auto simp: partitionFor_def place_def)
qed

section \<open>A topic in use\<close>

text \<open>The records of one topic, published in order under one reservation config and partition count.\<close>

fun publish_all :: "tenantPartitionerState \<Rightarrow> int \<Rightarrow> (string \<times> string) list \<Rightarrow> tenantTopicPartitioner \<Rightarrow> (int list \<times> tenantTopicPartitioner) option" where
  "publish_all shared parts [] part = Some ([], part)"
| "publish_all shared parts ((t, i) # rs) part =
     (case Partition shared (partitionKey t i) parts part of
        None \<Rightarrow> None
      | Some (p, part') \<Rightarrow> map_option (\<lambda>(ps, part''). (p # ps, part'')) (publish_all shared parts rs part'))"

text \<open>The table the config calls for, and a partitioner that has to build it on its next call.\<close>

definition table_for :: "tenantPartitionerState \<Rightarrow> int \<Rightarrow> reservationTable" where
  "table_for shared parts = newReservationTable (ps_reserved shared) (ps_defaultSize shared) (word_of_int parts)"

definition stale :: "tenantPartitionerState \<Rightarrow> int \<Rightarrow> tenantTopicPartitioner \<Rightarrow> bool" where
  "stale shared parts part \<longleftrightarrow> (case tp_table part of None \<Rightarrow> True
     | Some tb \<Rightarrow> map_option ps_pointer (tp_state part) \<noteq> Some (ps_pointer shared) \<or> rt_totalPartitions tb \<noteq> word_of_int parts)"

definition settled_on :: "tenantPartitionerState \<Rightarrow> int \<Rightarrow> reservationTable \<Rightarrow> tenantTopicPartitioner \<Rightarrow> bool" where
  "settled_on shared parts tb part \<longleftrightarrow> tp_table part = Some tb \<and> tp_state part = Some shared \<and> rt_totalPartitions tb = word_of_int parts"

text \<open>The config is one the partitioner can honour: at least two partitions and no absurd size.\<close>

definition config_ok :: "tenantPartitionerState \<Rightarrow> int \<Rightarrow> bool" where
  "config_ok shared parts \<longleftrightarrow> 2 \<le> parts \<and> parts \<le> max_int32 \<and> (\<forall>(t, n) \<in> set (ps_reserved shared). sint n + parts \<le> max_int32)"

definition keys_ok :: "(string \<times> string) list \<Rightarrow> bool" where
  "keys_ok rs \<longleftrightarrow> list_all (\<lambda>(t, i). CHR '':'' \<notin> set t) rs"

lemma splitPartitionKey_key: "CHR '':'' \<notin> set t \<Longrightarrow> splitPartitionKey (partitionKey t i) = (t, i)"
  by (simp add: splitPartitionKey_def partitionKey_def bytes_IndexByte_def golib)

lemma table_for_live:
  assumes "config_ok shared parts"
  shows "table_live (table_for shared parts)" "rt_totalPartitions (table_for shared parts) = word_of_int parts"
    "sint (word_of_int parts :: int32) = parts" "rt_pool (table_for shared parts) = Map.empty"
proof -
  show parts: "sint (word_of_int parts :: int32) = parts" using assms by (simp add: config_ok_def word_simps is_int32_def)
  then have "sizes_fit (ps_reserved shared) (word_of_int parts)" "1 < sint (word_of_int parts :: int32)"
    using assms by (auto simp: config_ok_def sizes_fit_def)
  note nt = newReservationTable_ok [OF this(1), of "ps_defaultSize shared", folded table_for_def]
  have t: "table_ok (table_for shared parts)" "1 \<le> sint (rt_poolSize (table_for shared parts))"
    using nt \<open>1 < sint (word_of_int parts :: int32)\<close> by auto
  show r: "rt_totalPartitions (table_for shared parts) = word_of_int parts" "rt_pool (table_for shared parts) = Map.empty"
    using nt \<open>1 < sint (word_of_int parts :: int32)\<close> by auto
  have "rt_poolNext (table_for shared parts) = rt_poolStart (table_for shared parts)"
    by (simp add: table_for_def newReservationTable_def Let_def split: prod.splits)
  then show "table_live (table_for shared parts)" using t r by (simp add: table_live_def)
qed

lemma Partition_settled:
  assumes "settled_on shared parts tb part" "table_live tb" "CHR '':'' \<notin> set t"
  shows "\<exists>rng tb' part'. Partition shared (partitionKey t i) parts part = Some (sint (place rng i), part')
    \<and> settled_on shared parts tb' part' \<and> table_live tb' \<and> table_le tb tb' \<and> range_of tb' t = Some rng
    \<and> dom (rt_pool tb') \<subseteq> dom (rt_pool tb) \<union> ({t} - dom (rt_explicit tb))"
proof -
  obtain rng tb' where tb': "partitionFor tb t i = Some (place rng i, tb')" "table_live tb'" "table_le tb tb'"
    "range_of tb' t = Some rng" "dom (rt_pool tb') \<subseteq> dom (rt_pool tb) \<union> ({t} - dom (rt_explicit tb))"
    using partitionFor_live [OF assms(2)] by blast
  have "rebuild shared parts part = (tb, part)" using assms(1) by (simp add: settled_on_def rebuild_def)
  then have "Partition shared (partitionKey t i) parts part = Some (sint (place rng i), part\<lparr>tp_table := Some tb'\<rparr>)"
    using tb'(1) assms(3) by (simp add: Partition_def splitPartitionKey_key)
  moreover have "settled_on shared parts tb' (part\<lparr>tp_table := Some tb'\<rparr>)"
    using assms(1) tb'(3) by (simp add: settled_on_def table_le_def)
  ultimately show ?thesis using tb' by blast
qed

text \<open>Every record of a run lies where the table at the end of the run places it.\<close>

lemma publish_all_settled:
  assumes "settled_on shared parts tb part" "table_live tb" "keys_ok rs"
  shows "\<exists>ps tb' part'. publish_all shared parts rs part = Some (ps, part') \<and> table_live tb' \<and> table_le tb tb'
    \<and> list_all2 (\<lambda>(t, i) p. \<exists>r. range_of tb' t = Some r \<and> p = sint (place r i)) rs ps
    \<and> dom (rt_pool tb') \<subseteq> dom (rt_pool tb) \<union> (fst ` set rs - dom (rt_explicit tb))
    \<and> settled_on shared parts tb' part'"
  using assms
proof (induction rs arbitrary: tb part)
  case Nil
  then show ?case by auto
next
  case (Cons x rs)
  obtain t i where x: "x = (t, i)" by fastforce
  have "CHR '':'' \<notin> set t" "keys_ok rs" using Cons.prems(3) by (simp_all add: keys_ok_def x)
  obtain rng tb1 part1 where one: "Partition shared (partitionKey t i) parts part = Some (sint (place rng i), part1)"
    "settled_on shared parts tb1 part1" "table_live tb1" "table_le tb tb1" "range_of tb1 t = Some rng"
    "dom (rt_pool tb1) \<subseteq> dom (rt_pool tb) \<union> ({t} - dom (rt_explicit tb))"
    using Partition_settled [OF Cons.prems(1,2) \<open>CHR '':'' \<notin> set t\<close>] by blast
  obtain ps tb' part' where rest: "publish_all shared parts rs part1 = Some (ps, part')" "table_live tb'" "table_le tb1 tb'"
    "list_all2 (\<lambda>(t, i) p. \<exists>r. range_of tb' t = Some r \<and> p = sint (place r i)) rs ps"
    "dom (rt_pool tb') \<subseteq> dom (rt_pool tb1) \<union> (fst ` set rs - dom (rt_explicit tb1))" "settled_on shared parts tb' part'"
    using Cons.IH [OF one(2,3) \<open>keys_ok rs\<close>] by blast
  have "rt_explicit tb1 = rt_explicit tb" "range_of tb' t = Some rng"
    using one rest by (auto simp: table_le_def)
  moreover from this(1) have "dom (rt_pool tb') \<subseteq> dom (rt_pool tb) \<union> (fst ` set (x # rs) - dom (rt_explicit tb))"
    using one(6) rest(5) unfolding x by simp blast
  ultimately show ?case
    using one(1) rest(1,2,4,6) table_le_trans [OF one(4) rest(3)]
    by (intro exI [of _ "sint (place rng i) # ps"] exI [of _ tb'] exI [of _ part'] conjI) (simp_all add: x)
qed

text \<open>A partitioner that has to rebuild behaves like one that has just built the table the config calls for.\<close>

lemma stale_rebuilt:
  assumes "stale shared parts part" "config_ok shared parts" "rs \<noteq> []"
  obtains part0 where "settled_on shared parts (table_for shared parts) part0"
    "publish_all shared parts rs part = publish_all shared parts rs part0"
proof -
  define part0 where "part0 = snd (rebuild shared parts part)"
  have re: "rebuild shared parts part = (table_for shared parts, part0)"
    using assms(1) by (auto simp: part0_def stale_def rebuild_def table_for_def Let_def split: option.splits)
  have st: "settled_on shared parts (table_for shared parts) part0"
    using assms(1) table_for_live(2) [OF assms(2)]
    by (auto simp: settled_on_def part0_def stale_def rebuild_def table_for_def Let_def split: option.splits)
  then have "rebuild shared parts part0 = (table_for shared parts, part0)" by (simp add: settled_on_def rebuild_def)
  moreover obtain x rs' where "rs = x # rs'" using assms(3) by (cases rs) auto
  ultimately have "publish_all shared parts rs part = publish_all shared parts rs part0"
    using re by (cases x) (simp add: Partition_def)
  then show thesis using that st by blast
qed

lemma publish_all_stale:
  assumes "stale shared parts part" "config_ok shared parts" "keys_ok rs"
  shows "\<exists>ps tb' part'. publish_all shared parts rs part = Some (ps, part') \<and> table_live tb' \<and> table_le (table_for shared parts) tb'
    \<and> list_all2 (\<lambda>(t, i) p. \<exists>r. range_of tb' t = Some r \<and> p = sint (place r i)) rs ps
    \<and> dom (rt_pool tb') \<subseteq> fst ` set rs - dom (rt_explicit (table_for shared parts))
    \<and> (rs \<noteq> [] \<longrightarrow> settled_on shared parts tb' part')"
proof (cases "rs = []")
  case True
  then show ?thesis using table_for_live [OF assms(2)] by (auto intro!: exI [of _ "table_for shared parts"])
next
  case False
  obtain part0 where st: "settled_on shared parts (table_for shared parts) part0"
    "publish_all shared parts rs part = publish_all shared parts rs part0"
    using stale_rebuilt [OF assms(1,2) False] .
  then show ?thesis using publish_all_settled [OF st(1) table_for_live(1) [OF assms(2)] assms(3)] table_for_live(4) [OF assms(2)] by auto
qed

lemma range_of_disjoint:
  assumes live: "table_live tb" and r: "range_of tb t = Some r" "range_of tb u = Some s" and ne: "t \<noteq> u"
    and own: "t \<in> dom (rt_explicit tb) \<or> {t, u} - dom (rt_explicit tb) \<subseteq> dom (rt_pool tb)"
  shows "range_set r \<inter> range_set s = {}"
proof -
  have ok: "ranges_disjoint (rt_explicit tb)" "ranges_disjoint (rt_pool tb)"
    "ranges_in 0 (sint (rt_poolStart tb)) (rt_explicit tb)" "ranges_in (sint (rt_poolStart tb)) (sint (rt_poolNext tb)) (rt_pool tb)"
    using live by (auto simp: table_live_def table_ok_def)
  have low: "rt_explicit tb v = Some q \<Longrightarrow> range_set q \<subseteq> {..< sint (rt_poolStart tb)}" for v q
    using ok(3) by (force simp: ranges_in_def range_set_def)
  have high: "range_set q \<subseteq> {sint (rt_poolStart tb) ..}" if "range_of tb v = Some q" "rt_explicit tb v = None" for v q
    using that ok(4) fallback_range(2) [OF live, of "hashBytes v"]
    by (fastforce simp: range_of_def ranges_in_def range_set_def split: option.splits if_splits)
  show ?thesis
  proof (cases "rt_explicit tb t")
    case t: (Some r')
    then have "r' = r" using r by (simp add: range_of_def)
    then show ?thesis
      using t r ok(1) ne low [of t r] high [of u s] by (cases "rt_explicit tb u") (fastforce simp: range_of_def ranges_disjoint_def)+
  next
    case t: None
    show ?thesis
    proof (cases "rt_explicit tb u")
      case (Some s')
      then show ?thesis using t r low [of u s'] high [of t r] by (fastforce simp: range_of_def)
    next
      case None
      then obtain r' s' where "rt_pool tb t = Some r'" "rt_pool tb u = Some s'" using own t by fastforce
      then show ?thesis using t None r ok(2) ne by (simp add: range_of_def ranges_disjoint_def)
    qed
  qed
qed

text \<open>While the unreserved tenants seen fit the pool, each of them holds a block of it.\<close>

lemma pool_not_exhausted:
  assumes live: "table_live tb" and t: "range_of tb t = Some r" "rt_explicit tb t = None" "t \<in> U"
    and U: "finite U" "dom (rt_pool tb) \<subseteq> U" "(int (card U) - 1) * sint (rt_defaultSize tb) < sint (rt_poolSize tb)"
  shows "t \<in> dom (rt_pool tb)"
proof (rule ccontr)
  assume new: "t \<notin> dom (rt_pool tb)"
  then have full: "rt_poolNext tb = rt_totalPartitions tb" using t by (auto simp: range_of_def split: option.splits if_splits)
  have "card (dom (rt_pool tb)) \<le> card (U - {t})" using new U by (intro card_mono) auto
  then have "int (card (dom (rt_pool tb))) \<le> int (card U) - 1" using t(3) U(1) by (cases "card U") auto
  moreover have "1 \<le> sint (rt_defaultSize tb)" using live by (simp add: table_live_def table_ok_def)
  ultimately have "int (card (dom (rt_pool tb))) * sint (rt_defaultSize tb) \<le> (int (card U) - 1) * sint (rt_defaultSize tb)"
    by (intro mult_right_mono) auto
  then show False using live full U(3) by (simp add: table_live_def table_ok_def)
qed

section \<open>The layout of the reserved ranges\<close>

text \<open>The number of partitions a tenant's entry asks for.\<close>

definition asked :: "TenantPartitionConfig \<Rightarrow> string \<Rightarrow> int" where
  "asked reserved t = max 1 (sint (reserved_size reserved t))"

lemma asked_ge_1: "1 \<le> asked reserved t"
  by (simp add: asked_def)

lemma carve_size_asked:
  assumes "0 \<le> sint cursor" "sint cursor + asked reserved t \<le> sint cap"
  shows "sint (carve_size reserved cap cursor t) = asked reserved t"
    "sint (cursor + carve_size reserved cap cursor t) = sint cursor + asked reserved t"
proof -
  define n where "n = (if sint (reserved_size reserved t) < 1 then 1 else reserved_size reserved t)"
  have n: "sint n = asked reserved t" by (simp add: n_def asked_def)
  have "is_int32 (sint cursor + sint n)"
    unfolding is_int32_def n using assms asked_ge_1 [of reserved t] sint32_range [of cap] by linarith
  then have add: "sint (cursor + n) = sint cursor + sint n" by (rule sint32_add)
  then have "carve_size reserved cap cursor t = n"
    using assms(2) by (simp add: carve_size_def Let_def n_def [symmetric] n)
  then show "sint (carve_size reserved cap cursor t) = asked reserved t"
    "sint (cursor + carve_size reserved cap cursor t) = sint cursor + asked reserved t"
    using n add by simp_all
qed

lemma filter_less_sorted:
  "sorted (x # xs) \<Longrightarrow> distinct (x # xs) \<Longrightarrow> t \<in> set xs \<Longrightarrow> filter (\<lambda>u. u < t) (x # xs) = x # filter (\<lambda>u. u < t) xs"
  "sorted (x # xs) \<Longrightarrow> filter (\<lambda>u. u < x) (x # xs) = []"
  for x :: "'a :: linorder"
  by (force simp: order.strict_iff_order) (force simp: filter_empty_conv)

lemma carve_layout:
  assumes "sorted ts" "distinct ts" "0 \<le> sint cursor" "sint cursor + sum_list (map (asked reserved) ts) \<le> sint cap"
  shows "\<exists>ex cur. carve reserved cap ts cursor = (ex, cur, [])
    \<and> (\<forall>t \<in> set ts. \<exists>r. map_of ex t = Some r \<and> sint (pr_size r) = asked reserved t
         \<and> sint (pr_start r) = sint cursor + sum_list (map (asked reserved) (filter (\<lambda>u. u < t) ts)))"
  using assms
proof (induction ts arbitrary: cursor)
  case (Cons x ts)
  define n where "n = carve_size reserved cap cursor x"
  have rest: "0 \<le> sum_list (map (asked reserved) ts)"
    by (rule sum_list_nonneg) (auto intro: order_trans [OF _ asked_ge_1])
  have n: "sint n = asked reserved x" "sint (cursor + n) = sint cursor + asked reserved x"
    unfolding n_def using Cons.prems(3,4) rest by (auto intro!: carve_size_asked)
  obtain ex cur where ih: "carve reserved cap ts (cursor + n) = (ex, cur, [])"
    "\<forall>t \<in> set ts. \<exists>r. map_of ex t = Some r \<and> sint (pr_size r) = asked reserved t
         \<and> sint (pr_start r) = sint (cursor + n) + sum_list (map (asked reserved) (filter (\<lambda>u. u < t) ts))"
    using Cons.IH [of "cursor + n"] Cons.prems n asked_ge_1 [of reserved x] by auto
  have "\<not> sint cursor \<ge> sint cap" using Cons.prems(4) rest asked_ge_1 [of reserved x] by simp
  then have c: "carve reserved cap (x # ts) cursor = ((x, \<lparr>pr_start = cursor, pr_size = n\<rparr>) # ex, cur, [])"
    unfolding carve_Cons n_def [symmetric] by (simp add: Let_def ih(1))
  have "\<exists>r. map_of ((x, \<lparr>pr_start = cursor, pr_size = n\<rparr>) # ex) t = Some r \<and> sint (pr_size r) = asked reserved t
         \<and> sint (pr_start r) = sint cursor + sum_list (map (asked reserved) (filter (\<lambda>u. u < t) (x # ts)))"
    if "t \<in> set (x # ts)" for t
  proof (cases "t = x")
    case True
    show ?thesis unfolding True filter_less_sorted(2) [OF Cons.prems(1)] using n by simp
  next
    case False
    then have "t \<in> set ts" using that by simp
    then show ?thesis unfolding filter_less_sorted(1) [OF Cons.prems(1,2) \<open>t \<in> set ts\<close>] using ih(2) False n by auto
  qed
  with c show ?case by blast
qed auto

section \<open>Properties\<close>


text \<open>
  C9. Tenant isolation: two records of different tenants never share a partition, provided one of
  the two tenants holds a reserved range, or the unreserved tenants seen so far fit the pool in
  blocks of the default size (the last block may be cut short).
\<close>

theorem publish_isolated:
  assumes "stale shared parts part" "config_ok shared parts" "keys_ok rs" "publish_all shared parts rs part = Some (ps, part')"
    and jk: "j < length rs" "k < length rs" "fst (rs ! j) \<noteq> fst (rs ! k)"
  defines "tb \<equiv> table_for shared parts"
  assumes own: "fst (rs ! j) \<in> dom (rt_explicit tb)
    \<or> (int (card (fst ` set rs - dom (rt_explicit tb))) - 1) * sint (rt_defaultSize tb) < sint (rt_poolSize tb)"
  shows "ps ! j \<noteq> ps ! k"
proof -
  obtain tb' where run: "table_live tb'" "table_le tb tb'" "dom (rt_pool tb') \<subseteq> fst ` set rs - dom (rt_explicit tb)"
    and at: "list_all2 (\<lambda>(t, i) p. \<exists>r. range_of tb' t = Some r \<and> p = sint (place r i)) rs ps"
    using publish_all_stale [OF assms(1-3)] assms(4) unfolding tb_def by auto
  have same: "rt_explicit tb' = rt_explicit tb" "rt_defaultSize tb' = rt_defaultSize tb" "rt_poolSize tb' = rt_poolSize tb"
    "sint (rt_totalPartitions tb') \<le> max_int32"
    using run(2) sint32_range by (auto simp: table_le_def)
  have loc: "\<exists>r. range_of tb' (fst (rs ! n)) = Some r \<and> ps ! n \<in> range_set r" if n: "n < length rs" for n
  proof -
    obtain r where r: "range_of tb' (fst (rs ! n)) = Some r" "ps ! n = sint (place r (snd (rs ! n)))"
      using list_all2_nthD [OF at n] by (auto simp: case_prod_unfold)
    then show ?thesis using range_of_bounds [OF run(1) r(1)] same(4) by (auto intro!: place_in_range)
  qed
  obtain r s where r: "range_of tb' (fst (rs ! j)) = Some r" "ps ! j \<in> range_set r"
    and s: "range_of tb' (fst (rs ! k)) = Some s" "ps ! k \<in> range_set s"
    using loc [OF jk(1)] loc [OF jk(2)] by blast
  have "n < length rs \<Longrightarrow> fst (rs ! n) \<notin> dom (rt_explicit tb) \<Longrightarrow> fst (rs ! j) \<notin> dom (rt_explicit tb) \<Longrightarrow> fst (rs ! n) \<in> dom (rt_pool tb')" for n
    using pool_not_exhausted [OF run(1), of "fst (rs ! n)" _ "fst ` set rs - dom (rt_explicit tb)"] run(3) own loc [of n]
    unfolding same by (auto simp: domIff)
  then have "range_set r \<inter> range_set s = {}"
    using range_of_disjoint [OF run(1) r(1) s(1) jk(3)] jk(1,2) unfolding same by blast
  then show ?thesis using r(2) s(2) by auto
qed

text \<open>
  A config that fits the topic (all but one partition) is honoured in full: no tenant is dropped,
  and each reserved tenant gets exactly the number of partitions it asked for, right after the
  partitions of the tenants whose ids sort before it. The layout depends on the config's entries
  only, not on the order in which the map is ranged over.
\<close>

theorem reservations_honoured:
  fixes dsize :: int32
  assumes "distinct (map fst reserved)" "2 \<le> sint parts" "sum_list (map (asked reserved) (map fst reserved)) < sint parts"
  defines "tb \<equiv> newReservationTable reserved dsize parts"
  shows "rt_droppedTenants tb = [] \<and> (\<forall>t \<in> set (map fst reserved). \<exists>r. rt_explicit tb t = Some r
     \<and> sint (pr_size r) = asked reserved t
     \<and> sint (pr_start r) = sum_list (map (asked reserved) (filter (\<lambda>u. u < t) (map fst reserved))))"
proof -
  define ids where "ids = map fst reserved"
  have perm: "sum_list (map (asked reserved) (filter P (sort ids))) = sum_list (map (asked reserved) (filter P ids))" for P
    unfolding sum_mset_sum_list [symmetric] mset_map mset_filter mset_sort ..
  have "sint (parts - 1) = sint parts - 1" using assms(2) sint32_diff [of parts 1] sint32_range [of parts] by (simp add: is_int32_def)
  then have "0 + sum_list (map (asked reserved) (sort ids)) \<le> sint (parts - 1)"
    using assms(3) perm [of "\<lambda>_. True"] by (simp add: ids_def)
  then obtain ex cur where c: "carve reserved (parts - 1) (sort ids) 0 = (ex, cur, [])"
    "\<forall>t \<in> set (sort ids). \<exists>r. map_of ex t = Some r \<and> sint (pr_size r) = asked reserved t
         \<and> sint (pr_start r) = 0 + sum_list (map (asked reserved) (filter (\<lambda>u. u < t) (sort ids)))"
    using carve_layout [of "sort ids" 0 reserved "parts - 1"] assms(1) unfolding ids_def by fastforce
  have "rt_explicit tb = map_of ex" "rt_droppedTenants tb = []"
    using assms(2) c(1) by (simp_all add: tb_def newReservationTable_def Let_def ids_def)
  then show ?thesis using c(2) by (simp add: perm ids_def [symmetric])
qed

text \<open>
  C39. With a single partition and any reservation, a record of an unreserved tenant makes the
  partitioner divide by zero: the reserved tenant takes the only partition, the pool has size 0, and
  \<open>poolRangeFor\<close> takes a hash modulo the size of the pool. The comment in \<open>newReservationTable\<close> says
  that the two share the partition.
\<close>

theorem single_partition_panics:
  assumes "stale shared 1 part" "ps_reserved shared \<noteq> []" "u \<notin> fst ` set (ps_reserved shared)" "CHR '':'' \<notin> set u"
  shows "Partition shared (partitionKey u i) 1 part = None"
proof -
  obtain x xs where ids: "sort (map fst (ps_reserved shared)) = x # xs"
    using assms(2) by (metis length_0_conv length_sort list.exhaust list.map_disc_iff)
  have "x \<in> set (sort (map fst (ps_reserved shared)))" by (simp add: ids)
  then have "u \<noteq> x" using assms(3) by auto
  have size: "carve_size (ps_reserved shared) 1 0 x = 1"
    by (auto simp: carve_size_def Let_def sint32_eq_iff)
  have "carve (ps_reserved shared) 1 xs 1 = ([], 1, xs)" by (cases xs) simp_all
  then have "carve (ps_reserved shared) 1 (x # xs) 0 = ([(x, \<lparr>pr_start = 0, pr_size = 1\<rparr>)], 1, xs)"
    unfolding carve_Cons size by (simp add: Let_def)
  then have "partitionFor (table_for shared 1) u i = None"
    using ids \<open>u \<noteq> x\<close>
    by (simp add: table_for_def newReservationTable_def partitionFor_def poolRangeFor_def Let_def mod_uint32_def
        DefaultPartitionsPerTenant_def del: carve.simps)
  moreover have "fst (rebuild shared 1 part) = table_for shared 1"
    using assms(1) by (auto simp: stale_def rebuild_def table_for_def Let_def split: option.splits)
  ultimately show ?thesis
    using assms(4) by (simp add: Partition_def splitPartitionKey_key case_prod_unfold)
qed

text \<open>
  The range of an unreserved tenant depends on the order in which tenants are first seen and on
  when the table was last rebuilt, so two producers, or one before and after a reload, place the
  same tenant and instrument on different partitions.
\<close>

theorem pool_order_dependent:
  "map_option fst (publish_all (newTenantPartitioner [] 1) 3 [(''a'', ''X''), (''b'', ''X'')] ForTopic) = Some [0, 1]
   \<and> map_option fst (publish_all (newTenantPartitioner [] 1) 3 [(''b'', ''X''), (''a'', ''X'')] ForTopic) = Some [0, 1]
   \<and> map_option (\<lambda>(ps, part). map_option fst (publish_all (updateReservations [(''c'', 1)] 1 (newTenantPartitioner [] 1)) 3 [(''a'', ''X'')] part))
     (publish_all (newTenantPartitioner [] 1) 3 [(''a'', ''X'')] ForTopic) = Some (Some [1])"
  by (simp add: newTenantPartitioner_def updateReservations_def ForTopic_def Partition_def rebuild_def newReservationTable_def
      splitPartitionKey_key partitionFor_def poolRangeFor_def mod_uint32_def reserved_size_def Let_def del: map_option_eq_Some)

text \<open>
  A reservation close to the largest \<open>int32\<close> passes the check against the capacity because the sum
  wraps around: the tenant gets a range far beyond the topic and the pool starts below zero.
\<close>

lemma large_reservation_wraps:
  "rt_explicit (newReservationTable [(''a'', 1), (''b'', 2147483647)] 1 4) ''b'' = Some \<lparr>pr_start = 1, pr_size = 2147483647\<rparr>"
  "sint (rt_poolStart (newReservationTable [(''a'', 1), (''b'', 2147483647)] 1 4)) = - 2147483648"
  by (simp_all add: newReservationTable_def reserved_size_def)

subsection \<open>Witnesses\<close>

definition demo_shared :: tenantPartitionerState where
  "demo_shared = newTenantPartitioner [(''acme'', 2)] 1"

definition demo_records :: "(string \<times> string) list" where
  "demo_records = [(''acme'', ''AAPL''), (''beta'', ''AAPL''), (''acme'', ''AAPL'')]"

lemma demo_partitioner:
  "stale shared parts ForTopic" "config_ok demo_shared 6" "keys_ok demo_records"
  "''acme'' \<in> dom (rt_explicit (table_for demo_shared 6))"
  by (simp_all add: stale_def ForTopic_def config_ok_def demo_shared_def newTenantPartitioner_def keys_ok_def demo_records_def
      table_for_def newReservationTable_def reserved_size_def)


theorem publish_isolated_witness:
  "\<exists>ps part'. publish_all demo_shared 6 demo_records ForTopic = Some (ps, part') \<and> ps ! 0 \<noteq> ps ! 1"
proof -
  obtain ps part' where run: "publish_all demo_shared 6 demo_records ForTopic = Some (ps, part')"
    using publish_all_stale [OF demo_partitioner(1-3)] by blast
  have "ps ! 0 \<noteq> ps ! 1"
    by (rule publish_isolated [OF demo_partitioner(1-3) run]) (use demo_partitioner(4) in \<open>simp_all add: demo_records_def\<close>)
  with run show ?thesis by blast
qed

theorem reservations_honoured_witness:
  "rt_droppedTenants (newReservationTable [(''b'', 3), (''a'', 2)] 1 8) = []
   \<and> (\<exists>r. rt_explicit (newReservationTable [(''b'', 3), (''a'', 2)] 1 8) ''b'' = Some r \<and> sint (pr_size r) = 3 \<and> sint (pr_start r) = 2)"
  using reservations_honoured [of "[(''b'', 3), (''a'', 2)]" 8 1] by (simp add: asked_def reserved_size_def)

theorem single_partition_panics_witness:
  "Partition (newTenantPartitioner [(''acme'', 1)] 1) (partitionKey ''beta'' ''AAPL'') 1 ForTopic = None"
  by (rule single_partition_panics) (simp_all add: demo_partitioner(1) newTenantPartitioner_def)

end
