(* ===== verification/GoFloat.thy ===== *)
theory GoFloat
  imports Complex_Main Prelude
begin

text \<open>
  Go's \<open>float64\<close>: a finite value is the rational it denotes, results are rounded to the nearest
  binary64 value (ties to even, gradual underflow, overflow to infinity). Negative zero is identified
  with zero; no source tells them apart. The operations are those the sources use: the four
  arithmetic ones, comparison, the built-in \<open>min\<close>, conversion from an integer and
  \<open>time.Duration.Seconds\<close>.
\<close>

datatype f64 = Fin rat | PInf | NInf | NaN

section \<open>Rounding\<close>

definition pow2 :: "int \<Rightarrow> rat" where
  "pow2 e = (if 0 \<le> e then 2 ^ nat e else 1 / 2 ^ nat (- e))"

definition half_even :: "rat \<Rightarrow> int" where
  "half_even x = (let n = \<lfloor>x\<rfloor>; d = x - of_int n
     in if d < 1 / 2 then n else if 1 / 2 < d then n + 1 else if even n then n else n + 1)"

fun bit_count :: "nat \<Rightarrow> nat" where
  "bit_count n = (if n = 0 then 0 else 1 + bit_count (n div 2))"

declare bit_count.simps [simp del]

text \<open>The binary exponent of a positive rational.\<close>

definition binary_exponent :: "rat \<Rightarrow> int" where
  "binary_exponent x =
     (let (a, b) = quotient_of x; k = int (bit_count (nat a)) - int (bit_count (nat b))
      in if pow2 k \<le> x then k else k - 1)"

definition round64 :: "rat \<Rightarrow> f64" where
  "round64 x =
     (if x = 0 then Fin 0
      else let e = max (binary_exponent \<bar>x\<bar> - 52) (- 1074); r = of_int (half_even (x / pow2 e)) * pow2 e
           in if pow2 1024 \<le> \<bar>r\<bar> then (if 0 < x then PInf else NInf) else Fin r)"

definition float64_of_int :: "int \<Rightarrow> f64" where
  "float64_of_int k = round64 (of_int k)"

section \<open>Operations\<close>

fun f64_neg :: "f64 \<Rightarrow> f64" where
  "f64_neg (Fin x) = Fin (- x)"
| "f64_neg PInf = NInf"
| "f64_neg NInf = PInf"
| "f64_neg NaN = NaN"

fun f64_add :: "f64 \<Rightarrow> f64 \<Rightarrow> f64" where
  "f64_add (Fin x) (Fin y) = round64 (x + y)"
| "f64_add NaN y = NaN"
| "f64_add x NaN = NaN"
| "f64_add PInf NInf = NaN"
| "f64_add NInf PInf = NaN"
| "f64_add PInf y = PInf"
| "f64_add x PInf = PInf"
| "f64_add NInf y = NInf"
| "f64_add x NInf = NInf"

definition f64_sub :: "f64 \<Rightarrow> f64 \<Rightarrow> f64" where
  "f64_sub x y = f64_add x (f64_neg y)"

text \<open>The sign of a value that is not NaN.\<close>

fun f64_sgn :: "f64 \<Rightarrow> rat" where
  "f64_sgn (Fin x) = sgn x"
| "f64_sgn PInf = 1"
| "f64_sgn NInf = - 1"
| "f64_sgn NaN = 0"

definition f64_inf :: "rat \<Rightarrow> f64" where
  "f64_inf s = (if s = 0 then NaN else if 0 < s then PInf else NInf)"

definition f64_mul :: "f64 \<Rightarrow> f64 \<Rightarrow> f64" where
  "f64_mul a b = (if a = NaN \<or> b = NaN then NaN
     else case (a, b) of (Fin x, Fin y) \<Rightarrow> round64 (x * y) | _ \<Rightarrow> f64_inf (f64_sgn a * f64_sgn b))"

definition f64_div :: "f64 \<Rightarrow> f64 \<Rightarrow> f64" where
  "f64_div a b = (if a = NaN \<or> b = NaN then NaN
     else case (a, b) of
         (Fin x, Fin y) \<Rightarrow> if y = 0 then f64_inf (sgn x) else round64 (x / y)
       | (Fin x, _) \<Rightarrow> Fin 0
       | (_, Fin y) \<Rightarrow> f64_inf (f64_sgn a * (if y < 0 then - 1 else 1))
       | _ \<Rightarrow> NaN)"

fun f64_less :: "f64 \<Rightarrow> f64 \<Rightarrow> bool" where
  "f64_less (Fin x) (Fin y) \<longleftrightarrow> x < y"
| "f64_less (Fin x) b \<longleftrightarrow> b = PInf"
| "f64_less PInf b \<longleftrightarrow> False"
| "f64_less NInf b \<longleftrightarrow> b \<noteq> NInf \<and> b \<noteq> NaN"
| "f64_less NaN b \<longleftrightarrow> False"

definition f64_le :: "f64 \<Rightarrow> f64 \<Rightarrow> bool" where
  "f64_le a b \<longleftrightarrow> f64_less a b \<or> (a = b \<and> a \<noteq> NaN)"

text \<open>The built-in \<open>min\<close> returns NaN if an argument is NaN.\<close>

definition f64_min :: "f64 \<Rightarrow> f64 \<Rightarrow> f64" where
  "f64_min a b = (if a = NaN \<or> b = NaN then NaN else if f64_less b a then b else a)"

text \<open>\<open>d.Seconds()\<close>: whole seconds plus the fraction, both truncated towards zero.\<close>

definition duration_Seconds :: "int64 \<Rightarrow> f64" where
  "duration_Seconds d =
     f64_add (float64_of_int (sint d sdiv 1000000000)) (f64_div (float64_of_int (sint d smod 1000000000)) (Fin 1000000000))"

section \<open>Integers up to \<open>2 ^ 53\<close> are exact\<close>

lemma pow2_pos [simp]: "0 < pow2 e"
  by (simp add: pow2_def)

lemma pow2_nat: "pow2 (int n) = 2 ^ n" "pow2 (- int n) = 1 / 2 ^ n"
  by (auto simp: pow2_def)

lemma half_even_int [simp]: "half_even (of_int n) = n"
  by (simp add: half_even_def)

lemma half_even_nonneg: "0 \<le> x \<Longrightarrow> 0 \<le> half_even x"
  by (simp add: half_even_def Let_def) 

lemma bit_count_le: "n < 2 ^ k \<Longrightarrow> bit_count n \<le> k"
proof (induction n arbitrary: k rule: bit_count.induct)
  case (1 n)
  show ?case
  proof (cases "n = 0")
    case False
    then obtain k' where k: "k = Suc k'" using "1.prems" by (cases k) auto
    then have "n div 2 < 2 ^ k'" using "1.prems" by auto
    then show ?thesis using "1.IH" [OF False] False k by (subst bit_count.simps) simp
  qed (simp add: bit_count.simps)
qed

lemma bit_count_bound: "n < 2 ^ bit_count n"
proof (induction n rule: bit_count.induct)
  case (1 n)
  show ?case
  proof (cases "n = 0")
    case False
    have "n < 2 * (n div 2 + 1)" by simp
    also have "\<dots> \<le> 2 * 2 ^ bit_count (n div 2)" using "1.IH" [OF False] by (intro mult_left_mono) auto
    finally show ?thesis using False by (subst bit_count.simps) simp
  qed simp
qed

lemma quotient_of_whole [simp]: "quotient_of (of_int n) = (n, 1)"
  using quotient_of_int [of n] by (simp add: Rat.of_int_def)

lemma binary_exponent_int:
  assumes "0 < n" "n < 2 ^ k"
  shows "binary_exponent (of_int n) < int k"
proof -
  have "nat n < 2 ^ k" using assms by (simp add: nat_less_iff)
  then have k: "bit_count (nat n) \<le> k" by (rule bit_count_le)
  have one: "bit_count (Suc 0) = 1" by (simp add: bit_count.simps)
  have "nat n < 2 ^ bit_count (nat n)" by (rule bit_count_bound)
  then have "n < 2 ^ bit_count (nat n)" using assms(1) by (simp add: nat_less_iff)
  show ?thesis using k by (auto simp: binary_exponent_def one Let_def)
qed

lemma round64_int:
  assumes "\<bar>n\<bar> < 2 ^ 53"
  shows "round64 (of_int n) = Fin (of_int n)"
proof (cases "n = 0")
  case False
  define e where "e = max (binary_exponent \<bar>of_int n\<bar> - 52) (- 1074)"
  have abs: "\<bar>of_int n :: rat\<bar> = of_int \<bar>n\<bar>" by simp
  have "binary_exponent (of_int \<bar>n\<bar>) < int 53" using False assms by (intro binary_exponent_int) auto
  then have e: "e \<le> 0" unfolding e_def abs by simp
  define k where "k = nat (- e)"
  have p: "pow2 e = 1 / 2 ^ k" using e pow2_nat(2) [of k] by (simp add: k_def)
  have "of_int n / pow2 e = (of_int (n * 2 ^ k) :: rat)" by (simp add: p)
  then have h: "half_even (of_int n / pow2 e) = n * 2 ^ k" by (simp only: half_even_int)
  then have r: "of_int (half_even (of_int n / pow2 e)) * pow2 e = (of_int n :: rat)" by (simp add: p)
  have "(of_int \<bar>n\<bar> :: rat) < of_int (2 ^ 53)" using assms by (simp only: of_int_less_iff)
  also have "\<dots> < pow2 1024" by (simp add: pow2_def)
  finally have "\<not> pow2 1024 \<le> \<bar>of_int n :: rat\<bar>" by simp
  then show ?thesis using False r by (simp add: round64_def e_def [symmetric] Let_def)
qed (simp add: round64_def)

lemma round64_0 [simp]: "round64 0 = Fin 0"
  by (simp add: round64_def)

lemma round64_nonneg: "0 \<le> x \<Longrightarrow> round64 x = Fin y \<Longrightarrow> 0 \<le> y"
  by (auto simp: round64_def Let_def split: if_splits
      intro!: mult_nonneg_nonneg half_even_nonneg divide_nonneg_nonneg less_imp_le [OF pow2_pos])

lemma f64_sub_one: "0 < n \<Longrightarrow> n < 2 ^ 53 \<Longrightarrow> f64_sub (Fin (of_int n)) (Fin 1) = Fin (of_int (n - 1))"
  using round64_int [of "n - 1"] by (simp add: f64_sub_def)

lemma f64_min_simps [simp]: "f64_min NaN b = NaN" "f64_min a NaN = NaN" "f64_min (Fin x) (Fin y) = Fin (min x y)"
  by (auto simp: f64_min_def min_def)

end
