(* ===== verification/GoConf.thy ===== *)
theory GoConf
  imports GoFloat Json CoreBreaker
begin

text \<open>
  What the configuration code calls: \<open>os.Getenv\<close> (an unset variable reads as the empty string, so an
  environment is a function), \<open>strings.TrimSpace\<close>, \<open>strings.HasSuffix\<close>, \<open>strings.ToLower\<close>,
  \<open>time.ParseDuration\<close> and \<open>strconv.ParseFloat\<close>.
\<close>

type_synonym env = "string \<Rightarrow> string"

section \<open>strings\<close>

text \<open>The encodings of the runes with the White Space property.\<close>

definition space_runes :: "string list" where
  "space_runes =
     [[CHR 0x09], [CHR 0x0A], [CHR 0x0B], [CHR 0x0C], [CHR 0x0D], [CHR 0x20], [CHR 0xC2, CHR 0x85], [CHR 0xC2, CHR 0xA0],
      [CHR 0xE1, CHR 0x9A, CHR 0x80], [CHR 0xE2, CHR 0x80, CHR 0x80], [CHR 0xE2, CHR 0x80, CHR 0x81],
      [CHR 0xE2, CHR 0x80, CHR 0x82], [CHR 0xE2, CHR 0x80, CHR 0x83], [CHR 0xE2, CHR 0x80, CHR 0x84],
      [CHR 0xE2, CHR 0x80, CHR 0x85], [CHR 0xE2, CHR 0x80, CHR 0x86], [CHR 0xE2, CHR 0x80, CHR 0x87],
      [CHR 0xE2, CHR 0x80, CHR 0x88], [CHR 0xE2, CHR 0x80, CHR 0x89], [CHR 0xE2, CHR 0x80, CHR 0x8A],
      [CHR 0xE2, CHR 0x80, CHR 0xA8], [CHR 0xE2, CHR 0x80, CHR 0xA9], [CHR 0xE2, CHR 0x80, CHR 0xAF],
      [CHR 0xE2, CHR 0x81, CHR 0x9F], [CHR 0xE3, CHR 0x80, CHR 0x80]]"

function trim_runes :: "string list \<Rightarrow> string \<Rightarrow> string" where
  "trim_runes rs s = (case find (\<lambda>p. p \<noteq> [] \<and> strings_HasPrefix s p) rs of
       None \<Rightarrow> s | Some p \<Rightarrow> trim_runes rs (drop (length p) s))"
  by pat_completeness auto
termination
proof (relation "measure (length \<circ> snd)")
  fix rs :: "string list" and s p
  assume "find (\<lambda>p. p \<noteq> [] \<and> strings_HasPrefix s p) rs = Some p"
  then have "p \<noteq> []" "strings_HasPrefix s p" by (auto simp: find_Some_iff)
  then have "s \<noteq> []" by (cases s; cases p) (auto simp: strings_HasPrefix_def)
  then show "((rs, drop (length p) s), rs, s) \<in> measure (length \<circ> snd)" using \<open>p \<noteq> []\<close> by simp
qed simp

declare trim_runes.simps [simp del]

definition strings_TrimSpace :: "string \<Rightarrow> string" where
  "strings_TrimSpace s = rev (trim_runes (map rev space_runes) (rev (trim_runes space_runes s)))"

definition strings_HasSuffix :: "string \<Rightarrow> string \<Rightarrow> bool" where
  "strings_HasSuffix s suffix \<longleftrightarrow> strings_HasPrefix (rev s) (rev suffix)"

definition lower_char :: "char \<Rightarrow> char" where
  "lower_char c = (if 65 \<le> byte c \<and> byte c \<le> 90 then char_of (byte c + 32) else c)"

text \<open>
  \<open>strings.ToLower\<close> as far as a comparison with an ASCII string can tell: ASCII letters and the two
  runes beyond ASCII (U+0130 and U+212A) whose lower case is an ASCII letter.
\<close>

fun strings_ToLower :: "string \<Rightarrow> string" where
  "strings_ToLower [] = []"
| "strings_ToLower (c # s) =
     (case s of
        d # s' \<Rightarrow>
          if c = CHR 0xC4 \<and> d = CHR 0xB0 then CHR ''i'' # strings_ToLower s'
          else (case s' of
                  e # s'' \<Rightarrow> if c = CHR 0xE2 \<and> d = CHR 0x84 \<and> e = CHR 0xAA then CHR ''k'' # strings_ToLower s''
                             else lower_char c # strings_ToLower s
                | [] \<Rightarrow> lower_char c # strings_ToLower s)
      | [] \<Rightarrow> [lower_char c])"

section \<open>time.ParseDuration\<close>

definition duration_units :: "(string \<times> nat) list" where
  "duration_units =
     [(''ns'', 1), (''us'', 1000), ([CHR 0xC2, CHR 0xB5, CHR ''s''], 1000), ([CHR 0xCE, CHR 0xBC, CHR ''s''], 1000),
      (''ms'', 1000000), (''s'', 1000000000), (''m'', 60000000000), (''h'', 3600000000000)]"

text \<open>\<open>leadingFraction\<close>: digits that would overflow are dropped. The scale stays an exact power of ten.\<close>

fun leading_fraction :: "string \<Rightarrow> nat \<Rightarrow> nat \<Rightarrow> bool \<Rightarrow> nat \<times> nat" where
  "leading_fraction [] x scale overflow = (x, scale)"
| "leading_fraction (c # s) x scale overflow =
     (let y = x * 10 + digit_val c
      in if overflow \<or> (2 ^ 63 - 1) div 10 < x \<or> 2 ^ 63 < y then leading_fraction s x scale True
         else leading_fraction s y (scale * 10) False)"

definition is_unit_char :: "char \<Rightarrow> bool" where
  "is_unit_char c \<longleftrightarrow> c \<noteq> CHR ''.'' \<and> \<not> is_digit c"

text \<open>\<open>uint64(float64(f) * (float64(unit) / scale))\<close>\<close>

definition fraction_units :: "nat \<Rightarrow> nat \<Rightarrow> nat \<Rightarrow> nat" where
  "fraction_units f scale unit =
     (case f64_mul (float64_of_int (int f)) (f64_div (float64_of_int (int unit)) (float64_of_int (int scale))) of
        Fin x \<Rightarrow> nat \<lfloor>x\<rfloor> | _ \<Rightarrow> 0)"

text \<open>One number with its unit, in nanoseconds, and what follows it.\<close>

definition duration_part :: "string \<Rightarrow> (nat \<times> string) option" where
  "duration_part s =
     (let whole = takeWhile is_digit s; s1 = dropWhile is_digit s; v = dec_val whole;
          (post, s2) = (case s1 of c # r \<Rightarrow> if c = CHR ''.'' then (takeWhile is_digit r, dropWhile is_digit r) else ([], s1) | [] \<Rightarrow> ([], s1));
          (f, scale) = leading_fraction post 0 1 False;
          u = takeWhile is_unit_char s2; s3 = dropWhile is_unit_char s2
      in if 2 ^ 63 < v \<or> (whole = [] \<and> post = []) \<or> u = [] then None
         else case map_of duration_units u of None \<Rightarrow> None
              | Some unit \<Rightarrow>
                  if 2 ^ 63 div unit < v then None
                  else let v' = v * unit + (if 0 < f then fraction_units f scale unit else 0)
                       in if 0 < f \<and> 2 ^ 63 < v' then None else Some (v', s3))"

lemma duration_part_length: "duration_part s = Some (v, r) \<Longrightarrow> length r < length s"
proof -
  assume a: "duration_part s = Some (v, r)"
  obtain post s2 where p: "(case dropWhile is_digit s of c # r \<Rightarrow> if c = CHR ''.'' then (takeWhile is_digit r, dropWhile is_digit r)
      else ([], dropWhile is_digit s) | [] \<Rightarrow> ([], dropWhile is_digit s)) = (post, s2)" by fastforce
  have "length s2 \<le> length (dropWhile is_digit s)"
  proof (cases "dropWhile is_digit s")
    case (Cons c t)
    show ?thesis using p length_dropWhile_le [of is_digit t] unfolding Cons by (auto split: if_splits)
  next
    case Nil
    show ?thesis using p unfolding Nil by auto
  qed
  then have l: "length s2 \<le> length s" using length_dropWhile_le [of is_digit s] by linarith
  have r: "r = dropWhile is_unit_char s2" "takeWhile is_unit_char s2 \<noteq> []"
    using a p by (auto simp: duration_part_def Let_def split: prod.splits if_splits option.splits)
  have "length (takeWhile is_unit_char s2) + length r = length s2"
    unfolding r(1) by (metis length_append takeWhile_dropWhile_id)
  moreover have "0 < length (takeWhile is_unit_char s2)" using r(2) by simp
  ultimately show ?thesis using l by linarith
qed

text \<open>The sum of the parts is a \<open>uint64\<close>: two parts of \<open>2 ^ 63\<close> nanoseconds wrap around to zero.\<close>

function duration_sum :: "nat \<Rightarrow> string \<Rightarrow> nat option" where
  "duration_sum d s =
     (if s = [] then Some d
      else case duration_part s of None \<Rightarrow> None
           | Some (v, r) \<Rightarrow> let d' = (d + v) mod 2 ^ 64 in if 2 ^ 63 < d' then None else duration_sum d' r)"
  by pat_completeness auto
termination
  by (relation "measure (length \<circ> snd)") (auto dest: duration_part_length)

declare duration_sum.simps [simp del]

definition time_ParseDuration :: "string \<Rightarrow> duration result" where
  "time_ParseDuration orig =
     (let neg = (orig \<noteq> [] \<and> hd orig = CHR ''-'');
          s = (if orig \<noteq> [] \<and> (hd orig = CHR ''-'' \<or> hd orig = CHR ''+'') then tl orig else orig);
          invalid = Inl (Msg ''time: invalid duration'')
      in if s = ''0'' then Inr 0
         else if s = [] then invalid
         else case duration_sum 0 s of None \<Rightarrow> invalid
              | Some d \<Rightarrow> if neg then Inr (- of_nat d) else if 2 ^ 63 - 1 < d then invalid else Inr (of_nat d))"

section \<open>strconv.ParseFloat\<close>

definition base_digit :: "nat \<Rightarrow> char \<Rightarrow> nat option" where
  "base_digit base c = (case hex_val c of Some d \<Rightarrow> if d < base then Some d else None | None \<Rightarrow> None)"

text \<open>Mantissa, number of digits after the point, whether a digit was seen, and the rest.\<close>

fun read_mantissa :: "nat \<Rightarrow> string \<Rightarrow> bool \<Rightarrow> nat \<Rightarrow> nat \<Rightarrow> bool \<Rightarrow> nat \<times> nat \<times> bool \<times> string" where
  "read_mantissa base [] sawdot m k dig = (m, k, dig, [])"
| "read_mantissa base (c # s) sawdot m k dig =
     (if c = CHR ''_'' then read_mantissa base s sawdot m k dig
      else if c = CHR ''.'' then (if sawdot then (m, k, dig, c # s) else read_mantissa base s True m k dig)
      else case base_digit base c of
             Some d \<Rightarrow> read_mantissa base s sawdot (m * base + d) (if sawdot then k + 1 else k) True
           | None \<Rightarrow> (m, k, dig, c # s))"

definition exponent_char :: "char \<Rightarrow> bool" where
  "exponent_char c \<longleftrightarrow> is_digit c \<or> c = CHR ''_''"

definition read_exponent_digits :: "string \<Rightarrow> nat" where
  "read_exponent_digits ds = foldl (\<lambda>e c. if e < 10000 then e * 10 + digit_val c else e) 0 (filter is_digit ds)"

text \<open>The optional exponent behind the mantissa; None is malformed.\<close>

definition read_exponent :: "char \<Rightarrow> string \<Rightarrow> (int \<times> bool \<times> string) option" where
  "read_exponent expChar s =
     (if s = [] \<or> lower_char (hd s) \<noteq> expChar then Some (0, False, s)
      else let r = tl s; neg = (r \<noteq> [] \<and> hd r = CHR ''-'');
               r = (if r \<noteq> [] \<and> (hd r = CHR ''-'' \<or> hd r = CHR ''+'') then tl r else r);
               e = int (read_exponent_digits (takeWhile exponent_char r))
           in if r = [] \<or> \<not> is_digit (hd r) then None
              else Some (if neg then - e else e, True, dropWhile exponent_char r))"

text \<open>\<open>underscoreOK\<close>: an underscore stands between digits (the base prefix counts as one).\<close>

fun underscores_ok :: "bool \<Rightarrow> char \<Rightarrow> string \<Rightarrow> bool" where
  "underscores_ok hex saw [] \<longleftrightarrow> saw \<noteq> CHR ''_''"
| "underscores_ok hex saw (c # s) \<longleftrightarrow>
     (if is_digit c \<or> (hex \<and> 97 \<le> byte (lower_char c) \<and> byte (lower_char c) \<le> 102) then underscores_ok hex (CHR ''0'') s
      else if c = CHR ''_'' then saw = CHR ''0'' \<and> underscores_ok hex c s
      else saw \<noteq> CHR ''_'' \<and> underscores_ok hex (CHR ''!'') s)"

text \<open>The unsigned number \<open>s\<close>; the result is the exact value.\<close>

definition read_number :: "string \<Rightarrow> rat option" where
  "read_number s =
     (let hex = (3 \<le> length s \<and> s ! 0 = CHR ''0'' \<and> lower_char (s ! 1) = CHR ''x'');
          base = (if hex then 16 else 10);
          body = (if hex then drop 2 s else s);
          (m, k, dig, r) = read_mantissa base body False 0 0 False
      in if \<not> dig then None
         else case read_exponent (if hex then CHR ''p'' else CHR ''e'') r of None \<Rightarrow> None
              | Some (e, present, rest) \<Rightarrow>
                  if rest \<noteq> [] \<or> (hex \<and> \<not> present)
                     \<or> (CHR ''_'' \<in> set s \<and> \<not> underscores_ok hex (if hex then CHR ''0'' else CHR ''^'') body)
                  then None
                  else Some (of_nat m / of_nat (base ^ k)
                    * (if hex then pow2 e else if 0 \<le> e then 10 ^ nat e else 1 / 10 ^ nat (- e))))"

definition strconv_ParseFloat :: "string \<Rightarrow> f64 result" where
  "strconv_ParseFloat s =
     (let signed = (s \<noteq> [] \<and> (hd s = CHR ''-'' \<or> hd s = CHR ''+'')); neg = (s \<noteq> [] \<and> hd s = CHR ''-'');
          body = (if signed then tl s else s); low = map lower_char body
      in if low = ''nan'' \<and> \<not> signed then Inr NaN
         else if low = ''inf'' \<or> low = ''infinity'' then Inr (if neg then NInf else PInf)
         else case read_number body of None \<Rightarrow> Inl ErrSyntax
              | Some x \<Rightarrow> (case round64 (if neg then - x else x) of Fin y \<Rightarrow> Inr (Fin y) | _ \<Rightarrow> Inl ErrRange))"

section \<open>Trimming\<close>

lemma trim_runes_Nil [simp]: "trim_runes rs [] = []"
proof -
  have "find (\<lambda>p. p \<noteq> [] \<and> strings_HasPrefix [] p) rs = None"
    by (auto simp: find_None_iff strings_HasPrefix_def neq_Nil_conv)
  then show ?thesis by (simp add: trim_runes.simps)
qed

lemma TrimSpace_Nil [simp]: "strings_TrimSpace [] = []"
  by (simp add: strings_TrimSpace_def)

lemma trim_runes_no_space:
  assumes "\<forall>p \<in> set rs. p \<noteq> [] \<longrightarrow> hd p \<noteq> c"
  shows "trim_runes rs (c # s) = c # s"
proof -
  have "\<not> strings_HasPrefix (c # s) p" if "p \<in> set rs" "p \<noteq> []" for p
    using assms that by (cases p) (auto simp: strings_HasPrefix_def)
  then have "find (\<lambda>p. p \<noteq> [] \<and> strings_HasPrefix (c # s) p) rs = None" by (auto simp: find_None_iff)
  then show ?thesis by (simp add: trim_runes.simps)
qed

text \<open>Nothing is trimmed off a string of printable ASCII characters without blanks at its ends.\<close>

definition no_blank :: "char \<Rightarrow> bool" where
  "no_blank c \<longleftrightarrow> 33 \<le> byte c \<and> byte c < 127"

lemma TrimSpace_no_blank:
  assumes "s \<noteq> []" "no_blank (hd s)" "no_blank (last s)"
  shows "strings_TrimSpace s = s"
proof -
  have l: "\<forall>p \<in> set space_runes. p \<noteq> [] \<longrightarrow> hd p \<noteq> c" if "no_blank c" for c
    using that by (auto simp: space_runes_def no_blank_def)
  have r: "\<forall>p \<in> set (map rev space_runes). p \<noteq> [] \<longrightarrow> hd p \<noteq> c" if "no_blank c" for c
    using that by (auto simp: space_runes_def no_blank_def)
  obtain c t where c: "s = c # t" using assms(1) by (cases s) auto
  obtain u where u: "rev s = last s # u" using assms(1) by (metis hd_rev list.collapse rev_is_Nil_conv)
  have "trim_runes space_runes s = s" using c assms(2) trim_runes_no_space [OF l] by simp
  moreover have "trim_runes (map rev space_runes) (rev s) = rev s"
    unfolding u by (rule trim_runes_no_space [OF r [OF assms(3)]])
  ultimately show ?thesis by (simp add: strings_TrimSpace_def)
qed

end
