(* ===== verification/Metrics.thy ===== *)
theory Metrics
  imports GoConf
begin

text \<open>
  The shared metric constructors and tenant labels, \<open>src/internal/metrics/metrics.go\<close> and
  \<open>tenant.go\<close>, with the instruments that the four \<open>NewMetrics\<close> constructors of the services
  register. The Prometheus client is a parameter: registering a metric is a function \<open>'w Registerer\<close>
  of its state \<open>'w\<close>, and a call on an instrument (increment, set, observe) is a \<open>metric_call\<close> handed
  to a function \<open>'w meter\<close>.
\<close>

section \<open>Model of metrics.go\<close>

definition ErrInvalidMetricName :: goerror where "ErrInvalidMetricName = Sentinel ''metrics: invalid name''"
definition ErrHighCardinalityLabel :: goerror where
  "ErrHighCardinalityLabel = Sentinel ''metrics: disallowed high-cardinality label''"

definition is_lower_letter :: "char \<Rightarrow> bool" where
  "is_lower_letter c \<longleftrightarrow> 97 \<le> byte c \<and> byte c \<le> 122"

definition is_lower_alnum :: "char \<Rightarrow> bool" where
  "is_lower_alnum c \<longleftrightarrow> is_lower_letter c \<or> is_digit c"

text \<open>The regular expression \<open>^[a-z][a-z0-9]*(_[a-z0-9]+)*$\<close>; the flag is false right after an underscore.\<close>

fun snake_rest :: "bool \<Rightarrow> string \<Rightarrow> bool" where
  "snake_rest word [] \<longleftrightarrow> word"
| "snake_rest word (c # s) \<longleftrightarrow> (if is_lower_alnum c then snake_rest True s else c = CHR ''_'' \<and> word \<and> snake_rest False s)"

definition nameFormat :: "string \<Rightarrow> bool" where
  "nameFormat s = (case s of [] \<Rightarrow> False | c # r \<Rightarrow> is_lower_letter c \<and> snake_rest True r)"

definition counterSuffix :: string where "counterSuffix = ''_total''"

definition gaugeHistogramSuffixes :: "string list" where
  "gaugeHistogramSuffixes = [''_seconds'', ''_bytes'', ''_ratio'', ''_messages'', ''_percent'', ''_state'', ''_count'']"

definition deniedLabels :: "string list" where
  "deniedLabels = [''transaction_id'', ''txn_id'', ''trace_id'', ''span_id'', ''request_id'', ''session_id'',
     ''correlation_id'', ''order_id'', ''user_id'', ''account_id'']"

definition validateName :: "string \<Rightarrow> string list \<Rightarrow> error" where
  "validateName name allowedSuffixes =
     (if \<not> nameFormat name then Some (Wrap ''must be lowercase snake_case'' ErrInvalidMetricName)
      else if list_ex (strings_HasSuffix name) allowedSuffixes then None
      else Some (Wrap ''must end with one of'' ErrInvalidMetricName))"

fun validateLabels :: "string list \<Rightarrow> error" where
  "validateLabels [] = None"
| "validateLabels (label # labelNames) =
     (if strings_ToLower label \<in> set deniedLabels then Some (Wrap ''is a common unbounded identifier'' ErrHighCardinalityLabel)
      else validateLabels labelNames)"

datatype metric_kind = CounterVec | GaugeVec | HistogramVec

record metric_vec =
  mv_kind :: metric_kind
  mv_name :: string
  mv_labels :: "string list"

type_synonym 'w Registerer = "metric_vec \<Rightarrow> 'w \<Rightarrow> error \<times> 'w"

definition register_vec :: "string \<Rightarrow> 'w Registerer \<Rightarrow> metric_vec \<Rightarrow> 'w \<Rightarrow> metric_vec result \<times> 'w" where
  "register_vec what reg v w = (case reg v w of (Some err, w') \<Rightarrow> (Inl (Wrap what err), w') | (None, w') \<Rightarrow> (Inr v, w'))"

definition NewCounter :: "'w Registerer \<Rightarrow> string \<Rightarrow> string list \<Rightarrow> 'w \<Rightarrow> metric_vec result \<times> 'w" where
  "NewCounter reg name labelNames w =
     (case validateName name [counterSuffix] of Some err \<Rightarrow> (Inl err, w)
      | None \<Rightarrow> (case validateLabels labelNames of Some err \<Rightarrow> (Inl err, w)
         | None \<Rightarrow> register_vec ''register counter'' reg \<lparr>mv_kind = CounterVec, mv_name = name, mv_labels = labelNames\<rparr> w))"

definition NewGauge :: "'w Registerer \<Rightarrow> string \<Rightarrow> string list \<Rightarrow> 'w \<Rightarrow> metric_vec result \<times> 'w" where
  "NewGauge reg name labelNames w =
     (case validateName name gaugeHistogramSuffixes of Some err \<Rightarrow> (Inl err, w)
      | None \<Rightarrow> (case validateLabels labelNames of Some err \<Rightarrow> (Inl err, w)
         | None \<Rightarrow> register_vec ''register gauge'' reg \<lparr>mv_kind = GaugeVec, mv_name = name, mv_labels = labelNames\<rparr> w))"

definition NewHistogram :: "'w Registerer \<Rightarrow> string \<Rightarrow> string list \<Rightarrow> 'w \<Rightarrow> metric_vec result \<times> 'w" where
  "NewHistogram reg name labelNames w =
     (case validateName name gaugeHistogramSuffixes of Some err \<Rightarrow> (Inl err, w)
      | None \<Rightarrow> (case validateLabels labelNames of Some err \<Rightarrow> (Inl err, w)
         | None \<Rightarrow> register_vec ''register histogram'' reg \<lparr>mv_kind = HistogramVec, mv_name = name, mv_labels = labelNames\<rparr> w))"

section \<open>Model of tenant.go\<close>

definition UnknownTenantLabel :: string where "UnknownTenantLabel = ''unregistered''"

text \<open>A set of strings; the nil map is the empty set.\<close>

type_synonym KnownTenants = "string set"

definition NewKnownTenants :: "string list \<Rightarrow> KnownTenants" where
  "NewKnownTenants tenantIDs = foldl (\<lambda>known tenantID. insert tenantID known) {} tenantIDs"

definition TenantLabel :: "KnownTenants \<Rightarrow> string \<Rightarrow> string" where
  "TenantLabel known tenantID = (if tenantID \<in> known then tenantID else UnknownTenantLabel)"

section \<open>The instruments of the services\<close>

text \<open>Constructors called in order; the first error is wrapped and returned.\<close>

fun construct_all :: "string \<Rightarrow> ('w \<Rightarrow> metric_vec result \<times> 'w) list \<Rightarrow> 'w \<Rightarrow> metric_vec list result \<times> 'w" where
  "construct_all msg [] w = (Inr [], w)"
| "construct_all msg (f # fs) w =
     (case f w of (Inl err, w') \<Rightarrow> (Inl (Wrap msg err), w')
      | (Inr v, w') \<Rightarrow> (case construct_all msg fs w' of (Inl err, w'') \<Rightarrow> (Inl err, w'') | (Inr vs, w'') \<Rightarrow> (Inr (v # vs), w'')))"

text \<open>\<open>NewMetrics\<close> of \<open>internal/ingestion\<close>, \<open>internal/ingestion/kafka\<close>, \<open>internal/processor\<close> and \<open>internal/processor/kafka\<close>.\<close>

definition ingestion_NewMetrics :: "'w Registerer \<Rightarrow> 'w \<Rightarrow> metric_vec list result \<times> 'w" where
  "ingestion_NewMetrics reg = construct_all ''new ingestion metrics''
     [NewCounter reg ''ingestion_transactions_processed_total'' [''outcome''],
      NewHistogram reg ''ingestion_publish_latency_seconds'' [''outcome''],
      NewGauge reg ''ingestion_kafka_circuit_breaker_state'' []]"

definition publisher_NewMetrics :: "'w Registerer \<Rightarrow> 'w \<Rightarrow> metric_vec list result \<times> 'w" where
  "publisher_NewMetrics reg = construct_all ''new kafka metrics''
     [NewCounter reg ''ingestion_kafka_tenant_reservation_dropped_total'' [],
      NewCounter reg ''ingestion_kafka_tenant_reservation_reload_errors_total'' [],
      NewGauge reg ''ingestion_kafka_tenant_partition_count'' [''tenant''],
      NewGauge reg ''ingestion_kafka_tenant_partition_start_count'' [''tenant'']]"

definition processor_NewMetrics :: "'w Registerer \<Rightarrow> 'w \<Rightarrow> metric_vec list result \<times> 'w" where
  "processor_NewMetrics reg = construct_all ''new processor metrics''
     [NewCounter reg ''processor_transactions_processed_total'' [''outcome''],
      NewHistogram reg ''processor_transaction_duration_seconds'' [''outcome'', ''tenant''],
      NewGauge reg ''processor_postgres_circuit_breaker_state'' [''repository'']]"

definition consumer_NewMetrics :: "'w Registerer \<Rightarrow> 'w \<Rightarrow> metric_vec list result \<times> 'w" where
  "consumer_NewMetrics reg = construct_all ''new processor kafka metrics''
     [NewGauge reg ''processor_kafka_consumer_lag_messages'' [''tenant''],
      NewGauge reg ''processor_kafka_active_consumer_count'' [''tenant''],
      NewCounter reg ''processor_kafka_tenant_partition_reload_errors_total'' []]"

text \<open>A call on an instrument: the metric's name, its label values, and the value.\<close>

datatype metric_call =
    Inc string "string list"
  | SetGauge string "string list" f64
  | Observe string "string list" f64

type_synonym 'w meter = "metric_call \<Rightarrow> 'w \<Rightarrow> 'w"

text \<open>\<open>breakerStateValue\<close> of \<open>ingestion/metrics.go\<close> and \<open>processor/metrics.go\<close>; the enumeration has no fourth state.\<close>

definition breakerStateValue :: "State \<Rightarrow> f64" where
  "breakerStateValue st = (case st of Closed \<Rightarrow> Fin 0 | Open \<Rightarrow> Fin 2 | HalfOpen \<Rightarrow> Fin 1)"

section \<open>Names and labels\<close>

lemma snake_rest_split:
  "snake_rest word s \<longleftrightarrow> (case strings_Split s (CHR ''_'') of [] \<Rightarrow> False
     | f # fs \<Rightarrow> (word \<or> f \<noteq> []) \<and> list_all is_lower_alnum f \<and> list_all (\<lambda>g. g \<noteq> [] \<and> list_all is_lower_alnum g) fs)"
proof (induction word s rule: snake_rest.induct)
  case (2 word c s)
  have u: "\<not> is_lower_alnum (CHR ''_'')" by (simp add: is_lower_alnum_def is_lower_letter_def is_digit_def)
  obtain f fs where s: "strings_Split s (CHR ''_'') = f # fs" by (meson Split_nonempty neq_Nil_conv)
  show ?case using 2 s u by auto
qed simp

lemma TenantLabel_bounded: "TenantLabel known tenantID \<in> known \<union> {UnknownTenantLabel}"
  by (simp add: TenantLabel_def)

lemma NewKnownTenants_set: "NewKnownTenants tenantIDs = set tenantIDs"
proof -
  have "foldl (\<lambda>known tenantID. insert tenantID known) A tenantIDs = A \<union> set tenantIDs" for A
    by (induction tenantIDs arbitrary: A) auto
  then show ?thesis by (simp add: NewKnownTenants_def)
qed

text \<open>
  A metric name is accepted exactly when it is a sequence of non-empty lower-case alphanumeric
  words joined by single underscores that starts with a letter and ends in one of the unit suffixes
  allowed for its kind: the matcher for the regular expression agrees with splitting at the
  underscores.
\<close>

theorem validateName_iff:
  "validateName name suffixes = None \<longleftrightarrow>
     name \<noteq> [] \<and> is_lower_letter (hd name)
     \<and> list_all (\<lambda>part. part \<noteq> [] \<and> list_all is_lower_alnum part) (strings_Split name (CHR ''_''))
     \<and> (\<exists>suffix stem. suffix \<in> set suffixes \<and> name = stem @ suffix)"
proof -
  have suffix: "strings_HasSuffix name suffix \<longleftrightarrow> (\<exists>stem. name = stem @ suffix)" for suffix
    unfolding strings_HasSuffix_def strings_HasPrefix_def not_None_eq CutPrefix_iff
    by (metis rev_append rev_rev_ident)
  have format: "nameFormat name \<longleftrightarrow> name \<noteq> [] \<and> is_lower_letter (hd name)
     \<and> list_all (\<lambda>part. part \<noteq> [] \<and> list_all is_lower_alnum part) (strings_Split name (CHR ''_''))"
  proof (cases name)
    case (Cons c s)
    obtain f fs where s: "strings_Split s (CHR ''_'') = f # fs" by (meson Split_nonempty neq_Nil_conv)
    have "is_lower_letter c \<Longrightarrow> c \<noteq> CHR ''_''" by (auto simp: is_lower_letter_def)
    then show ?thesis
      using Cons s snake_rest_split [of True s] by (auto simp: nameFormat_def is_lower_alnum_def)
  qed (simp add: nameFormat_def)
  show ?thesis
    unfolding validateName_def format by (auto simp: list_ex_iff suffix)
qed

lemmas register_eval = validateName_def nameFormat_def is_lower_letter_def is_lower_alnum_def is_digit_def
  counterSuffix_def gaugeHistogramSuffixes_def strings_HasSuffix_def strings_HasPrefix_def deniedLabels_def lower_char_def

lemma labels_accepted:
  "validateLabels [] = None" "validateLabels [''outcome''] = None" "validateLabels [''tenant''] = None"
  "validateLabels [''outcome'', ''tenant''] = None" "validateLabels [''repository''] = None"
  by (simp_all add: deniedLabels_def lower_char_def)

lemma names_accepted:
  "validateName ''ingestion_transactions_processed_total'' [counterSuffix] = None"
  "validateName ''ingestion_publish_latency_seconds'' gaugeHistogramSuffixes = None"
  "validateName ''ingestion_kafka_circuit_breaker_state'' gaugeHistogramSuffixes = None"
  "validateName ''ingestion_kafka_tenant_reservation_dropped_total'' [counterSuffix] = None"
  "validateName ''ingestion_kafka_tenant_reservation_reload_errors_total'' [counterSuffix] = None"
  "validateName ''ingestion_kafka_tenant_partition_count'' gaugeHistogramSuffixes = None"
  "validateName ''ingestion_kafka_tenant_partition_start_count'' gaugeHistogramSuffixes = None"
  "validateName ''processor_transactions_processed_total'' [counterSuffix] = None"
  "validateName ''processor_transaction_duration_seconds'' gaugeHistogramSuffixes = None"
  "validateName ''processor_postgres_circuit_breaker_state'' gaugeHistogramSuffixes = None"
  "validateName ''processor_kafka_consumer_lag_messages'' gaugeHistogramSuffixes = None"
  "validateName ''processor_kafka_active_consumer_count'' gaugeHistogramSuffixes = None"
  "validateName ''processor_kafka_tenant_partition_reload_errors_total'' [counterSuffix] = None"
  by (simp_all add: register_eval)

text \<open>The \<open>NewMetrics\<close> constructors fail only if the registry refuses a metric.\<close>

lemma NewMetrics_accepted:
  assumes "\<And>v w. fst (reg v w) = None"
  shows "\<exists>vs w'. ingestion_NewMetrics reg w = (Inr vs, w')" "\<exists>vs w'. publisher_NewMetrics reg w = (Inr vs, w')"
    "\<exists>vs w'. processor_NewMetrics reg w = (Inr vs, w')" "\<exists>vs w'. consumer_NewMetrics reg w = (Inr vs, w')"
proof -
  have r: "register_vec what reg v w = (Inr v, snd (reg v w))" for what v w
    using assms [of v w] by (auto simp: register_vec_def split: prod.splits)
  note ctors = NewCounter_def NewGauge_def NewHistogram_def names_accepted labels_accepted r
  show "\<exists>vs w'. ingestion_NewMetrics reg w = (Inr vs, w')" "\<exists>vs w'. publisher_NewMetrics reg w = (Inr vs, w')"
    "\<exists>vs w'. processor_NewMetrics reg w = (Inr vs, w')" "\<exists>vs w'. consumer_NewMetrics reg w = (Inr vs, w')"
    by (simp_all add: ingestion_NewMetrics_def publisher_NewMetrics_def processor_NewMetrics_def consumer_NewMetrics_def ctors
        del: validateLabels.simps(2))
qed

end
