(* ===== verification/PartitionMap.thy ===== *)
theory PartitionMap
  imports Json GoConf
begin

text \<open>
  The tenant-partition map that the operator writes and both services read: a JSON object from tenant
  ids to \<open>{"start": N, "count": N}\<close>. The three Go types \<open>tenantPartitionEntry\<close>
  (\<open>operator/internal/controller/tenant_partition_map.go\<close>) and \<open>tenantPartitionMapEntry\<close>
  (\<open>internal/ingestion/kafka/reload.go\<close>, \<open>internal/processor/kafka/reload.go\<close>) are one record
  here. Reading a file is a function from paths to contents or an error.
\<close>

record tenantPartitionMapEntry =
  pe_Start :: int32
  pe_Count :: int32

definition entry_zero :: tenantPartitionMapEntry where
  "entry_zero = \<lparr>pe_Start = 0, pe_Count = 0\<rparr>"

definition entry_set :: "string \<Rightarrow> json \<Rightarrow> tenantPartitionMapEntry \<Rightarrow> tenantPartitionMapEntry option" where
  "entry_set f v e = map_option (\<lambda>k. if f = ''start'' then e\<lparr>pe_Start := word_of_int k\<rparr> else e\<lparr>pe_Count := word_of_int k\<rparr>) (json_int 32 v)"

definition decode_entry :: "json \<Rightarrow> tenantPartitionMapEntry option" where
  "decode_entry = decode_struct [''start'', ''count''] entry_set entry_zero"

text \<open>\<open>json.Unmarshal\<close> into a \<open>map[string]tenantPartitionMapEntry\<close>; the inner None is the nil map.\<close>

definition unmarshal_entries :: "string \<Rightarrow> (string \<times> tenantPartitionMapEntry) list option option" where
  "unmarshal_entries raw = (case json_document raw of None \<Rightarrow> None | Some v \<Rightarrow> decode_map decode_entry v)"

text \<open>A nil map reads as an empty one.\<close>

definition entries_of :: "(string \<times> tenantPartitionMapEntry) list option \<Rightarrow> (string \<times> tenantPartitionMapEntry) list" where
  "entries_of m = (case m of None \<Rightarrow> [] | Some es \<Rightarrow> es)"

text \<open>\<open>json.Marshal\<close> of such a map: the keys in sorted order.\<close>

definition marshal_entry :: "tenantPartitionMapEntry \<Rightarrow> string" where
  "marshal_entry e = json_object [(''start'', Itoa (sint (pe_Start e))), (''count'', Itoa (sint (pe_Count e)))]"

type_synonym files = "string \<Rightarrow> string result"

section \<open>Round trip\<close>

lemma entries_distinct: "unmarshal_entries raw = Some m \<Longrightarrow> distinct (map fst (entries_of m))"
  by (auto simp: unmarshal_entries_def entries_of_def dest: decode_map_distinct split: option.splits)

lemma ascii_keys: "valid_utf8 ''start''" "valid_utf8 ''count''"
  by (simp_all add: valid_utf8_ascii is_ascii_def)

lemma renders_entry:
  assumes "d < 10000"
  shows "renders d (marshal_entry e) (JObj [(''start'', JNum (Itoa (sint (pe_Start e)))), (''count'', JNum (Itoa (sint (pe_Count e))))])"
  unfolding marshal_entry_def
  by (rule renders_object) (simp_all add: assms renders_members_def ascii_keys renders_int)

lemma decode_entry_printed:
  "decode_entry (JObj [(''start'', JNum (Itoa (sint (pe_Start e)))), (''count'', JNum (Itoa (sint (pe_Count e))))]) = Some e"
proof -
  have "json_int 32 (JNum (Itoa (sint (v :: int32)))) = Some (sint v)" for v
    using sint32_range [of v] by (intro json_int_Itoa) simp_all
  then show ?thesis by (simp add: decode_entry_def decode_struct_def entry_set_def entry_zero_def)
qed

definition marshal_entries :: "(string \<times> tenantPartitionMapEntry) list \<Rightarrow> string" where
  "marshal_entries es = json_object (map (\<lambda>(k, e). (k, marshal_entry e)) es)"

lemma unmarshal_marshal_entries:
  assumes "distinct (map fst es)" "list_all valid_utf8 (map fst es)"
  shows "unmarshal_entries (marshal_entries es) = Some (Some es)"
proof (cases "es = []")
  case True
  have "jvalue (Suc 0) 0 (CHR 0x7B # [CHR 0x7D]) = Some (JObj [], [])" by (simp add: is_ws_def)
  then have "json_decode (CHR 0x7B # [CHR 0x7D]) = Some (JObj [], [])" unfolding json_decode_def by (rule jvalue_more) simp
  then show ?thesis
    by (simp add: True marshal_entries_def json_object_def unmarshal_entries_def json_document_def decode_map_def)
next
  case False
  let ?v = "\<lambda>(k, e). (k, JObj [(''start'', JNum (Itoa (sint (pe_Start e)))), (''count'', JNum (Itoa (sint (pe_Count e))))])"
  have "renders_members 1 (map (\<lambda>(k, e). (k, marshal_entry e)) es) (map ?v es)"
    using assms(2) by (induction es) (auto simp: renders_members_def renders_entry)
  then have "json_document (marshal_entries es) = Some (JObj (map ?v es))"
    unfolding marshal_entries_def using False by (intro json_document_object) simp_all
  moreover have "list_all2 (\<lambda>(k, v) (k', x). k' = k \<and> decode_entry v = Some x) (map ?v es) es"
    by (induction es) (auto simp: decode_entry_printed)
  then have "decode_entries decode_entry (map ?v es) [] = Some es"
    using decode_entries_append [of decode_entry "map ?v es" es "[]"] assms(1) by simp
  ultimately show ?thesis by (simp add: unmarshal_entries_def decode_map_def)
qed

end
