(* ===== verification/Publisher.thy ===== *)
theory Publisher
  imports Wire Partitioner Metrics PartitionMap
begin

text \<open>
  The Kafka producer of the ingestion service, \<open>src/internal/ingestion/kafka/publisher.go\<close> and
  \<open>reload.go\<close>: its configuration, the publisher around the Kafka client, and the hot reload of the
  tenant reservations. The client library is a parameter: a \<open>producerClient\<close> is a record of functions
  over the state \<open>'w\<close>, made by the parameter \<open>newClient\<close> from the options the code passes.
\<close>

section \<open>Configuration\<close>

definition ErrInvalidProducerConfig :: goerror where
  "ErrInvalidProducerConfig = Sentinel ''invalid kafka producer config''"

text \<open>The only \<open>TenantPartitionSource\<close> is a file: None is nil, Some its path.\<close>

record ProducerConfig =
  pc_Brokers :: "string list"
  pc_Topic :: string
  pc_RequestTimeout :: duration
  pc_Linger :: duration
  pc_TenantPartitions :: TenantPartitionConfig
  pc_DefaultPartitionsPerTenant :: int32
  pc_TenantPartitionSource :: "string option"
  pc_TenantPartitionReloadInterval :: duration

definition Producer_LocalConfig :: ProducerConfig where
  "Producer_LocalConfig =
     \<lparr>pc_Brokers = [''localhost:9092''], pc_Topic = ''transaction-events'', pc_RequestTimeout = 10000000000,
      pc_Linger = 5000000, pc_TenantPartitions = [], pc_DefaultPartitionsPerTenant = 0,
      pc_TenantPartitionSource = None, pc_TenantPartitionReloadInterval = 0\<rparr>"

definition Producer_validate :: "ProducerConfig \<Rightarrow> error" where
  "Producer_validate cfg =
     (if pc_Brokers cfg = [] then Some (Wrap ''at least one broker is required'' ErrInvalidProducerConfig)
      else if list_ex (\<lambda>broker. strings_TrimSpace broker = []) (pc_Brokers cfg)
        then Some (Wrap ''broker address must not be blank'' ErrInvalidProducerConfig)
      else if strings_TrimSpace (pc_Topic cfg) = [] then Some (Wrap ''topic must not be blank'' ErrInvalidProducerConfig)
      else if sint (pc_RequestTimeout cfg) \<le> 0 then Some (Wrap ''RequestTimeout must be a positive duration'' ErrInvalidProducerConfig)
      else if sint (pc_Linger cfg) < 0 then Some (Wrap ''Linger must not be negative'' ErrInvalidProducerConfig)
      else if sint (pc_DefaultPartitionsPerTenant cfg) < 0
        then Some (Wrap ''DefaultPartitionsPerTenant must not be negative'' ErrInvalidProducerConfig)
      else (case find (\<lambda>(tenantID, sz). strings_TrimSpace tenantID = [] \<or> sint sz < 1) (pc_TenantPartitions cfg) of
              Some (tenantID, sz) \<Rightarrow>
                Some (Wrap (if strings_TrimSpace tenantID = [] then ''TenantPartitions key must not be blank''
                            else ''TenantPartitions size must be >= 1'') ErrInvalidProducerConfig)
            | None \<Rightarrow> None))"

text \<open>\<open>overrideDurationFromEnv\<close>: the variable if it is set, else the old value.\<close>

definition Producer_overrideDurationFromEnv :: "env \<Rightarrow> string \<Rightarrow> duration \<Rightarrow> duration result" where
  "Producer_overrideDurationFromEnv getenv name dest =
     (if getenv name = [] then Inr dest
      else case time_ParseDuration (getenv name) of Inl err \<Rightarrow> Inl (Wrap2 ErrInvalidProducerConfig name err) | Inr parsed \<Rightarrow> Inr parsed)"

definition Producer_ConfigFromEnv :: "env \<Rightarrow> ProducerConfig result" where
  "Producer_ConfigFromEnv getenv =
     (let config = Producer_LocalConfig;
          brokers = getenv ''KAFKA_BROKERS'';
          config = (if brokers \<noteq> [] then config\<lparr>pc_Brokers := strings_Split brokers (CHR '','')\<rparr> else config);
          topic = getenv ''KAFKA_TOPIC'';
          config = (if topic \<noteq> [] then config\<lparr>pc_Topic := topic\<rparr> else config)
      in bind_res (Producer_overrideDurationFromEnv getenv ''KAFKA_REQUEST_TIMEOUT'' (pc_RequestTimeout config)) (\<lambda>timeout.
         bind_res (Producer_overrideDurationFromEnv getenv ''KAFKA_LINGER'' (pc_Linger config)) (\<lambda>linger.
         let config = config\<lparr>pc_RequestTimeout := timeout, pc_Linger := linger\<rparr>;
             path = getenv ''TENANT_PARTITION_MAP_PATH'';
             config = (if path \<noteq> [] then config\<lparr>pc_TenantPartitionSource := Some path\<rparr> else config)
         in bind_res (Producer_overrideDurationFromEnv getenv ''TENANT_PARTITION_RELOAD_INTERVAL'' (pc_TenantPartitionReloadInterval config)) (\<lambda>interval.
            let config = config\<lparr>pc_TenantPartitionReloadInterval := interval\<rparr>
            in case Producer_validate config of Some err \<Rightarrow> Inl err | None \<Rightarrow> Inr config))))"

section \<open>Hot reload of the reservations\<close>

definition DefaultTenantPartitionReloadInterval :: duration where
  "DefaultTenantPartitionReloadInterval = 5000000000"

text \<open>\<open>Load\<close>: every entry must reserve at least one partition.\<close>

definition Producer_Load :: "files \<Rightarrow> string \<Rightarrow> TenantPartitionConfig result" where
  "Producer_Load readFile path =
     (case readFile path of Inl err \<Rightarrow> Inl (Wrap ''read tenant partition map'' err)
      | Inr raw \<Rightarrow>
          (case unmarshal_entries raw of None \<Rightarrow> Inl (Msg ''parse tenant partition map'')
           | Some m \<Rightarrow>
               if list_ex (\<lambda>(tenantID, entry). sint (pe_Count entry) < 1) (entries_of m)
               then Inl (Msg ''parse tenant partition map: count must be >= 1'')
               else Inr (map (\<lambda>(tenantID, entry). (tenantID, pe_Count entry)) (entries_of m))))"

record PublisherReloader =
  pr_Source :: string
  pr_DefaultSize :: int32
  pr_Interval :: duration

text \<open>\<open>reloadOnce\<close> on the shared reservations and the count of failed reloads.\<close>

definition Producer_reloadOnce ::
    "PublisherReloader \<Rightarrow> files \<Rightarrow> tenantPartitionerState \<times> nat \<Rightarrow> tenantPartitionerState \<times> nat" where
  "Producer_reloadOnce reloader readFile s =
     (case Producer_Load readFile (pr_Source reloader) of
        Inl err \<Rightarrow> (fst s, snd s + 1)
      | Inr reserved \<Rightarrow> (updateReservations reserved (pr_DefaultSize reloader) (fst s), snd s))"

text \<open>\<open>Run\<close>: the ticks until the context is canceled, each with the files as they are at that time.\<close>

definition Producer_reload_interval :: "PublisherReloader \<Rightarrow> duration" where
  "Producer_reload_interval reloader =
     (if sint (pr_Interval reloader) \<le> 0 then DefaultTenantPartitionReloadInterval else pr_Interval reloader)"

definition Producer_reload_Run :: "PublisherReloader \<Rightarrow> files list \<Rightarrow> tenantPartitionerState \<times> nat \<Rightarrow> tenantPartitionerState \<times> nat" where
  "Producer_reload_Run reloader ticks s = foldl (\<lambda>s readFile. Producer_reloadOnce reloader readFile s) s ticks"

section \<open>The publisher\<close>

record 'w producerClient =
  ProduceSync :: "ctx \<Rightarrow> kgo_Record \<Rightarrow> 'w \<Rightarrow> error \<times> 'w"
  Client_Close :: "'w \<Rightarrow> 'w"

text \<open>The options handed to \<open>kgo.NewClient\<close>; the acknowledgements asked for are those of all in-sync replicas.\<close>

record producer_options =
  po_SeedBrokers :: "string list"
  po_ClientID :: string
  po_DefaultProduceTopic :: string
  po_AllISRAcks :: bool
  po_ProduceRequestTimeout :: duration
  po_ProducerLinger :: duration
  po_RecordPartitioner :: tenantPartitionerState

record 'w KafkaPublisher =
  kp_client :: "'w producerClient"
  kp_topic :: string
  kp_stopReload :: "PublisherReloader option"

text \<open>A nil registerer is None; the publisher comes with the partitioner state its client shares.\<close>

definition NewPublisher ::
    "(producer_options \<Rightarrow> 'w \<Rightarrow> 'w producerClient result \<times> 'w) \<Rightarrow> ProducerConfig \<Rightarrow> 'w Registerer option \<Rightarrow> 'w
      \<Rightarrow> ('w KafkaPublisher \<times> tenantPartitionerState) result \<times> 'w" where
  "NewPublisher newClient cfg reg w =
     (case Producer_validate cfg of Some err \<Rightarrow> (Inl (Wrap ''new kafka publisher'' err), w)
      | None \<Rightarrow> (case reg of None \<Rightarrow> (Inl (Msg ''new kafka publisher: reg must not be nil''), w)
      | Some r \<Rightarrow> (case publisher_NewMetrics r w of (Inl err, w1) \<Rightarrow> (Inl (Wrap ''new kafka publisher'' err), w1)
      | (Inr kafkaMetrics, w1) \<Rightarrow>
          let defaultPartitions = (if pc_DefaultPartitionsPerTenant cfg = 0 then DefaultPartitionsPerTenant else pc_DefaultPartitionsPerTenant cfg);
              partitioner = newTenantPartitioner (pc_TenantPartitions cfg) defaultPartitions
          in (case newClient \<lparr>po_SeedBrokers = pc_Brokers cfg, po_ClientID = ''ingestion'', po_DefaultProduceTopic = pc_Topic cfg,
                             po_AllISRAcks = True, po_ProduceRequestTimeout = pc_RequestTimeout cfg,
                             po_ProducerLinger = pc_Linger cfg, po_RecordPartitioner = partitioner\<rparr> w1 of
               (Inl err, w2) \<Rightarrow> (Inl (Wrap ''new kafka publisher: create client'' err), w2)
             | (Inr client, w2) \<Rightarrow>
                 (Inr (\<lparr>kp_client = client, kp_topic = pc_Topic cfg,
                        kp_stopReload = map_option (\<lambda>source. \<lparr>pr_Source = source, pr_DefaultSize = defaultPartitions,
                          pr_Interval = pc_TenantPartitionReloadInterval cfg\<rparr>) (pc_TenantPartitionSource cfg)\<rparr>, partitioner), w2)))))"

text \<open>The record \<open>Publish\<close> produces; partition and offset are assigned by the client.\<close>

definition event_record :: "uuid_package \<Rightarrow> string \<Rightarrow> Event \<Rightarrow> kgo_Record" where
  "event_record u topic event =
     \<lparr>kr_Topic = topic, kr_Partition = 0, kr_Offset = 0, kr_Key = partitionKey (ev_TenantID event) (ev_Instrument event),
      kr_Value = event_payload u event\<rparr>"

definition KafkaPublisher_Publish :: "uuid_package \<Rightarrow> 'w KafkaPublisher \<Rightarrow> 'w Publisher" where
  "KafkaPublisher_Publish u pub ctx event w =
     (case ProduceSync (kp_client pub) ctx (event_record u (kp_topic pub) event) w of
        (Some err, w') \<Rightarrow> (Some (Wrap ''publish transaction event to kafka topic'' err), w')
      | (None, w') \<Rightarrow> (None, w'))"

text \<open>\<open>Close\<close>: \<open>stop\<close> cancels the reload goroutine and waits for it.\<close>

definition KafkaPublisher_Close :: "(PublisherReloader \<Rightarrow> 'w \<Rightarrow> 'w) \<Rightarrow> 'w KafkaPublisher \<Rightarrow> 'w \<Rightarrow> 'w" where
  "KafkaPublisher_Close stop pub w =
     Client_Close (kp_client pub) (case kp_stopReload pub of None \<Rightarrow> w | Some reloader \<Rightarrow> stop reloader w)"

section \<open>Properties\<close>

lemma find_case_None: "(case find P xs of Some (a, b) \<Rightarrow> Some (f a b) | None \<Rightarrow> None) = None \<longleftrightarrow> (\<forall>(a, b) \<in> set xs. \<not> P (a, b))"
  by (induction xs) auto

lemma Producer_validate_None:
  "Producer_validate cfg = None \<longleftrightarrow>
     pc_Brokers cfg \<noteq> [] \<and> (\<forall>broker \<in> set (pc_Brokers cfg). strings_TrimSpace broker \<noteq> []) \<and> strings_TrimSpace (pc_Topic cfg) \<noteq> []
     \<and> 0 < sint (pc_RequestTimeout cfg) \<and> 0 \<le> sint (pc_Linger cfg) \<and> 0 \<le> sint (pc_DefaultPartitionsPerTenant cfg)
     \<and> (\<forall>(tenantID, sz) \<in> set (pc_TenantPartitions cfg). strings_TrimSpace tenantID \<noteq> [] \<and> 1 \<le> sint sz)"
  by (auto simp: Producer_validate_def list_ex_iff not_le not_less find_case_None)

lemma Producer_ConfigFromEnv_Inr:
  assumes "Producer_ConfigFromEnv getenv = Inr cfg"
  shows "Producer_validate cfg = None" "pc_TenantPartitions cfg = []"
    "pc_TenantPartitionSource cfg = (if getenv ''TENANT_PARTITION_MAP_PATH'' = [] then None else Some (getenv ''TENANT_PARTITION_MAP_PATH''))"
  using assms
  by (auto simp: Producer_ConfigFromEnv_def Let_def bind_res_Inr_iff Producer_LocalConfig_def split: option.splits)

text \<open>
  C26: whatever the environment holds, a producer configuration that \<open>ConfigFromEnv\<close> returns is well
  formed: at least one broker, no blank broker or topic, a positive request timeout, a linger that is
  not negative, no fixed reservations, and hot reload enabled exactly when a map path is set.
\<close>

theorem Producer_config_well_formed:
  assumes "Producer_ConfigFromEnv getenv = Inr cfg"
  shows "pc_Brokers cfg \<noteq> [] \<and> (\<forall>broker \<in> set (pc_Brokers cfg). strings_TrimSpace broker \<noteq> [])
     \<and> strings_TrimSpace (pc_Topic cfg) \<noteq> [] \<and> 0 < sint (pc_RequestTimeout cfg) \<and> 0 \<le> sint (pc_Linger cfg)
     \<and> pc_TenantPartitions cfg = [] \<and> (pc_TenantPartitionSource cfg = None \<longleftrightarrow> getenv ''TENANT_PARTITION_MAP_PATH'' = [])"
  using Producer_ConfigFromEnv_Inr [OF assms] by (auto simp: Producer_validate_None)

lemmas trim_eval = strings_TrimSpace_def trim_runes.simps space_runes_def strings_HasPrefix_def

theorem Producer_config_well_formed_witness:
  "Producer_ConfigFromEnv (\<lambda>_. []) = Inr Producer_LocalConfig \<and> 0 < sint (pc_RequestTimeout Producer_LocalConfig)"
proof -
  have "strings_TrimSpace ''localhost:9092'' \<noteq> []" "strings_TrimSpace ''transaction-events'' \<noteq> []"
    by (simp_all add: TrimSpace_no_blank no_blank_def)
  then have c: "Producer_ConfigFromEnv (\<lambda>_. []) = Inr Producer_LocalConfig"
    by (simp add: Producer_ConfigFromEnv_def Producer_overrideDurationFromEnv_def Producer_LocalConfig_def Producer_validate_def)
  show ?thesis using c Producer_config_well_formed [OF c] by blast
qed

text \<open>What a load that succeeds returns.\<close>

lemma Producer_Load_Inr:
  assumes "Producer_Load readFile path = Inr reserved"
  shows "distinct (map fst reserved)" "\<forall>(tenantID, sz) \<in> set reserved. 1 \<le> sint sz"
proof -
  obtain raw m where m: "readFile path = Inr raw" "unmarshal_entries raw = Some m"
    "\<not> list_ex (\<lambda>(tenantID, entry). sint (pe_Count entry) < 1) (entries_of m)"
    "reserved = map (\<lambda>(tenantID, entry). (tenantID, pe_Count entry)) (entries_of m)"
    using assms by (auto simp: Producer_Load_def split: sum.splits option.splits if_splits)
  have "map fst reserved = map fst (entries_of m)" unfolding m(4) by (simp add: case_prod_unfold comp_def)
  then show "distinct (map fst reserved)" using entries_distinct [OF m(2)] by simp
  show "\<forall>(tenantID, sz) \<in> set reserved. 1 \<le> sint sz"
    using m(3) unfolding m(4) by (auto simp: list_ex_iff not_less)
qed

definition load_ok :: "PublisherReloader \<Rightarrow> files \<Rightarrow> bool" where
  "load_ok reloader readFile = (case Producer_Load readFile (pr_Source reloader) of Inl _ \<Rightarrow> False | Inr _ \<Rightarrow> True)"

lemma reload_Run_append:
  "Producer_reload_Run reloader (ticks @ [readFile]) s = Producer_reloadOnce reloader readFile (Producer_reload_Run reloader ticks s)"
  by (simp add: Producer_reload_Run_def)

text \<open>
  C25: hot reload keeps the last good reservations. After any sequence of polls, the reservations in
  force are those of the last poll that could be read and parsed (all of size at least one, with the
  configured default size), or the initial ones if there was none, and every failed poll is counted
  once.
\<close>

theorem reload_last_good:
  assumes "Producer_reload_Run reloader ticks (st, errs) = (st', errs')"
  shows "errs' = errs + length (filter (\<lambda>f. \<not> load_ok reloader f) ticks)
    \<and> (if filter (load_ok reloader) ticks = [] then st' = st
       else Producer_Load (last (filter (load_ok reloader) ticks)) (pr_Source reloader) = Inr (ps_reserved st')
         \<and> ps_defaultSize st' = pr_DefaultSize reloader \<and> (\<forall>(tenantID, sz) \<in> set (ps_reserved st'). 1 \<le> sint sz))"
  using assms
proof (induction ticks arbitrary: st' errs' rule: rev_induct)
  case (snoc f ticks)
  obtain st1 errs1 where s1: "Producer_reload_Run reloader ticks (st, errs) = (st1, errs1)" by fastforce
  show ?case
  proof (cases "Producer_Load f (pr_Source reloader)")
    case (Inl err)
    then show ?thesis
      using snoc.IH [OF s1] snoc.prems unfolding reload_Run_append s1 by (auto simp: Producer_reloadOnce_def load_ok_def split: if_splits)
  next
    case (Inr reserved)
    then show ?thesis
      using snoc.IH [OF s1] snoc.prems Producer_Load_Inr(2) [OF Inr] unfolding reload_Run_append s1
      by (auto simp: Producer_reloadOnce_def load_ok_def updateReservations_def split: if_splits)
  qed
qed (simp add: Producer_reload_Run_def)

definition demo_map :: "(string \<times> tenantPartitionMapEntry) list" where
  "demo_map = [(''acme'', \<lparr>pe_Start = 0, pe_Count = 4\<rparr>)]"

lemma demo_map_read: "unmarshal_entries (marshal_entries demo_map) = Some (Some demo_map)"
  by (rule unmarshal_marshal_entries) (simp_all add: demo_map_def valid_utf8_ascii is_ascii_def)

theorem reload_last_good_witness:
  "\<exists>st'. Producer_reload_Run \<lparr>pr_Source = ''map'', pr_DefaultSize = 1, pr_Interval = 0\<rparr>
      [\<lambda>_. Inl (Msg ''no such file''), \<lambda>_. Inr (marshal_entries demo_map), \<lambda>_. Inr ''x'']
      (newTenantPartitioner [] 1, 0) = (st', 2) \<and> ps_reserved st' = [(''acme'', 4)]"
proof -
  let ?r = "\<lparr>pr_Source = ''map'', pr_DefaultSize = 1, pr_Interval = 0\<rparr>"
  let ?ticks = "[\<lambda>_. Inl (Msg ''no such file''), \<lambda>_. Inr (marshal_entries demo_map), \<lambda>_. Inr ''x''] :: files list"
  have bad: "Producer_Load (\<lambda>_. Inr ''x'') ''map'' = Inl (Msg ''parse tenant partition map'')"
    by (simp add: Producer_Load_def unmarshal_entries_def json_document_def json_decode_def is_ws_def scan_number_def scan_int_def
        scan_digits_def is_digit_def numeral_3_eq_3)
  have good: "Producer_Load (\<lambda>_. Inr (marshal_entries demo_map)) ''map'' = Inr [(''acme'', 4)]"
    unfolding Producer_Load_def sum.case demo_map_read option.case by (simp add: entries_of_def demo_map_def)
  obtain st' errs' where run: "Producer_reload_Run ?r ?ticks (newTenantPartitioner [] 1, 0) = (st', errs')" by fastforce
  show ?thesis
    using reload_last_good [OF run] run good bad by (simp add: load_ok_def Producer_Load_def)
qed

end
