(* ===== verification/Ingestion.thy ===== *)
theory Ingestion
  imports LedgerBreaker Publisher
begin

text \<open>
  The publish path of the ingestion service, \<open>src/internal/ingestion/breaker.go\<close>,
  \<open>backpressure.go\<close> and \<open>metrics.go\<close>: three decorators that implement \<open>Publisher\<close> around another
  one. Each reaches its own piece of the state \<open>'w\<close> through a reference, as the repository breakers
  do. The locale \<open>event_publisher\<close> states the contract of the interface, every decorator keeps it, and
  the chain that \<open>src/cmd/ingestion/main.go\<close> builds around the Kafka publisher satisfies it.
\<close>

section \<open>Model of breaker.go\<close>

record 'w CircuitBreaker =
  cb_next :: "'w Publisher"
  cb_machine :: "'w machine_ref"

definition NewCircuitBreaker :: "'w machine_ref \<Rightarrow> 'w Publisher option \<Rightarrow> Config \<Rightarrow> 'w \<Rightarrow> 'w CircuitBreaker result \<times> 'w" where
  "NewCircuitBreaker ref nxt config w =
     (case nxt of None \<Rightarrow> (Inl (Msg ''new circuit breaker: next Publisher must not be nil''), w)
      | Some n \<Rightarrow> (case New config of Inl err \<Rightarrow> (Inl (Wrap ''new circuit breaker'' err), w)
         | Inr m \<Rightarrow> (Inr \<lparr>cb_next = n, cb_machine = ref\<rparr>, m_set ref m w)))"

definition CircuitBreaker_State :: "'w CircuitBreaker \<Rightarrow> 'w \<Rightarrow> State" where
  "CircuitBreaker_State breaker w = m_state (m_get (cb_machine breaker) w)"

definition CircuitBreaker_Publish :: "'w CircuitBreaker \<Rightarrow> 'w Publisher" where
  "CircuitBreaker_Publish breaker ctx event w =
     (let ((allowed, isProbe), w1) = allow_at (cb_machine breaker) w
      in if \<not> allowed then (Some ErrCircuitOpen, w1)
         else let publishCtx = ProbeContext (m_now (cb_machine breaker) w1) (m_get (cb_machine breaker) w1) ctx isProbe;
                  (err, w2) = cb_next breaker publishCtx event w1
              in (err, record_at (cb_machine breaker) err w2))"

section \<open>Model of backpressure.go\<close>

definition ErrPublishQueueFull :: goerror where "ErrPublishQueueFull = Sentinel ''publish queue full''"
definition ErrInvalidBackpressureConfig :: goerror where
  "ErrInvalidBackpressureConfig = Sentinel ''invalid backpressure config''"

definition maxBackpressureInFlight :: int64 where "maxBackpressureInFlight = 100000"

record BackpressureConfig =
  MaxInFlight :: int64

definition Backpressure_validate :: "BackpressureConfig \<Rightarrow> error" where
  "Backpressure_validate config =
     (if sint (MaxInFlight config) \<le> 0 then Some (Wrap ''MaxInFlight must be positive'' ErrInvalidBackpressureConfig)
      else if sint (MaxInFlight config) > sint maxBackpressureInFlight
        then Some (Wrap ''MaxInFlight must not exceed the maximum'' ErrInvalidBackpressureConfig)
      else None)"

text \<open>A buffered channel of empty structs is the number of elements it holds; the reference reaches it in the state.\<close>

record 'w slots_ref =
  s_get :: "'w \<Rightarrow> nat"
  s_set :: "nat \<Rightarrow> 'w \<Rightarrow> 'w"

record 'w BackpressureLimiter =
  bl_next :: "'w Publisher"
  bl_slots :: "'w slots_ref"
  bl_capacity :: nat

definition NewBackpressureLimiter ::
    "'w slots_ref \<Rightarrow> 'w Publisher option \<Rightarrow> BackpressureConfig \<Rightarrow> 'w \<Rightarrow> 'w BackpressureLimiter result \<times> 'w" where
  "NewBackpressureLimiter ref nxt config w =
     (case nxt of None \<Rightarrow> (Inl (Msg ''new backpressure limiter: next Publisher must not be nil''), w)
      | Some n \<Rightarrow> (case Backpressure_validate config of Some err \<Rightarrow> (Inl (Wrap ''new backpressure limiter'' err), w)
         | None \<Rightarrow> (Inr \<lparr>bl_next = n, bl_slots = ref, bl_capacity = nat (sint (MaxInFlight config))\<rparr>, s_set ref 0 w)))"

text \<open>The send in the \<open>select\<close>: None when the channel is full. The receive of \<open>releaseSlot\<close>: None when it would block.\<close>

definition acquireSlot :: "nat \<Rightarrow> nat \<Rightarrow> nat option" where
  "acquireSlot capacity n = (if n < capacity then Some (n + 1) else None)"

definition releaseSlot :: "nat \<Rightarrow> nat option" where
  "releaseSlot n = (if 0 < n then Some (n - 1) else None)"

definition BackpressureLimiter_Publish :: "'w BackpressureLimiter \<Rightarrow> 'w Publisher" where
  "BackpressureLimiter_Publish limiter ctx event w =
     (case acquireSlot (bl_capacity limiter) (s_get (bl_slots limiter) w) of
        None \<Rightarrow> (Some ErrPublishQueueFull, w)
      | Some n \<Rightarrow>
          let (err, w1) = bl_next limiter ctx event (s_set (bl_slots limiter) n w)
          in (err, case releaseSlot (s_get (bl_slots limiter) w1) of Some k \<Rightarrow> s_set (bl_slots limiter) k w1 | None \<Rightarrow> w1))"

section \<open>Model of metrics.go\<close>

record 'w InstrumentedPublisher =
  ip_next :: "'w Publisher"
  ip_meter :: "'w meter"
  ip_breaker :: "('w \<Rightarrow> State) option"
  ip_now :: "'w \<Rightarrow> time"

definition NewInstrumentedPublisher ::
    "'w Publisher option \<Rightarrow> 'w meter option \<Rightarrow> ('w \<Rightarrow> State) option \<Rightarrow> ('w \<Rightarrow> time) \<Rightarrow> 'w InstrumentedPublisher result" where
  "NewInstrumentedPublisher nxt reportedMetrics breaker now =
     (case nxt of None \<Rightarrow> Inl (Msg ''new instrumented publisher: next Publisher must not be nil'')
      | Some n \<Rightarrow> (case reportedMetrics of None \<Rightarrow> Inl (Msg ''new instrumented publisher: metrics must not be nil'')
         | Some meter \<Rightarrow> Inr \<lparr>ip_next = n, ip_meter = meter, ip_breaker = breaker, ip_now = now\<rparr>))"

definition InstrumentedPublisher_Publish :: "'w InstrumentedPublisher \<Rightarrow> 'w Publisher" where
  "InstrumentedPublisher_Publish instrumented ctx event w =
     (let start = ip_now instrumented w;
          (err, w1) = ip_next instrumented ctx event w;
          elapsed = duration_Seconds (time_Sub (ip_now instrumented w1) start);
          outcome = (if err \<noteq> None then ''failure'' else ''success'');
          w2 = ip_meter instrumented (Inc ''ingestion_transactions_processed_total'' [outcome]) w1;
          w3 = ip_meter instrumented (Observe ''ingestion_publish_latency_seconds'' [outcome] elapsed) w2;
          w4 = (case ip_breaker instrumented of None \<Rightarrow> w3
                | Some st \<Rightarrow> ip_meter instrumented (SetGauge ''ingestion_kafka_circuit_breaker_state'' [] (breakerStateValue (st w3))) w3)
      in (err, w4))"

section \<open>The contract of a publisher\<close>

text \<open>
  \<open>durable\<close> is what has been written, \<open>written\<close> what an event becomes there. A nil error says that the
  event was written; an error leaves it open, since an acknowledgement can be lost.
\<close>

locale event_publisher =
  fixes P :: "'w Publisher" and durable :: "'w \<Rightarrow> 'r list" and written_as :: "Event \<Rightarrow> 'r"
  assumes acknowledged: "P ctx event w = (None, w') \<Longrightarrow> durable w' = durable w @ [written_as event]"
    and refused: "P ctx event w = (Some err, w') \<Longrightarrow> durable w' = durable w \<or> durable w' = durable w @ [written_as event]"

begin

lemma outcome:
  "P ctx event w = (r, w') \<Longrightarrow> (r = None \<longrightarrow> durable w' = durable w @ [written_as event])
    \<and> (durable w' = durable w \<or> durable w' = durable w @ [written_as event])"
  using acknowledged refused by (cases r) auto

end

lemma event_publisherI:
  assumes "\<And>ctx event w r w'. P ctx event w = (r, w') \<Longrightarrow> (r = None \<longrightarrow> durable w' = durable w @ [written_as event])
    \<and> (durable w' = durable w \<or> durable w' = durable w @ [written_as event])"
  shows "event_publisher P durable written_as"
  by unfold_locales (use assms in blast)+

lemma CircuitBreaker_guarded:
  "CircuitBreaker_Publish b ctx event = guarded (cb_machine b) ctx (\<lambda>c. cb_next b c event) id [] (Some ErrCircuitOpen)"
  by (auto simp: fun_eq_iff CircuitBreaker_Publish_def guarded_def Let_def split: prod.splits)

text \<open>The pieces of state of the decorators lie beside what is durable.\<close>

locale publish_path = event_publisher P durable written_as
  for P :: "'w Publisher" and durable :: "'w \<Rightarrow> 'r list" and written_as :: "Event \<Rightarrow> 'r" +
  fixes machine :: "'w machine_ref" and slots :: "'w slots_ref" and meter :: "'w meter" and now :: "'w \<Rightarrow> time" and capacity :: nat
  assumes frame_machine: "durable (m_set machine m w) = durable w"
    and frame_slots: "durable (s_set slots n w) = durable w"
    and frame_meter: "durable (meter c w) = durable w"
begin

definition breaker where "breaker = \<lparr>cb_next = P, cb_machine = machine\<rparr>"

definition limiter where "limiter = \<lparr>bl_next = CircuitBreaker_Publish breaker, bl_slots = slots, bl_capacity = capacity\<rparr>"

definition instrumented where
  "instrumented = \<lparr>ip_next = BackpressureLimiter_Publish limiter, ip_meter = meter, ip_breaker = Some (CircuitBreaker_State breaker), ip_now = now\<rparr>"

lemma breaker_contract: "event_publisher (CircuitBreaker_Publish breaker) durable written_as"
proof (rule event_publisherI)
  fix ctx event w r w'
  assume "CircuitBreaker_Publish breaker ctx event w = (r, w')"
  then have "guarded machine ctx (\<lambda>c. P c event) id [] (Some ErrCircuitOpen) w = (r, w')"
    by (simp add: CircuitBreaker_guarded breaker_def)
  then show "(r = None \<longrightarrow> durable w' = durable w @ [written_as event]) \<and> (durable w' = durable w \<or> durable w' = durable w @ [written_as event])"
  proof (cases rule: guarded_cases)
    case (called c m1 w2 m2)
    then show ?thesis using outcome [OF called(1)] by (simp add: frame_machine)
  qed (simp add: frame_machine)
qed

lemma limiter_contract: "event_publisher (BackpressureLimiter_Publish limiter) durable written_as"
proof (rule event_publisherI)
  fix ctx event w r w'
  assume a: "BackpressureLimiter_Publish limiter ctx event w = (r, w')"
  show "(r = None \<longrightarrow> durable w' = durable w @ [written_as event]) \<and> (durable w' = durable w \<or> durable w' = durable w @ [written_as event])"
  proof (cases "acquireSlot capacity (s_get slots w)")
    case None
    then show ?thesis using a by (auto simp: BackpressureLimiter_Publish_def limiter_def)
  next
    case (Some n)
    obtain r1 w1 where c: "CircuitBreaker_Publish breaker ctx event (s_set slots n w) = (r1, w1)" by fastforce
    then show ?thesis
      using a Some event_publisher.outcome [OF breaker_contract c]
      by (auto simp: BackpressureLimiter_Publish_def limiter_def frame_slots split: option.splits)
  qed
qed

lemma instrumented_contract: "event_publisher (InstrumentedPublisher_Publish instrumented) durable written_as"
proof (rule event_publisherI)
  fix ctx event w r w'
  assume a: "InstrumentedPublisher_Publish instrumented ctx event w = (r, w')"
  obtain r1 w1 where c: "BackpressureLimiter_Publish limiter ctx event w = (r1, w1)" by fastforce
  then show "(r = None \<longrightarrow> durable w' = durable w @ [written_as event]) \<and> (durable w' = durable w \<or> durable w' = durable w @ [written_as event])"
    using a event_publisher.outcome [OF limiter_contract c]
    by (auto simp: InstrumentedPublisher_Publish_def instrumented_def Let_def frame_meter)
qed

end

sublocale publish_path \<subseteq> chain: event_publisher "InstrumentedPublisher_Publish instrumented" durable written_as
  by (rule instrumented_contract)

section \<open>The chain around the Kafka publisher\<close>

text \<open>
  The broker answers the calls from a script: an acknowledged write, a refusal, or a write whose
  acknowledgement is lost, each after some time. The theorems hold for every script.
\<close>

datatype produce_outcome = Acked | Refused goerror | AckLost goerror

record ingestion_world =
  iw_log :: "kgo_Record list"
  iw_script :: "(nat \<times> produce_outcome) list"
  iw_now :: time
  iw_machine :: Machine
  iw_slots :: nat
  iw_metrics :: "metric_call list"

definition broker_ProduceSync :: "ctx \<Rightarrow> kgo_Record \<Rightarrow> ('a ingestion_world_scheme) \<Rightarrow> error \<times> ('a ingestion_world_scheme)" where
  "broker_ProduceSync ctx r w =
     (case iw_script w of
        [] \<Rightarrow> (Some (Msg ''broker unavailable''), w)
      | (d, answer) # script \<Rightarrow>
          let w1 = w\<lparr>iw_script := script, iw_now := iw_now w + int d\<rparr>
          in (case answer of
               Acked \<Rightarrow> (None, w1\<lparr>iw_log := iw_log w @ [r]\<rparr>)
             | Refused err \<Rightarrow> (Some err, w1)
             | AckLost err \<Rightarrow> (Some err, w1\<lparr>iw_log := iw_log w @ [r]\<rparr>)))"

definition broker_client :: "('a ingestion_world_scheme) producerClient" where
  "broker_client = \<lparr>ProduceSync = broker_ProduceSync, Client_Close = (\<lambda>w. w)\<rparr>"

definition publish_machine :: "('a ingestion_world_scheme) machine_ref" where
  "publish_machine = \<lparr>m_get = iw_machine, m_set = (\<lambda>m. iw_machine_update (\<lambda>_. m)), m_now = iw_now\<rparr>"

definition publish_slots :: "('a ingestion_world_scheme) slots_ref" where
  "publish_slots = \<lparr>s_get = iw_slots, s_set = (\<lambda>n. iw_slots_update (\<lambda>_. n))\<rparr>"

definition publish_meter :: "('a ingestion_world_scheme) meter" where
  "publish_meter c = iw_metrics_update (\<lambda>cs. cs @ [c])"

definition kafka_publisher :: "string \<Rightarrow> ('a ingestion_world_scheme) KafkaPublisher" where
  "kafka_publisher topic = \<lparr>kp_client = broker_client, kp_topic = topic, kp_stopReload = None\<rparr>"

text \<open>\<open>run\<close> of \<open>cmd/ingestion/main.go\<close>: the limiter around the breaker around the Kafka publisher, instrumented.\<close>

definition publish_breaker :: "uuid_package \<Rightarrow> string \<Rightarrow> ('a ingestion_world_scheme) CircuitBreaker" where
  "publish_breaker u topic = \<lparr>cb_next = KafkaPublisher_Publish u (kafka_publisher topic), cb_machine = publish_machine\<rparr>"

definition publish_limiter :: "uuid_package \<Rightarrow> string \<Rightarrow> nat \<Rightarrow> ('a ingestion_world_scheme) BackpressureLimiter" where
  "publish_limiter u topic capacity =
     \<lparr>bl_next = CircuitBreaker_Publish (publish_breaker u topic), bl_slots = publish_slots, bl_capacity = capacity\<rparr>"

definition publish_chain :: "uuid_package \<Rightarrow> string \<Rightarrow> nat \<Rightarrow> ('a ingestion_world_scheme) Publisher" where
  "publish_chain u topic capacity =
     InstrumentedPublisher_Publish \<lparr>ip_next = BackpressureLimiter_Publish (publish_limiter u topic capacity), ip_meter = publish_meter,
       ip_breaker = Some (CircuitBreaker_State (publish_breaker u topic)), ip_now = iw_now\<rparr>"

lemma kafka_publisher_outcome:
  assumes "KafkaPublisher_Publish u (kafka_publisher topic) ctx event w = (r, w')"
  shows "(r = None \<longrightarrow> iw_log w' = iw_log w @ [event_record u topic event])
    \<and> (iw_log w' = iw_log w \<or> iw_log w' = iw_log w @ [event_record u topic event])"
    and "iw_slots w' = iw_slots w" "iw_machine w' = iw_machine w" "iw_metrics w' = iw_metrics w"
  using assms
  by (auto simp: KafkaPublisher_Publish_def kafka_publisher_def broker_client_def broker_ProduceSync_def Let_def
      split: list.splits prod.splits produce_outcome.splits option.splits)

interpretation kafka: event_publisher "KafkaPublisher_Publish u (kafka_publisher topic)" iw_log "event_record u topic" for u topic
  by (rule event_publisherI) (rule kafka_publisher_outcome)

interpretation path: publish_path "KafkaPublisher_Publish u (kafka_publisher topic)" iw_log "event_record u topic"
    publish_machine publish_slots publish_meter iw_now capacity for u topic capacity
  by unfold_locales (simp_all add: publish_machine_def publish_slots_def publish_meter_def)

lemma publish_chain_path: "publish_chain u topic capacity = InstrumentedPublisher_Publish (path.instrumented u topic capacity)"
  by (simp add: publish_chain_def path.instrumented_def path.limiter_def path.breaker_def publish_limiter_def publish_breaker_def)

lemma publish_chain_outcome:
  assumes "publish_chain u topic capacity ctx event w = (r, w')"
  shows "(r = None \<longrightarrow> iw_log w' = iw_log w @ [event_record u topic event])
    \<and> (iw_log w' = iw_log w \<or> iw_log w' = iw_log w @ [event_record u topic event])"
  using path.chain.outcome [OF assms [unfolded publish_chain_path]] .

text \<open>What the chain does besides: the slot is given back, and the outcome is counted.\<close>

lemma breaker_frame:
  assumes "CircuitBreaker_Publish (publish_breaker u topic) ctx event w = (r, w')"
  shows "iw_slots w' = iw_slots w \<and> iw_metrics w' = iw_metrics w"
proof -
  have "guarded publish_machine ctx (\<lambda>c. KafkaPublisher_Publish u (kafka_publisher topic) c event) id [] (Some ErrCircuitOpen) w = (r, w')"
    using assms by (simp add: CircuitBreaker_guarded publish_breaker_def)
  then show ?thesis
  proof (cases rule: guarded_cases)
    case (called c m1 w2 m2)
    then show ?thesis using kafka_publisher_outcome(2,4) [OF called(1)] by (simp add: publish_machine_def)
  qed (simp add: publish_machine_def)
qed

definition outcome_label :: "error \<Rightarrow> string" where
  "outcome_label r = (if r = None then ''success'' else ''failure'')"

lemma publish_chain_frame:
  assumes "publish_chain u topic capacity ctx event w = (r, w')"
  shows "iw_slots w' = iw_slots w"
    and "\<exists>d v. iw_metrics w' = iw_metrics w @ [Inc ''ingestion_transactions_processed_total'' [outcome_label r],
        Observe ''ingestion_publish_latency_seconds'' [outcome_label r] d, SetGauge ''ingestion_kafka_circuit_breaker_state'' [] v]"
    and "capacity \<le> iw_slots w \<Longrightarrow> r = Some ErrPublishQueueFull \<and> iw_log w' = iw_log w \<and> iw_machine w' = iw_machine w"
proof -
  obtain r1 w1 where l: "BackpressureLimiter_Publish (publish_limiter u topic capacity) ctx event w = (r1, w1)" by fastforce
  have c: "r = r1" "iw_slots w' = iw_slots w1" "iw_log w' = iw_log w1" "iw_machine w' = iw_machine w1"
    "\<exists>d v. iw_metrics w' = iw_metrics w1 @ [Inc ''ingestion_transactions_processed_total'' [outcome_label r1],
        Observe ''ingestion_publish_latency_seconds'' [outcome_label r1] d, SetGauge ''ingestion_kafka_circuit_breaker_state'' [] v]"
    using assms l by (auto simp: publish_chain_def InstrumentedPublisher_Publish_def publish_meter_def Let_def outcome_label_def)
  show "capacity \<le> iw_slots w \<Longrightarrow> r = Some ErrPublishQueueFull \<and> iw_log w' = iw_log w \<and> iw_machine w' = iw_machine w"
    using l c by (auto simp: BackpressureLimiter_Publish_def publish_limiter_def publish_slots_def acquireSlot_def)
  have "iw_slots w1 = iw_slots w \<and> iw_metrics w1 = iw_metrics w"
  proof (cases "iw_slots w < capacity")
    case True
    obtain r2 w2 where b: "CircuitBreaker_Publish (publish_breaker u topic) ctx event (w\<lparr>iw_slots := iw_slots w + 1\<rparr>) = (r2, w2)" by fastforce
    show ?thesis
      using l b True breaker_frame [OF b]
      by (auto simp: BackpressureLimiter_Publish_def publish_limiter_def publish_slots_def acquireSlot_def releaseSlot_def)
  next
    case False
    then show ?thesis using l by (auto simp: BackpressureLimiter_Publish_def publish_limiter_def publish_slots_def acquireSlot_def)
  qed
  then show "iw_slots w' = iw_slots w"
    "\<exists>d v. iw_metrics w' = iw_metrics w @ [Inc ''ingestion_transactions_processed_total'' [outcome_label r],
        Observe ''ingestion_publish_latency_seconds'' [outcome_label r] d, SetGauge ''ingestion_kafka_circuit_breaker_state'' [] v]"
    using c by auto
qed

text \<open>
  C13: the publish path never reports success for an event that did not reach Kafka. For every broker
  behaviour, when \<open>Publish\<close> of the chain (metrics, backpressure, circuit breaker, Kafka publisher)
  returns nil, the topic's log has grown by exactly the event's record; when it returns an error, the
  log has grown by that record at most. Either way the in-flight slot is given back and the outcome is
  counted once.
\<close>

theorem publish_acknowledged_durable:
  assumes "publish_chain u topic capacity ctx event w = (r, w')"
  shows "(if r = None then iw_log w' = iw_log w @ [event_record u topic event]
      else iw_log w' = iw_log w \<or> iw_log w' = iw_log w @ [event_record u topic event])
    \<and> iw_slots w' = iw_slots w
    \<and> (\<exists>d v. iw_metrics w' = iw_metrics w @ [Inc ''ingestion_transactions_processed_total'' [outcome_label r],
        Observe ''ingestion_publish_latency_seconds'' [outcome_label r] d, SetGauge ''ingestion_kafka_circuit_breaker_state'' [] v])"
  using publish_chain_outcome [OF assms] publish_chain_frame(1,2) [OF assms] by auto

definition demo_event :: Event where
  "demo_event = \<lparr>ev_EventID = 7, ev_TenantID = ''acme'', ev_SchemaVersion = CurrentSchemaVersion, ev_Instrument = ''BTC'',
     ev_Side = SideBuy, ev_Quantity = 100000000, ev_Price = 200000000, ev_Currency = ''USD'',
     ev_OccurredAt = \<lparr>gt_ns = 0, gt_offset = 0\<rparr>\<rparr>"

definition demo_ingestion :: "(nat \<times> produce_outcome) list \<Rightarrow> ingestion_world" where
  "demo_ingestion script =
     \<lparr>iw_log = [], iw_script = script, iw_now = 0,
      iw_machine = \<lparr>m_config = \<lparr>FailureThreshold = 5, OpenTimeout = 30, ProbeTimeout = 0\<rparr>, m_state = Closed,
        m_consecutiveFailures = 0, m_openedAt = 0\<rparr>, iw_slots = 0, iw_metrics = []\<rparr>"

lemmas chain_eval = publish_chain_def InstrumentedPublisher_Publish_def publish_meter_def BackpressureLimiter_Publish_def publish_limiter_def
  publish_slots_def acquireSlot_def releaseSlot_def CircuitBreaker_Publish_def publish_breaker_def allow_at_def record_at_def Allow_def
  publish_machine_def KafkaPublisher_Publish_def kafka_publisher_def broker_client_def broker_ProduceSync_def demo_ingestion_def Let_def

theorem publish_acknowledged_durable_witness:
  "\<exists>w'. publish_chain decimal_uuid ''t'' 2 None demo_event (demo_ingestion [(5, Acked)]) = (None, w') \<and> iw_log w' = [event_record decimal_uuid ''t'' demo_event]"
proof -
  obtain w' where run: "publish_chain decimal_uuid ''t'' 2 None demo_event (demo_ingestion [(5, Acked)]) = (None, w')"
    by (simp add: chain_eval)
  show ?thesis using run publish_acknowledged_durable [OF run] by (auto simp: demo_ingestion_def)
qed

section \<open>Concurrent publishes\<close>

text \<open>
  Callers of one limiter, each between taking a slot and giving it back or not there at all; a caller
  that finds the channel full returns at once.
\<close>

record bp_sys =
  bp_slots :: nat
  bp_inflight :: "nat set"

inductive bp_step :: "nat \<Rightarrow> bp_sys \<Rightarrow> bp_sys \<Rightarrow> bool" for capacity where
  enter: "i \<notin> bp_inflight s \<Longrightarrow> acquireSlot capacity (bp_slots s) = Some n
    \<Longrightarrow> bp_step capacity s \<lparr>bp_slots = n, bp_inflight = insert i (bp_inflight s)\<rparr>"
| shed: "acquireSlot capacity (bp_slots s) = None \<Longrightarrow> bp_step capacity s s"
| leave: "i \<in> bp_inflight s \<Longrightarrow> releaseSlot (bp_slots s) = Some n
    \<Longrightarrow> bp_step capacity s \<lparr>bp_slots = n, bp_inflight = bp_inflight s - {i}\<rparr>"

definition bp_start :: bp_sys where "bp_start = \<lparr>bp_slots = 0, bp_inflight = {}\<rparr>"

lemma bp_invariant:
  assumes "(bp_step capacity)\<^sup>*\<^sup>* bp_start s"
  shows "finite (bp_inflight s) \<and> card (bp_inflight s) = bp_slots s \<and> bp_slots s \<le> capacity"
  using assms
proof (induction rule: rtranclp_induct)
  case (step s s')
  from step.hyps(2) show ?case
  proof cases
    case (leave i n)
    then have "card (bp_inflight s - {i}) = card (bp_inflight s) - 1" using step.IH by (simp add: card_Diff_singleton)
    then show ?thesis using leave step.IH by (auto simp: releaseSlot_def split: if_splits)
  qed (use step.IH in \<open>auto simp: acquireSlot_def split: if_splits\<close>)
qed (simp add: bp_start_def)

text \<open>
  Backpressure. A limiter that \<open>NewBackpressureLimiter\<close> accepts lets at most \<open>MaxInFlight\<close>
  (between 1 and 100000) calls into the wrapped publisher at any time, under every interleaving of
  callers: the calls inside are as many as the slots taken, a call is shed exactly when \<open>MaxInFlight\<close>
  are inside, and giving a slot back never blocks.
\<close>

theorem backpressure_bound:
  assumes "NewBackpressureLimiter ref (Some nxt) config w = (Inr limiter, w')"
    and "(bp_step (bl_capacity limiter))\<^sup>*\<^sup>* bp_start s"
  shows "int (bl_capacity limiter) = sint (MaxInFlight config) \<and> 1 \<le> bl_capacity limiter \<and> bl_capacity limiter \<le> 100000
    \<and> card (bp_inflight s) = bp_slots s \<and> card (bp_inflight s) \<le> bl_capacity limiter
    \<and> (acquireSlot (bl_capacity limiter) (bp_slots s) = None \<longleftrightarrow> card (bp_inflight s) = bl_capacity limiter)
    \<and> (bp_inflight s = {} \<or> releaseSlot (bp_slots s) = Some (card (bp_inflight s) - 1))"
proof -
  have "sint maxBackpressureInFlight = 100000" by (simp add: maxBackpressureInFlight_def)
  then have c: "int (bl_capacity limiter) = sint (MaxInFlight config)" "1 \<le> sint (MaxInFlight config)" "sint (MaxInFlight config) \<le> 100000"
    using assms(1) by (auto simp: NewBackpressureLimiter_def Backpressure_validate_def split: option.splits if_splits)
  note i = bp_invariant [OF assms(2)]
  then have "0 < bp_slots s" if "bp_inflight s \<noteq> {}" using that by (metis card_gt_0_iff)
  then show ?thesis using i c by (auto simp: acquireSlot_def releaseSlot_def)
qed

theorem backpressure_bound_witness:
  "\<exists>limiter w' s. NewBackpressureLimiter publish_slots (Some (publish_chain decimal_uuid ''t'' 1)) \<lparr>MaxInFlight = 1\<rparr> (demo_ingestion []) = (Inr limiter, w')
     \<and> (bp_step (bl_capacity limiter))\<^sup>*\<^sup>* bp_start s \<and> bp_inflight s = {3} \<and> acquireSlot (bl_capacity limiter) (bp_slots s) = None"
proof -
  let ?l = "\<lparr>bl_next = publish_chain decimal_uuid ''t'' 1, bl_slots = publish_slots, bl_capacity = 1\<rparr>"
  let ?s = "\<lparr>bp_slots = 1, bp_inflight = {3}\<rparr>"
  have n: "NewBackpressureLimiter publish_slots (Some (publish_chain decimal_uuid ''t'' 1)) \<lparr>MaxInFlight = 1\<rparr> (demo_ingestion []) = (Inr ?l, demo_ingestion [])"
    by (simp add: NewBackpressureLimiter_def Backpressure_validate_def maxBackpressureInFlight_def publish_slots_def demo_ingestion_def)
  have "bp_step (bl_capacity ?l) bp_start ?s"
    using bp_step.enter [of 3 bp_start "bl_capacity ?l" 1] by (simp add: bp_start_def acquireSlot_def)
  then have r: "(bp_step (bl_capacity ?l))\<^sup>*\<^sup>* bp_start ?s" by simp
  have f: "acquireSlot (bl_capacity ?l) (bp_slots ?s) = None" using backpressure_bound [OF n r] by simp
  show ?thesis by (rule exI [of _ ?l], rule exI [of _ "demo_ingestion []"], rule exI [of _ ?s]) (intro conjI n r f, simp)
qed

end
