(* ===== verification/RateLimiter.thy ===== *)
theory RateLimiter
  imports GoConf Partitioner
begin

text \<open>
  The per-key token bucket, \<open>src/internal/api/rate_limiter.go\<close>. Token counts are \<open>float64\<close> values of
  \<open>GoFloat\<close>; the sharded map is a function from shard numbers to maps. Every method of a bucket holds
  its mutex, and a bucket is looked up and created under the shard's lock, so \<open>allow\<close> is one step on
  the limiter; the time it reads is an argument.
\<close>

section \<open>Model of rate_limiter.go\<close>

record RateLimitConfig =
  RequestsPerSecond :: f64
  Burst :: int64

record tokenBucket =
  tb_tokens :: f64
  tb_lastRefill :: time

definition tokenBucket_allow :: "f64 \<Rightarrow> f64 \<Rightarrow> time \<Rightarrow> tokenBucket \<Rightarrow> bool \<times> tokenBucket" where
  "tokenBucket_allow rate burst now bucket =
     (let elapsed = duration_Seconds (time_Sub now (tb_lastRefill bucket));
          tokens = f64_min burst (f64_add (tb_tokens bucket) (f64_mul elapsed rate))
      in if f64_less tokens (Fin 1) then (False, \<lparr>tb_tokens = tokens, tb_lastRefill = now\<rparr>)
         else (True, \<lparr>tb_tokens = f64_sub tokens (Fin 1), tb_lastRefill = now\<rparr>))"

definition rateLimiterShardCount :: nat where "rateLimiterShardCount = 64"

type_synonym rateLimiterShard = "string \<rightharpoonup> tokenBucket"

record rateLimiter =
  rl_rate :: f64
  rl_burst :: f64
  rl_shards :: "uint32 \<Rightarrow> rateLimiterShard"

definition newRateLimiter :: "RateLimitConfig \<Rightarrow> rateLimiter result" where
  "newRateLimiter cfg =
     (if f64_le (RequestsPerSecond cfg) (Fin 0) then Inl (Msg ''rate limit requests per second must be positive'')
      else if sint (Burst cfg) \<le> 0 then Inl (Msg ''rate limit burst must be positive'')
      else Inr \<lparr>rl_rate = RequestsPerSecond cfg, rl_burst = float64_of_int (sint (Burst cfg)), rl_shards = (\<lambda>_. Map.empty)\<rparr>)"

fun fnv32a_loop :: "uint32 \<Rightarrow> string \<Rightarrow> uint32" where
  "fnv32a_loop hash [] = hash"
| "fnv32a_loop hash (c # key) = fnv32a_loop ((hash XOR of_nat (of_char c)) * 16777619) key"

definition fnv32a :: "string \<Rightarrow> uint32" where
  "fnv32a key = fnv32a_loop 2166136261 key"

definition shard_of :: "string \<Rightarrow> uint32" where
  "shard_of key = fnv32a key AND (of_nat rateLimiterShardCount - 1)"

definition rateLimiter_allow :: "time \<Rightarrow> string \<Rightarrow> rateLimiter \<Rightarrow> bool \<times> rateLimiter" where
  "rateLimiter_allow now key limiter =
     (let i = shard_of key; shard = rl_shards limiter i
      in case shard key of
           Some bucket \<Rightarrow>
             (let (ok, bucket') = tokenBucket_allow (rl_rate limiter) (rl_burst limiter) now bucket
              in (ok, limiter\<lparr>rl_shards := (rl_shards limiter)(i := shard(key \<mapsto> bucket'))\<rparr>))
         | None \<Rightarrow>
             (True, limiter\<lparr>rl_shards := (rl_shards limiter)(i := shard(key \<mapsto>
                \<lparr>tb_tokens = f64_sub (rl_burst limiter) (Fin 1), tb_lastRefill = now\<rparr>))\<rparr>))"

text \<open>A sequence of requests, each with its arrival time and key.\<close>

fun allow_all :: "(time \<times> string) list \<Rightarrow> rateLimiter \<Rightarrow> bool list \<times> rateLimiter" where
  "allow_all [] limiter = ([], limiter)"
| "allow_all ((now, key) # rs) limiter =
     (let (ok, limiter') = rateLimiter_allow now key limiter; (oks, limiter'') = allow_all rs limiter' in (ok # oks, limiter''))"

lemma shift_upt: "map f [0..<Suc k] = f 0 # map (\<lambda>i. f (Suc i)) [0..<k]"
  by (simp add: upt_conv_Cons map_Suc_upt [symmetric] comp_def del: upt_Suc)

lemma seconds_zero: "duration_Seconds (time_Sub t t) = Fin 0"
  by (simp add: duration_Seconds_def time_Sub_def float64_of_int_def f64_div_def signed_divide_int_def signed_modulo_int_def)

section \<open>Sharding is invisible\<close>

text \<open>The specification: one map from keys to buckets.\<close>

definition spec_allow :: "f64 \<Rightarrow> f64 \<Rightarrow> time \<Rightarrow> string \<Rightarrow> rateLimiterShard \<Rightarrow> bool \<times> rateLimiterShard" where
  "spec_allow rate burst now key buckets =
     (case buckets key of
        Some bucket \<Rightarrow> let (ok, bucket') = tokenBucket_allow rate burst now bucket in (ok, buckets(key \<mapsto> bucket'))
      | None \<Rightarrow> (True, buckets(key \<mapsto> \<lparr>tb_tokens = f64_sub burst (Fin 1), tb_lastRefill = now\<rparr>)))"

fun spec_allow_all :: "f64 \<Rightarrow> f64 \<Rightarrow> (time \<times> string) list \<Rightarrow> rateLimiterShard \<Rightarrow> bool list \<times> rateLimiterShard" where
  "spec_allow_all rate burst [] buckets = ([], buckets)"
| "spec_allow_all rate burst ((now, key) # rs) buckets =
     (let (ok, buckets') = spec_allow rate burst now key buckets; (oks, buckets'') = spec_allow_all rate burst rs buckets' in (ok # oks, buckets''))"

text \<open>The abstraction: look every key up in its own shard.\<close>

definition unsharded :: "rateLimiter \<Rightarrow> rateLimiterShard" where
  "unsharded limiter key = rl_shards limiter (shard_of key) key"

lemma allow_refines:
  assumes "rateLimiter_allow now key limiter = (ok, limiter')"
  shows "spec_allow (rl_rate limiter) (rl_burst limiter) now key (unsharded limiter) = (ok, unsharded limiter')"
    and "rl_rate limiter' = rl_rate limiter" "rl_burst limiter' = rl_burst limiter"
  using assms
  by (auto simp: rateLimiter_allow_def spec_allow_def unsharded_def fun_eq_iff Let_def split: option.splits prod.splits)

lemma allow_all_refines:
  assumes "allow_all rs limiter = (oks, limiter')"
  shows "spec_allow_all (rl_rate limiter) (rl_burst limiter) rs (unsharded limiter) = (oks, unsharded limiter')"
  using assms
proof (induction rs limiter arbitrary: oks limiter' rule: allow_all.induct)
  case (2 now key rs limiter)
  obtain ok l1 where a: "rateLimiter_allow now key limiter = (ok, l1)" by fastforce
  obtain oks2 l2 where b: "allow_all rs l1 = (oks2, l2)" by fastforce
  show ?case using 2 a b allow_refines [OF a] by simp
qed simp

lemma shard_index: "uint (shard_of key) < 64"
proof -
  have "shard_of key = take_bit 6 (fnv32a key)"
    by (simp add: shard_of_def rateLimiterShardCount_def take_bit_eq_mask mask_eq_decr_exp)
  then show ?thesis using take_bit_int_less_exp [of 6 "uint (fnv32a key)"] by (simp add: unsigned_take_bit_eq)
qed

text \<open>
  C27: the sharded limiter refines a single map of buckets. Splitting the buckets over 64 shards by key
  hash changes no decision: on every sequence of requests the limiter answers as one map from keys to
  buckets would, its state abstracts to that map, and the shard index stays below 64.
\<close>

theorem rateLimiter_refines_map:
  assumes "allow_all rs limiter = (oks, limiter')"
  shows "spec_allow_all (rl_rate limiter) (rl_burst limiter) rs (unsharded limiter) = (oks, unsharded limiter')
    \<and> uint (shard_of key) < int rateLimiterShardCount"
  using allow_all_refines [OF assms] shard_index by (simp add: rateLimiterShardCount_def)

theorem rateLimiter_refines_map_witness:
  "\<exists>limiter limiter'. newRateLimiter \<lparr>RequestsPerSecond = Fin 1, Burst = 1\<rparr> = Inr limiter
     \<and> allow_all [(0, ''a''), (0, ''a''), (0, ''b'')] limiter = ([True, False, True], limiter')
     \<and> spec_allow_all (Fin 1) (Fin 1) [(0, ''a''), (0, ''a''), (0, ''b'')] Map.empty = ([True, False, True], unsharded limiter')"
proof -
  define l where "l = \<lparr>rl_rate = Fin 1, rl_burst = Fin 1, rl_shards = (\<lambda>_. Map.empty)\<rparr>"
  have one: "float64_of_int 1 = Fin 1" using round64_int [of 1] by (simp add: float64_of_int_def)
  have n: "newRateLimiter \<lparr>RequestsPerSecond = Fin 1, Burst = 1\<rparr> = Inr l"
    by (simp add: newRateLimiter_def f64_le_def one l_def)
  have r: "round64 1 = Fin 1" using one by (simp add: float64_of_int_def)
  have run: "\<exists>l'. allow_all [(0, ''a''), (0, ''a''), (0, ''b'')] l = ([True, False, True], l')"
    by (simp add: rateLimiter_allow_def tokenBucket_allow_def l_def Let_def f64_sub_def seconds_zero f64_mul_def)
  then obtain l' where l': "allow_all [(0, ''a''), (0, ''a''), (0, ''b'')] l = ([True, False, True], l')" by blast
  have "unsharded l = Map.empty" by (simp add: unsharded_def l_def fun_eq_iff)
  then show ?thesis using n l' rateLimiter_refines_map [OF l'] by (auto simp: l_def)
qed

text \<open>
  The rate limiter's hash, written as its own loop, is the same function as the partitioner's
  hash: both are 32-bit FNV-1a.
\<close>

theorem fnv32a_hashBytes: "fnv32a key = hashBytes key"
proof -
  have "fnv32a_loop h key = foldl hash_step h key" for h
    by (induction key arbitrary: h) (simp_all add: hash_step_def)
  then show ?thesis by (simp add: fnv32a_def hashBytes_def)
qed

section \<open>Burst\<close>

lemma allow_same_instant:
  assumes "0 \<le> n" "n \<le> b" "b < 2 ^ 53" "0 < r"
  shows "tokenBucket_allow (Fin r) (Fin (of_int b)) t \<lparr>tb_tokens = Fin (of_int n), tb_lastRefill = t\<rparr>
    = (0 < n, \<lparr>tb_tokens = Fin (of_int (if 0 < n then n - 1 else n)), tb_lastRefill = t\<rparr>)"
proof -
  have "f64_add (Fin (of_int n)) (f64_mul (Fin 0) (Fin r)) = Fin (of_int n)"
    using assms round64_int [of n] by (simp add: f64_mul_def)
  moreover have "min (of_int b :: rat) (of_int n) = of_int n" using assms by (simp add: min_def)
  moreover have "(of_int n :: rat) < 1 \<longleftrightarrow> \<not> 0 < n" by linarith
  ultimately show ?thesis
    using assms f64_sub_one [of n] by (simp add: tokenBucket_allow_def seconds_zero)
qed

text \<open>All requests of one key at one instant, on the map.\<close>

lemma spec_same_instant:
  assumes "0 \<le> n" "n \<le> b" "b < 2 ^ 53" "0 < r" "buckets key = Some \<lparr>tb_tokens = Fin (of_int n), tb_lastRefill = t\<rparr>"
  shows "fst (spec_allow_all (Fin r) (Fin (of_int b)) (replicate k (t, key)) buckets) = map (\<lambda>i. int i < n) [0..<k]"
  using assms
proof (induction k arbitrary: n buckets)
  case (Suc k)
  define n' where "n' = (if 0 < n then n - 1 else n)"
  define b' where "b' = buckets(key \<mapsto> \<lparr>tb_tokens = Fin (of_int n'), tb_lastRefill = t\<rparr>)"
  have s: "spec_allow (Fin r) (Fin (of_int b)) t key buckets = (0 < n, b')"
    using allow_same_instant [OF Suc.prems(1-4)] Suc.prems(5) by (simp add: spec_allow_def b'_def n'_def)
  have "fst (spec_allow_all (Fin r) (Fin (of_int b)) (replicate k (t, key)) b') = map (\<lambda>i. int i < n') [0..<k]"
    using Suc.prems by (intro Suc.IH) (auto simp: n'_def b'_def)
  moreover have "map (\<lambda>i. int i < n') [0..<k] = map (\<lambda>i. int (Suc i) < n) [0..<k]"
    using Suc.prems(1) by (auto simp: n'_def)
  ultimately show ?case using s Suc.prems(1) by (simp add: case_prod_unfold Let_def shift_upt del: upt_Suc)
qed simp

text \<open>
  C28: a fresh key gets exactly its burst. For a configuration that \<open>newRateLimiter\<close> accepts, with a
  finite rate and a burst below \<open>2 ^ 53\<close>, of any number of requests that a new key makes at one instant
  exactly the first \<open>Burst\<close> are allowed and the rest rejected.
\<close>

theorem burst_exact:
  assumes "newRateLimiter cfg = Inr limiter" "RequestsPerSecond cfg = Fin r" "sint (Burst cfg) < 2 ^ 53"
  shows "fst (allow_all (replicate k (t, key)) limiter) = map (\<lambda>i. int i < sint (Burst cfg)) [0..<k]"
proof -
  define b where "b = sint (Burst cfg)"
  have b: "0 < b" "b < 2 ^ 53" and r: "0 < r"
    using assms by (auto simp: newRateLimiter_def b_def f64_le_def not_le not_less split: if_splits)
  have l: "rl_rate limiter = Fin r" "rl_burst limiter = Fin (of_int b)" "unsharded limiter = Map.empty"
    using assms b round64_int [of b] by (auto simp: newRateLimiter_def b_def float64_of_int_def unsharded_def split: if_splits)
  have "fst (spec_allow_all (Fin r) (Fin (of_int b)) (replicate k (t, key)) Map.empty) = map (\<lambda>i. int i < b) [0..<k]"
  proof (cases k)
    case (Suc k')
    define bs where "bs = Map.empty(key \<mapsto> \<lparr>tb_tokens = Fin (of_int (b - 1)), tb_lastRefill = t\<rparr>)"
    have "spec_allow (Fin r) (Fin (of_int b)) t key Map.empty = (True, bs)"
      using f64_sub_one [OF b] by (simp add: spec_allow_def bs_def)
    moreover have "fst (spec_allow_all (Fin r) (Fin (of_int b)) (replicate k' (t, key)) bs) = map (\<lambda>i. int i < b - 1) [0..<k']"
      using b r by (intro spec_same_instant) (auto simp: bs_def)
    moreover have "map (\<lambda>i. int i < b - 1) [0..<k'] = map (\<lambda>i. int (Suc i) < b) [0..<k']" by auto
    ultimately show ?thesis using Suc b by (simp add: case_prod_unfold Let_def shift_upt del: upt_Suc)
  qed simp
  moreover obtain oks l' where run: "allow_all (replicate k (t, key)) limiter = (oks, l')" by fastforce
  ultimately show ?thesis using allow_all_refines [OF run] run l by (simp add: b_def)
qed

theorem burst_exact_witness:
  "\<exists>limiter. newRateLimiter \<lparr>RequestsPerSecond = Fin 50, Burst = 2\<rparr> = Inr limiter
     \<and> fst (allow_all [(9, ''k''), (9, ''k''), (9, ''k'')] limiter) = [True, True, False]"
proof -
  obtain l where n: "newRateLimiter \<lparr>RequestsPerSecond = Fin 50, Burst = 2\<rparr> = Inr l"
    by (simp add: newRateLimiter_def f64_le_def)
  have "sint (Burst \<lparr>RequestsPerSecond = Fin 50, Burst = 2\<rparr>) < 2 ^ 53" by simp
  then show ?thesis using n burst_exact [OF n, of 50 3 9 "''k''"] by (simp add: numeral_3_eq_3 upt_rec)
qed

section \<open>A rate that is not a number\<close>

lemma allow_nan: "rl_rate limiter = NaN \<Longrightarrow> rateLimiter_allow now key limiter = (ok, limiter') \<Longrightarrow> ok \<and> rl_rate limiter' = NaN"
proof -
  have add: "f64_add x NaN = NaN" for x by (cases x) auto
  show "rl_rate limiter = NaN \<Longrightarrow> rateLimiter_allow now key limiter = (ok, limiter') \<Longrightarrow> ok \<and> rl_rate limiter' = NaN"
    by (auto simp: rateLimiter_allow_def tokenBucket_allow_def f64_mul_def add Let_def split: option.splits)
qed

lemma allow_all_nan: "rl_rate limiter = NaN \<Longrightarrow> fst (allow_all rs limiter) = replicate (length rs) True"
proof (induction rs limiter rule: allow_all.induct)
  case (2 now key rs limiter)
  obtain ok l1 where a: "rateLimiter_allow now key limiter = (ok, l1)" by fastforce
  then show ?case using 2 allow_nan [OF "2.prems" a] by (auto simp: case_prod_unfold Let_def)
qed simp

text \<open>
  \<open>newRateLimiter\<close> means to accept only positive rates, but the check \<open>rate <= 0\<close> is false for NaN:
  a rate of NaN (which \<open>strconv.ParseFloat\<close> reads from \<open>INGESTION_RATE_LIMIT_RPS\<close>) is accepted, the
  token count becomes NaN at the first refill, no comparison rejects it, and every request is allowed.
\<close>

theorem nan_rate_unlimited:
  "strconv_ParseFloat ''NaN'' = Inr NaN
   \<and> (\<exists>limiter. newRateLimiter \<lparr>RequestsPerSecond = NaN, Burst = 1\<rparr> = Inr limiter
       \<and> (\<forall>rs. fst (allow_all rs limiter) = replicate (length rs) True))"
proof -
  obtain l where "newRateLimiter \<lparr>RequestsPerSecond = NaN, Burst = 1\<rparr> = Inr l" "rl_rate l = NaN"
    by (simp add: newRateLimiter_def f64_le_def)
  moreover have "strconv_ParseFloat ''NaN'' = Inr NaN" by code_simp
  ultimately show ?thesis using allow_all_nan by blast
qed

end
