(* ===== verification/Api.thy ===== *)
theory Api
  imports Ingestion RateLimiter
begin

text \<open>
  The two transports of the ingestion service: the REST handler
  (\<open>src/internal/api/transaction_handler.go\<close>, \<open>server.go\<close>), the gRPC handler
  (\<open>grpc_transaction_handler.go\<close>, \<open>grpc_server.go\<close>), and the API-key authentication both share
  (\<open>auth_interceptor.go\<close>). A handler runs on the state \<open>'w\<close> of its publisher; the rate limiter and
  the clock are reached through a reference. The object pools only recycle zeroed values and are not
  visible. The loops over runes are loops over bytes here: a byte outside ASCII belongs to a rune
  outside ASCII, which the same tests reject.
\<close>

section \<open>Model of transaction_handler.go\<close>

definition maxTransactionEventBytes :: nat where "maxTransactionEventBytes = 4096"

record TransactionEventRequest =
  tr_EventID :: string
  tr_TenantID :: string
  tr_Instrument :: string
  tr_Side :: string
  tr_Quantity :: string
  tr_Price :: string
  tr_Currency :: string
  tr_OccurredAt :: string

definition TransactionEventRequest_Reset :: TransactionEventRequest where
  "TransactionEventRequest_Reset = \<lparr>tr_EventID = [], tr_TenantID = [], tr_Instrument = [], tr_Side = [], tr_Quantity = [],
     tr_Price = [], tr_Currency = [], tr_OccurredAt = []\<rparr>"

definition request_names :: "string list" where
  "request_names = [''event_id'', ''tenant_id'', ''instrument'', ''side'', ''quantity'', ''price'', ''currency'', ''occurred_at'']"

definition request_set :: "string \<Rightarrow> json \<Rightarrow> TransactionEventRequest \<Rightarrow> TransactionEventRequest option" where
  "request_set f v e = map_option (\<lambda>s.
     if f = ''event_id'' then e\<lparr>tr_EventID := s\<rparr> else if f = ''tenant_id'' then e\<lparr>tr_TenantID := s\<rparr>
     else if f = ''instrument'' then e\<lparr>tr_Instrument := s\<rparr> else if f = ''side'' then e\<lparr>tr_Side := s\<rparr>
     else if f = ''quantity'' then e\<lparr>tr_Quantity := s\<rparr> else if f = ''price'' then e\<lparr>tr_Price := s\<rparr>
     else if f = ''currency'' then e\<lparr>tr_Currency := s\<rparr> else e\<lparr>tr_OccurredAt := s\<rparr>) (json_string v)"

definition isLowerAlphanumeric :: "char \<Rightarrow> bool" where
  "isLowerAlphanumeric c \<longleftrightarrow> (97 \<le> byte c \<and> byte c \<le> 122) \<or> (48 \<le> byte c \<and> byte c \<le> 57)"

definition isUpperAlphanumeric :: "char \<Rightarrow> bool" where
  "isUpperAlphanumeric c \<longleftrightarrow> (65 \<le> byte c \<and> byte c \<le> 90) \<or> (48 \<le> byte c \<and> byte c \<le> 57)"

definition isValidCurrencyCode :: "string \<Rightarrow> bool" where
  "isValidCurrencyCode code \<longleftrightarrow> length code = 3 \<and> list_all (\<lambda>c. 65 \<le> byte c \<and> byte c \<le> 90) code"

definition isValidTenantID :: "string \<Rightarrow> bool" where
  "isValidTenantID tenantID \<longleftrightarrow> \<not> (length tenantID = 0 \<or> 64 < length tenantID)
     \<and> list_all (\<lambda>c. isLowerAlphanumeric c \<or> c = CHR ''-'') tenantID"

definition isValidInstrument :: "string \<Rightarrow> bool" where
  "isValidInstrument instrument \<longleftrightarrow> \<not> (length instrument = 0 \<or> 16 < length instrument)
     \<and> list_all (\<lambda>c. isUpperAlphanumeric c \<or> c = CHR ''.'') instrument"

definition isJSONWhitespace :: "string \<Rightarrow> bool" where
  "isJSONWhitespace data \<longleftrightarrow> list_all (\<lambda>c. c = CHR 0x20 \<or> c = CHR 0x09 \<or> c = CHR 0x0D \<or> c = CHR 0x0A) data"

text \<open>An amount field: parsed, positive, and at most \<open>MaxAmount\<close>.\<close>

definition amount_ok :: "int64 result \<Rightarrow> bool" where
  "amount_ok r = (case r of Inl _ \<Rightarrow> False | Inr v \<Rightarrow> \<not> (sint v \<le> 0 \<or> sint v > sint MaxAmount))"

definition TransactionEventRequest_validate :: "uuid_package \<Rightarrow> TransactionEventRequest \<Rightarrow> error" where
  "TransactionEventRequest_validate u event =
     (if tr_EventID event = [] \<or> tr_TenantID event = [] \<or> tr_Instrument event = [] \<or> tr_Side event = [] \<or> tr_Quantity event = []
         \<or> tr_Price event = [] \<or> tr_Currency event = [] \<or> tr_OccurredAt event = [] then Some (Msg ''missing required fields'')
      else if (case uuid_Parse u (tr_EventID event) of Inl _ \<Rightarrow> True | Inr _ \<Rightarrow> False) then Some (Msg ''event_id must be a valid UUID'')
      else if \<not> isValidTenantID (tr_TenantID event) then Some (Msg ''tenant_id must be 1-64 lowercase letters, digits, or hyphens'')
      else if \<not> isValidInstrument (tr_Instrument event) then Some (Msg ''instrument must be 1-16 uppercase letters, digits, or dots'')
      else if tr_Side event \<noteq> SideBuy \<and> tr_Side event \<noteq> SideSell then Some (Msg ''side must be BUY or SELL'')
      else if \<not> amount_ok (ParseAmount (tr_Quantity event)) then Some (Msg ''quantity must be a positive decimal number no greater than the maximum'')
      else if \<not> amount_ok (ParseAmount (tr_Price event)) then Some (Msg ''price must be a positive decimal number no greater than the maximum'')
      else if \<not> isValidCurrencyCode (tr_Currency event) then Some (Msg ''currency must be a 3-letter uppercase ISO 4217 code'')
      else if (case time_Parse (tr_OccurredAt event) of Inl _ \<Rightarrow> True | Inr _ \<Rightarrow> False) then Some (Msg ''occurred_at must be an RFC3339 timestamp'')
      else None)"

definition TransactionEventRequest_toIngestionEvent :: "uuid_package \<Rightarrow> TransactionEventRequest \<Rightarrow> Event result" where
  "TransactionEventRequest_toIngestionEvent u event =
     bind_res (wrap_res ''event_id must be a valid UUID'' (uuid_Parse u (tr_EventID event))) (\<lambda>eventID.
     bind_res (wrap_res ''quantity must be a valid decimal number'' (ParseAmount (tr_Quantity event))) (\<lambda>quantity.
     bind_res (wrap_res ''price must be a valid decimal number'' (ParseAmount (tr_Price event))) (\<lambda>price.
     bind_res (wrap_res ''occurred_at must be an RFC3339 timestamp'' (time_Parse (tr_OccurredAt event))) (\<lambda>occurredAt.
     Inr \<lparr>ev_EventID = eventID, ev_TenantID = tr_TenantID event, ev_SchemaVersion = CurrentSchemaVersion,
          ev_Instrument = tr_Instrument event, ev_Side = tr_Side event, ev_Quantity = quantity, ev_Price = price,
          ev_Currency = tr_Currency event, ev_OccurredAt = occurredAt\<rparr>))))"

record http_response =
  rsp_status :: nat
  rsp_body :: string

text \<open>\<open>writeJSON\<close> of a value that is already rendered: the encoder ends it with a newline.\<close>

definition writeJSON :: "nat \<Rightarrow> string \<Rightarrow> http_response" where
  "writeJSON status rendered = \<lparr>rsp_status = status, rsp_body = rendered @ [CHR 0x0A]\<rparr>"

definition writeJSONError :: "nat \<Rightarrow> string \<Rightarrow> http_response" where
  "writeJSONError status message = writeJSON status (json_object [(''error'', json_quote message)])"

definition render_request :: "TransactionEventRequest \<Rightarrow> string" where
  "render_request event = json_object
     [(''event_id'', json_quote (tr_EventID event)), (''tenant_id'', json_quote (tr_TenantID event)),
      (''instrument'', json_quote (tr_Instrument event)), (''side'', json_quote (tr_Side event)),
      (''quantity'', json_quote (tr_Quantity event)), (''price'', json_quote (tr_Price event)),
      (''currency'', json_quote (tr_Currency event)), (''occurred_at'', json_quote (tr_OccurredAt event))]"

text \<open>A request: the \<open>Authorization\<close> header (empty if absent), the body, and the context. A failed read is \<open>Inl\<close>.\<close>

record http_request =
  hr_Authorization :: string
  hr_Body :: "string result"
  hr_Context :: ctx

text \<open>\<open>body.ReadFrom(http.MaxBytesReader(...))\<close>: a longer body is an error.\<close>

definition read_body :: "http_request \<Rightarrow> string result" where
  "read_body req = bind_res (hr_Body req) (\<lambda>body. if maxTransactionEventBytes < length body then Inl (Msg ''http: request body too large'') else Inr body)"

definition newTransactionHandler :: "uuid_package \<Rightarrow> 'w Publisher \<Rightarrow> http_request \<Rightarrow> 'w \<Rightarrow> http_response \<times> 'w" where
  "newTransactionHandler u publisher req w =
     (case read_body req of Inl err \<Rightarrow> (writeJSONError 400 ''invalid request body'', w)
      | Inr body \<Rightarrow>
          (case json_decode body of None \<Rightarrow> (writeJSONError 400 ''invalid request body'', w)
           | Some (v, trailing) \<Rightarrow>
               (case decode_struct request_names request_set TransactionEventRequest_Reset v of
                  None \<Rightarrow> (writeJSONError 400 ''invalid request body'', w)
                | Some event \<Rightarrow>
                    if \<not> isJSONWhitespace trailing then (writeJSONError 400 ''invalid request body: trailing data'', w)
                    else (case TransactionEventRequest_validate u event of
                            Some err \<Rightarrow> (writeJSONError 400 (error_text err), w)
                          | None \<Rightarrow>
                              (case TransactionEventRequest_toIngestionEvent u event of
                                 Inl err \<Rightarrow> (writeJSONError 400 (error_text err), w)
                               | Inr ingestionEvent \<Rightarrow>
                                   (case publisher (hr_Context req) ingestionEvent w of
                                      (Some err, w') \<Rightarrow> (writeJSONError 503 ''failed to publish transaction event'', w')
                                    | (None, w') \<Rightarrow> (writeJSON 202 (render_request event), w')))))))"

section \<open>Model of grpc_transaction_handler.go\<close>

text \<open>The generated message types; an absent message is None. A side is the number of the enumeration.\<close>

record Timestamp =
  ts_Seconds :: int64
  ts_Nanos :: int32

record TransactionEvent =
  te_EventId :: string
  te_TenantId :: string
  te_Instrument :: string
  te_Side :: int32
  te_Quantity :: int64
  te_Price :: int64
  te_Currency :: string
  te_OccurredAt :: "Timestamp option"

definition Side_SIDE_BUY :: int32 where "Side_SIDE_BUY = 1"
definition Side_SIDE_SELL :: int32 where "Side_SIDE_SELL = 2"

text \<open>
  The methods \<open>CheckValid\<close> and \<open>AsTime\<close> of the package \<open>timestamppb\<close>, and what it documents: a valid
  timestamp lies in the years 1 to 9999 with nanoseconds below a second, and is read in UTC.
\<close>

record timestamp_package =
  ts_CheckValid :: "Timestamp \<Rightarrow> error"
  ts_AsTime :: "Timestamp \<Rightarrow> gotime"

definition timestamp_laws :: "timestamp_package \<Rightarrow> bool" where
  "timestamp_laws p \<longleftrightarrow>
     (\<forall>t. ts_AsTime p t = \<lparr>gt_ns = sint (ts_Seconds t) * second_ns + sint (ts_Nanos t), gt_offset = 0\<rparr>
       \<and> (ts_CheckValid p t = None \<longleftrightarrow> - 62135596800 \<le> sint (ts_Seconds t) \<and> sint (ts_Seconds t) \<le> 253402300799
            \<and> 0 \<le> sint (ts_Nanos t) \<and> sint (ts_Nanos t) < 1000000000))"

definition sideFromProto :: "int32 \<Rightarrow> Side result" where
  "sideFromProto side =
     (if side = Side_SIDE_BUY then Inr SideBuy else if side = Side_SIDE_SELL then Inr SideSell
      else Inl (Msg ''side must be SIDE_BUY or SIDE_SELL''))"

definition validateTransactionEvent :: "uuid_package \<Rightarrow> timestamp_package \<Rightarrow> TransactionEvent \<Rightarrow> error" where
  "validateTransactionEvent u p event =
     (case te_OccurredAt event of None \<Rightarrow> Some (Msg ''missing required fields'')
      | Some occurredAt \<Rightarrow>
        if te_EventId event = [] \<or> te_TenantId event = [] \<or> te_Instrument event = [] \<or> te_Currency event = []
          then Some (Msg ''missing required fields'')
        else if (case uuid_Parse u (te_EventId event) of Inl _ \<Rightarrow> True | Inr _ \<Rightarrow> False) then Some (Msg ''event_id must be a valid UUID'')
        else if \<not> isValidTenantID (te_TenantId event) then Some (Msg ''tenant_id must be 1-64 lowercase letters, digits, or hyphens'')
        else if \<not> isValidInstrument (te_Instrument event) then Some (Msg ''instrument must be 1-16 uppercase letters, digits, or dots'')
        else (case sideFromProto (te_Side event) of Inl err \<Rightarrow> Some err
              | Inr _ \<Rightarrow>
                if sint (te_Quantity event) \<le> 0 \<or> sint (te_Quantity event) > sint MaxAmount
                  then Some (Msg ''quantity must be a positive decimal number no greater than the maximum'')
                else if sint (te_Price event) \<le> 0 \<or> sint (te_Price event) > sint MaxAmount
                  then Some (Msg ''price must be a positive decimal number no greater than the maximum'')
                else if \<not> isValidCurrencyCode (te_Currency event) then Some (Msg ''currency must be a 3-letter uppercase ISO 4217 code'')
                else (case ts_CheckValid p occurredAt of Some err \<Rightarrow> Some (Wrap ''occurred_at must be a valid timestamp'' err) | None \<Rightarrow> None)))"

definition transactionEventToIngestionEvent :: "uuid_package \<Rightarrow> timestamp_package \<Rightarrow> TransactionEvent \<Rightarrow> Event result" where
  "transactionEventToIngestionEvent u p event =
     bind_res (wrap_res ''event_id must be a valid UUID'' (uuid_Parse u (te_EventId event))) (\<lambda>eventID.
     bind_res (sideFromProto (te_Side event)) (\<lambda>side.
     Inr \<lparr>ev_EventID = eventID, ev_TenantID = te_TenantId event, ev_SchemaVersion = CurrentSchemaVersion,
          ev_Instrument = te_Instrument event, ev_Side = side, ev_Quantity = te_Quantity event, ev_Price = te_Price event,
          ev_Currency = te_Currency event,
          ev_OccurredAt = ts_AsTime p (case te_OccurredAt event of Some t \<Rightarrow> t | None \<Rightarrow> \<lparr>ts_Seconds = 0, ts_Nanos = 0\<rparr>)\<rparr>))"

datatype grpc_code = InvalidArgument | Unavailable | Unauthenticated | ResourceExhausted

record IngestTransactionResponse =
  itr_EventId :: string
  itr_Accepted :: bool

type_synonym 'a grpc_result = "grpc_code \<times> string + 'a"

definition IngestTransaction ::
    "uuid_package \<Rightarrow> timestamp_package \<Rightarrow> 'w Publisher \<Rightarrow> ctx \<Rightarrow> TransactionEvent option \<Rightarrow> 'w \<Rightarrow> IngestTransactionResponse grpc_result \<times> 'w" where
  "IngestTransaction u p publisher ctx req w =
     (case req of None \<Rightarrow> (Inl (InvalidArgument, ''event is required''), w)
      | Some event \<Rightarrow>
          (case validateTransactionEvent u p event of Some err \<Rightarrow> (Inl (InvalidArgument, error_text err), w)
           | None \<Rightarrow>
               (case transactionEventToIngestionEvent u p event of Inl err \<Rightarrow> (Inl (InvalidArgument, error_text err), w)
                | Inr ingestionEvent \<Rightarrow>
                    (case publisher ctx ingestionEvent w of
                       (Some err, w') \<Rightarrow> (Inl (Unavailable, ''failed to publish transaction event''), w')
                     | (None, w') \<Rightarrow> (Inr \<lparr>itr_EventId = te_EventId event, itr_Accepted = True\<rparr>, w')))))"

section \<open>Model of auth_interceptor.go\<close>

definition healthCheckServicePrefix :: string where "healthCheckServicePrefix = ''/grpc.health.v1.Health/''"

definition bearerToken :: "string \<Rightarrow> string option" where
  "bearerToken header = strings_CutPrefix header ''Bearer ''"

text \<open>The incoming metadata of a call: None if there is none; the values of the key \<open>authorization\<close>.\<close>

definition bearerTokenFromContext :: "string list option \<Rightarrow> string option" where
  "bearerTokenFromContext metaData =
     (case metaData of None \<Rightarrow> None | Some values \<Rightarrow> if values = [] then None else bearerToken (hd values))"

type_synonym apiKeyAuthenticator = "string list"

definition newAPIKeyAuthenticator :: "string list \<Rightarrow> apiKeyAuthenticator result" where
  "newAPIKeyAuthenticator keys =
     (if keys = [] then Inl (Msg ''at least one API key is required'')
      else if [] \<in> set keys then Inl (Msg ''API key must not be empty'')
      else Inr keys)"

text \<open>\<open>subtle.ConstantTimeCompare\<close>: 1 if the slices are equal, 0 if not.\<close>

definition ConstantTimeCompare :: "string \<Rightarrow> string \<Rightarrow> int64" where
  "ConstantTimeCompare x y = (if length x \<noteq> length y then 0 else if x = y then 1 else 0)"

definition apiKey_validate :: "apiKeyAuthenticator \<Rightarrow> string \<Rightarrow> bool" where
  "apiKey_validate auth token \<longleftrightarrow> foldl (\<lambda>match key. match OR ConstantTimeCompare token key) 0 auth = 1"

definition authenticate :: "apiKeyAuthenticator \<Rightarrow> string list option \<Rightarrow> bool" where
  "authenticate auth metaData = (case bearerTokenFromContext metaData of None \<Rightarrow> False | Some token \<Rightarrow> apiKey_validate auth token)"

type_synonym 'w http_handler = "http_request \<Rightarrow> 'w \<Rightarrow> http_response \<times> 'w"

definition auth_middleware :: "apiKeyAuthenticator \<Rightarrow> 'w http_handler \<Rightarrow> 'w http_handler" where
  "auth_middleware auth nxt request w =
     (case bearerToken (hr_Authorization request) of
        Some token \<Rightarrow> if apiKey_validate auth token then nxt request w else (writeJSONError 401 ''missing or invalid bearer token'', w)
      | None \<Rightarrow> (writeJSONError 401 ''missing or invalid bearer token'', w))"

text \<open>A unary call: the full method name and the incoming metadata; the handler runs on the state.\<close>

definition auth_unaryInterceptor ::
    "apiKeyAuthenticator \<Rightarrow> string \<Rightarrow> string list option \<Rightarrow> ('w \<Rightarrow> 'a grpc_result \<times> 'w) \<Rightarrow> 'w \<Rightarrow> 'a grpc_result \<times> 'w" where
  "auth_unaryInterceptor auth fullMethod metaData handler w =
     (if strings_HasPrefix fullMethod healthCheckServicePrefix then handler w
      else if \<not> authenticate auth metaData then (Inl (Unauthenticated, ''missing or invalid bearer token''), w)
      else handler w)"

section \<open>The limiter in front of the handlers, and the servers\<close>

text \<open>The limiter of a server is a piece of the state, with the clock it reads.\<close>

record 'w limiter_ref =
  l_get :: "'w \<Rightarrow> rateLimiter"
  l_set :: "rateLimiter \<Rightarrow> 'w \<Rightarrow> 'w"
  l_now :: "'w \<Rightarrow> time"

definition limiter_allow :: "'w limiter_ref \<Rightarrow> string \<Rightarrow> 'w \<Rightarrow> bool \<times> 'w" where
  "limiter_allow ref key w = (let (ok, limiter) = rateLimiter_allow (l_now ref w) key (l_get ref w) in (ok, l_set ref limiter w))"

definition limiter_middleware :: "'w limiter_ref \<Rightarrow> 'w http_handler \<Rightarrow> 'w http_handler" where
  "limiter_middleware ref nxt request w =
     (case bearerToken (hr_Authorization request) of
        None \<Rightarrow> (writeJSONError 429 ''rate limit exceeded'', w)
      | Some key \<Rightarrow>
          (case limiter_allow ref key w of
             (False, w') \<Rightarrow> (writeJSONError 429 ''rate limit exceeded'', w')
           | (True, w') \<Rightarrow> nxt request w'))"

definition limiter_unaryInterceptor ::
    "'w limiter_ref \<Rightarrow> string \<Rightarrow> string list option \<Rightarrow> ('w \<Rightarrow> 'a grpc_result \<times> 'w) \<Rightarrow> 'w \<Rightarrow> 'a grpc_result \<times> 'w" where
  "limiter_unaryInterceptor ref fullMethod metaData handler w =
     (if strings_HasPrefix fullMethod healthCheckServicePrefix then handler w
      else case bearerTokenFromContext metaData of
             None \<Rightarrow> (Inl (ResourceExhausted, ''rate limit exceeded''), w)
           | Some key \<Rightarrow>
               (case limiter_allow ref key w of
                  (False, w') \<Rightarrow> (Inl (ResourceExhausted, ''rate limit exceeded''), w')
                | (True, w') \<Rightarrow> handler w'))"

text \<open>\<open>NewServer\<close>: the handler of the route \<open>POST /v1/transactions\<close>.\<close>

definition NewServer ::
    "uuid_package \<Rightarrow> 'w limiter_ref \<Rightarrow> 'w Publisher \<Rightarrow> string list \<Rightarrow> RateLimitConfig \<Rightarrow> 'w \<Rightarrow> 'w http_handler result \<times> 'w" where
  "NewServer u ref publisher apiKeys rateLimit w =
     (case newAPIKeyAuthenticator apiKeys of Inl err \<Rightarrow> (Inl (Wrap ''configure API key authenticator'' err), w)
      | Inr authenticator \<Rightarrow>
          (case newRateLimiter rateLimit of Inl err \<Rightarrow> (Inl (Wrap ''configure rate limiter'' err), w)
           | Inr limiter \<Rightarrow>
               (Inr (auth_middleware authenticator (limiter_middleware ref (newTransactionHandler u publisher))), l_set ref limiter w)))"

text \<open>\<open>NewGRPCServer\<close>: the interceptors in the order of the chain, in front of \<open>IngestTransaction\<close>.\<close>

definition NewGRPCServer ::
    "uuid_package \<Rightarrow> timestamp_package \<Rightarrow> 'w limiter_ref \<Rightarrow> 'w Publisher \<Rightarrow> string list \<Rightarrow> RateLimitConfig \<Rightarrow> 'w
      \<Rightarrow> (string \<Rightarrow> string list option \<Rightarrow> ctx \<Rightarrow> TransactionEvent option \<Rightarrow> 'w \<Rightarrow> IngestTransactionResponse grpc_result \<times> 'w) result \<times> 'w" where
  "NewGRPCServer u p ref publisher apiKeys rateLimit w =
     (case newAPIKeyAuthenticator apiKeys of Inl err \<Rightarrow> (Inl (Wrap ''configure API key authenticator'' err), w)
      | Inr authenticator \<Rightarrow>
          (case newRateLimiter rateLimit of Inl err \<Rightarrow> (Inl (Wrap ''configure rate limiter'' err), w)
           | Inr limiter \<Rightarrow>
               (Inr (\<lambda>fullMethod metaData ctx req.
                  auth_unaryInterceptor authenticator fullMethod metaData
                    (limiter_unaryInterceptor ref fullMethod metaData (IngestTransaction u p publisher ctx req))), l_set ref limiter w)))"

section \<open>What the validators accept\<close>

lemma validate_None:
  "TransactionEventRequest_validate u event = None \<longleftrightarrow>
     (\<exists>i q pr t. uuid_Parse u (tr_EventID event) = Inr i \<and> ParseAmount (tr_Quantity event) = Inr q \<and> ParseAmount (tr_Price event) = Inr pr
        \<and> time_Parse (tr_OccurredAt event) = Inr t \<and> amount_ok (Inr q) \<and> amount_ok (Inr pr))
     \<and> tr_EventID event \<noteq> [] \<and> tr_Quantity event \<noteq> [] \<and> tr_Price event \<noteq> [] \<and> tr_OccurredAt event \<noteq> []
     \<and> isValidTenantID (tr_TenantID event) \<and> isValidInstrument (tr_Instrument event) \<and> isValidCurrencyCode (tr_Currency event)
     \<and> (tr_Side event = SideBuy \<or> tr_Side event = SideSell)"
  by (auto simp: TransactionEventRequest_validate_def amount_ok_def isValidTenantID_def isValidInstrument_def isValidCurrencyCode_def
      SideBuy_def SideSell_def split: sum.splits)

definition accepted_fields :: "Event \<Rightarrow> bool" where
  "accepted_fields ev \<longleftrightarrow> isValidTenantID (ev_TenantID ev) \<and> isValidInstrument (ev_Instrument ev) \<and> isValidCurrencyCode (ev_Currency ev)
     \<and> (ev_Side ev = SideBuy \<or> ev_Side ev = SideSell) \<and> amount_ok (Inr (ev_Quantity ev)) \<and> amount_ok (Inr (ev_Price ev))
     \<and> ev_SchemaVersion ev = CurrentSchemaVersion"

lemma validated_request:
  assumes "TransactionEventRequest_validate u event = None"
  obtains ev where "TransactionEventRequest_toIngestionEvent u event = Inr ev" "accepted_fields ev"
    "uuid_Parse u (tr_EventID event) = Inr (ev_EventID ev)" "time_Parse (tr_OccurredAt event) = Inr (ev_OccurredAt ev)"
    "ev_TenantID ev = tr_TenantID event" "ev_Instrument ev = tr_Instrument event"
proof -
  obtain i q pr t where f: "uuid_Parse u (tr_EventID event) = Inr i" "ParseAmount (tr_Quantity event) = Inr q"
    "ParseAmount (tr_Price event) = Inr pr" "time_Parse (tr_OccurredAt event) = Inr t" "amount_ok (Inr q)" "amount_ok (Inr pr)"
    using assms unfolding validate_None by blast
  show thesis
    by (rule that [of "\<lparr>ev_EventID = i, ev_TenantID = tr_TenantID event, ev_SchemaVersion = CurrentSchemaVersion,
        ev_Instrument = tr_Instrument event, ev_Side = tr_Side event, ev_Quantity = q, ev_Price = pr,
        ev_Currency = tr_Currency event, ev_OccurredAt = t\<rparr>"])
      (use f assms in \<open>simp_all add: TransactionEventRequest_toIngestionEvent_def accepted_fields_def validate_None\<close>)
qed

lemma validateTransactionEvent_None:
  "validateTransactionEvent u p event = None \<longleftrightarrow>
     (\<exists>i t side. uuid_Parse u (te_EventId event) = Inr i \<and> te_OccurredAt event = Some t \<and> ts_CheckValid p t = None
        \<and> sideFromProto (te_Side event) = Inr side)
     \<and> te_EventId event \<noteq> [] \<and> isValidTenantID (te_TenantId event) \<and> isValidInstrument (te_Instrument event)
     \<and> isValidCurrencyCode (te_Currency event) \<and> amount_ok (Inr (te_Quantity event)) \<and> amount_ok (Inr (te_Price event))"
  by (auto simp: validateTransactionEvent_def amount_ok_def isValidTenantID_def isValidInstrument_def isValidCurrencyCode_def
      split: option.splits sum.splits)

lemma validated_message:
  assumes "validateTransactionEvent u p event = None"
  obtains ev t where "transactionEventToIngestionEvent u p event = Inr ev" "accepted_fields ev"
    "te_OccurredAt event = Some t" "ev_OccurredAt ev = ts_AsTime p t" "ts_CheckValid p t = None"
proof -
  obtain i t side where f: "uuid_Parse u (te_EventId event) = Inr i" "te_OccurredAt event = Some t" "ts_CheckValid p t = None"
    "sideFromProto (te_Side event) = Inr side"
    using assms unfolding validateTransactionEvent_None by blast
  then have "side = SideBuy \<or> side = SideSell" by (auto simp: sideFromProto_def split: if_splits)
  then show thesis
    by (intro that [of "\<lparr>ev_EventID = i, ev_TenantID = te_TenantId event, ev_SchemaVersion = CurrentSchemaVersion,
        ev_Instrument = te_Instrument event, ev_Side = side, ev_Quantity = te_Quantity event, ev_Price = te_Price event,
        ev_Currency = te_Currency event, ev_OccurredAt = ts_AsTime p t\<rparr>" t])
      (use f assms in \<open>simp_all add: transactionEventToIngestionEvent_def accepted_fields_def validateTransactionEvent_None\<close>)
qed

lemma tenant_no_colon: "isValidTenantID tenant \<Longrightarrow> CHR '':'' \<notin> set tenant"
  by (auto simp: isValidTenantID_def list_all_iff isLowerAlphanumeric_def)

lemma MaxAmount_value: "sint MaxAmount = 1000000000000000000"
  by (simp add: MaxAmount_def AmountScale_def)

lemma amount_ok_range: "amount_ok (Inr v) \<longleftrightarrow> 0 < sint v \<and> sint v \<le> 1000000000000000000"
  by (auto simp: amount_ok_def MaxAmount_value)

lemma valid_fields_ascii:
  "isValidTenantID s \<Longrightarrow> is_ascii s" "isValidInstrument s \<Longrightarrow> is_ascii s" "isValidCurrencyCode s \<Longrightarrow> is_ascii s"
  by (auto simp: isValidTenantID_def isValidInstrument_def isValidCurrencyCode_def isLowerAlphanumeric_def isUpperAlphanumeric_def
      is_ascii_def list_all_iff)

lemma accepted_publishable:
  assumes "accepted_fields ev" "printable (ev_OccurredAt ev)"
  shows "publishable ev"
proof -
  have "v \<noteq> - 9223372036854775808" if "amount_ok (Inr v)" for v
  proof
    assume "v = - 9223372036854775808"
    then have "sint v = - 9223372036854775808" by simp
    then show False using that by (simp add: amount_ok_range)
  qed
  moreover have "is_ascii SideBuy" "is_ascii SideSell" by (simp_all add: SideBuy_def SideSell_def)
  ultimately show ?thesis
    using assms by (auto simp: accepted_fields_def publishable_def valid_utf8_ascii valid_fields_ascii)
qed

text \<open>The keys: the constant-time comparison of all keys is membership.\<close>

lemma apiKey_validate_iff: "apiKey_validate auth token \<longleftrightarrow> token \<in> set auth"
proof -
  have "foldl (\<lambda>match key. match OR ConstantTimeCompare token key) m auth = (if m = 1 \<or> token \<in> set auth then 1 else 0)"
    if "m = 0 \<or> m = 1" for m
    using that by (induction auth arbitrary: m) (auto simp: ConstantTimeCompare_def)
  then show ?thesis by (simp add: apiKey_validate_def)
qed

section \<open>What the handlers answer\<close>

lemma status_simps [simp]: "rsp_status (writeJSONError n msg) = n" "rsp_status (writeJSON n b) = n"
  by (simp_all add: writeJSONError_def writeJSON_def)

text \<open>The event a request carries: the body is one JSON object of the right shape, followed by blanks only.\<close>

definition request_event :: "http_request \<Rightarrow> TransactionEventRequest option" where
  "request_event req =
     (case read_body req of Inl _ \<Rightarrow> None
      | Inr body \<Rightarrow> (case json_decode body of None \<Rightarrow> None
         | Some (v, trailing) \<Rightarrow> if isJSONWhitespace trailing then decode_struct request_names request_set TransactionEventRequest_Reset v else None))"

lemma handler_cases:
  assumes "newTransactionHandler u P req w = (rsp, w')"
  obtains (rejected) "rsp_status rsp = 400" "w' = w"
  | (published) event ev err where "request_event req = Some event" "TransactionEventRequest_validate u event = None"
      "TransactionEventRequest_toIngestionEvent u event = Inr ev" "accepted_fields ev"
      "P (hr_Context req) ev w = (err, w')" "rsp_status rsp = (if err = None then 202 else 503)"
proof (cases "rsp_status rsp = 400 \<and> w' = w")
  case False
  with assms obtain event ev err where "request_event req = Some event" "TransactionEventRequest_validate u event = None"
      "TransactionEventRequest_toIngestionEvent u event = Inr ev"
      "P (hr_Context req) ev w = (err, w')" "rsp_status rsp = (if err = None then 202 else 503)"
    by (auto simp: newTransactionHandler_def request_event_def split: sum.splits option.splits prod.splits if_splits)
  moreover from this obtain ev' where "TransactionEventRequest_toIngestionEvent u event = Inr ev'" "accepted_fields ev'"
    by (rule_tac validated_request)
  ultimately show ?thesis using published by simp
qed (use rejected in simp)

lemma ingest_cases:
  assumes "IngestTransaction u p P ctx req w = (r, w')"
  obtains (rejected) msg where "r = Inl (InvalidArgument, msg)" "w' = w"
  | (published) event ev err where "req = Some event" "validateTransactionEvent u p event = None" "transactionEventToIngestionEvent u p event = Inr ev"
      "accepted_fields ev" "P ctx ev w = (err, w')"
      "r = (if err = None then Inr \<lparr>itr_EventId = te_EventId event, itr_Accepted = True\<rparr> else Inl (Unavailable, ''failed to publish transaction event''))"
proof (cases "\<exists>msg. r = Inl (InvalidArgument, msg) \<and> w' = w")
  case False
  with assms obtain event ev err where "req = Some event" "validateTransactionEvent u p event = None" "transactionEventToIngestionEvent u p event = Inr ev"
      "P ctx ev w = (err, w')"
      "r = (if err = None then Inr \<lparr>itr_EventId = te_EventId event, itr_Accepted = True\<rparr> else Inl (Unavailable, ''failed to publish transaction event''))"
    by (auto simp: IngestTransaction_def split: sum.splits option.splits prod.splits)
  moreover from this obtain ev' where "transactionEventToIngestionEvent u p event = Inr ev'" "accepted_fields ev'"
    by (rule_tac validated_message)
  ultimately show ?thesis using published by simp
qed (use rejected in blast)

section \<open>The service\<close>

text \<open>The state of the ingestion service: the publish path with the limiter of a server.\<close>

record service_world = ingestion_world +
  sw_limiter :: rateLimiter

definition service_limiter :: "('a service_world_scheme) limiter_ref" where
  "service_limiter = \<lparr>l_get = sw_limiter, l_set = (\<lambda>l. sw_limiter_update (\<lambda>_. l)), l_now = iw_now\<rparr>"

lemma limiter_allow_frame: "limiter_allow service_limiter key w = (ok, w') \<Longrightarrow> iw_log w' = iw_log w"
  by (auto simp: limiter_allow_def service_limiter_def split: prod.splits)

text \<open>A request in the service's own rendering is read back.\<close>

definition request_text :: "TransactionEventRequest \<Rightarrow> bool" where
  "request_text e \<longleftrightarrow> list_all valid_utf8 [tr_EventID e, tr_TenantID e, tr_Instrument e, tr_Side e, tr_Quantity e, tr_Price e,
     tr_Currency e, tr_OccurredAt e]"

lemma request_event_rendered:
  assumes "request_text e" "length (render_request e) \<le> maxTransactionEventBytes" "hr_Body req = Inr (render_request e)"
  shows "request_event req = Some e"
proof -
  let ?vs = "[(''event_id'', JStr (tr_EventID e)), (''tenant_id'', JStr (tr_TenantID e)), (''instrument'', JStr (tr_Instrument e)),
    (''side'', JStr (tr_Side e)), (''quantity'', JStr (tr_Quantity e)), (''price'', JStr (tr_Price e)),
    (''currency'', JStr (tr_Currency e)), (''occurred_at'', JStr (tr_OccurredAt e))]"
  have "json_decode (render_request e) = Some (JObj ?vs, [])"
    unfolding render_request_def using assms(1)
    by (intro json_decode_object) (simp_all add: renders_members_def request_text_def renders_string valid_utf8_ascii)
  moreover have "decode_struct request_names request_set TransactionEventRequest_Reset (JObj ?vs) = Some e"
    by (simp add: decode_struct_def request_names_def request_set_def json_string_def TransactionEventRequest_Reset_def)
  ultimately show ?thesis using assms(2,3) by (simp add: request_event_def read_body_def isJSONWhitespace_def)
qed


definition demo_request :: TransactionEventRequest where
  "demo_request = \<lparr>tr_EventID = ''7'', tr_TenantID = ''acme'', tr_Instrument = ''BTC'', tr_Side = ''BUY'', tr_Quantity = ''1'',
     tr_Price = ''2.5'', tr_Currency = ''USD'', tr_OccurredAt = ''2024-02-29T00:00:00Z''\<rparr>"

definition demo_http :: http_request where
  "demo_http = \<lparr>hr_Authorization = ''Bearer k1'', hr_Body = Inr (render_request demo_request), hr_Context = None\<rparr>"

definition demo_service :: service_world where
  "demo_service = \<lparr>iw_log = [], iw_script = [(5, Acked)], iw_now = 0,
      iw_machine = \<lparr>m_config = \<lparr>FailureThreshold = 5, OpenTimeout = 30, ProbeTimeout = 0\<rparr>, m_state = Closed,
        m_consecutiveFailures = 0, m_openedAt = 0\<rparr>, iw_slots = 0, iw_metrics = [],
      sw_limiter = \<lparr>rl_rate = Fin 50, rl_burst = Fin 2, rl_shards = (\<lambda>_. Map.empty)\<rparr>\<rparr>"

lemma demo_request_event: "request_event demo_http = Some demo_request"
proof (rule request_event_rendered)
  show "request_text demo_request" by (simp add: request_text_def demo_request_def valid_utf8_ascii)
  show "length (render_request demo_request) \<le> maxTransactionEventBytes"
    by (simp add: render_request_def demo_request_def json_object_def json_member_def json_quote_def maxTransactionEventBytes_def
        quote_body.simps escape_ascii_def)
qed (simp add: demo_http_def)

lemma demo_request_valid: "TransactionEventRequest_validate decimal_uuid demo_request = None"
proof -
  have t: "\<exists>t. time_Parse ''2024-02-29T00:00:00Z'' = Inr t"
    by (simp add: time_Parse_def parse_RFC3339_def getyear_def get_char_def getnum_def is_digit_def digit_val_def parse_frac_def parse_zone_def
        dec_val_def daysIn_def month_lengths_def is_leap_def)
  have u: "uuid_Parse decimal_uuid ''7'' = Inr 7" by (simp add: decimal_uuid_def ParseUint_def is_digit_def digit_val_def)
  have q: "ParseAmount ''1'' = Inr 100000000" "ParseAmount ''2.5'' = Inr 250000000" by (simp_all add: parse_eval)
  show ?thesis
    unfolding validate_None using t u q
    by (auto simp: demo_request_def amount_ok_range isValidTenantID_def isValidInstrument_def isValidCurrencyCode_def
        isLowerAlphanumeric_def isUpperAlphanumeric_def SideBuy_def)
qed


text \<open>
  C14: the gRPC endpoint answers truthfully too. For every server that \<open>NewGRPCServer\<close> builds on the
  publish path, an accepting response means that the call was authenticated, that its event passed
  validation and that exactly this event's record was appended; the code \<open>Unavailable\<close> means that the
  record was appended at most once, every other error that nothing was appended, and a call without an
  accepted key is refused as \<open>Unauthenticated\<close> and changes no state.
\<close>

theorem grpc_answers_truthfully:
  assumes "NewGRPCServer u p service_limiter (publish_chain u topic capacity) apiKeys rateLimit w0 = (Inr serve, w1)"
    and "serve fullMethod metaData ctx req w = (r, w')" "\<not> strings_HasPrefix fullMethod healthCheckServicePrefix"
  shows "(case r of
      Inr response \<Rightarrow> bearerTokenFromContext metaData \<in> Some ` set apiKeys
        \<and> (\<exists>event ev. req = Some event \<and> response = \<lparr>itr_EventId = te_EventId event, itr_Accepted = True\<rparr>
             \<and> validateTransactionEvent u p event = None \<and> transactionEventToIngestionEvent u p event = Inr ev
             \<and> iw_log w' = iw_log w @ [event_record u topic ev])
    | Inl (code, msg) \<Rightarrow>
        (code = Unauthenticated \<longleftrightarrow> bearerTokenFromContext metaData \<notin> Some ` set apiKeys)
        \<and> (code = Unauthenticated \<longrightarrow> w' = w) \<and> (code \<noteq> Unavailable \<longrightarrow> iw_log w' = iw_log w)
        \<and> (code = Unavailable \<longrightarrow> (\<exists>event ev. req = Some event \<and> transactionEventToIngestionEvent u p event = Inr ev
             \<and> (iw_log w' = iw_log w \<or> iw_log w' = iw_log w @ [event_record u topic ev]))))"
proof -
  have keys: "newAPIKeyAuthenticator apiKeys = Inr apiKeys"
    and serve: "serve fullMethod metaData ctx req = auth_unaryInterceptor apiKeys fullMethod metaData
      (limiter_unaryInterceptor service_limiter fullMethod metaData (IngestTransaction u p (publish_chain u topic capacity) ctx req))"
    using assms(1) by (auto simp: NewGRPCServer_def newAPIKeyAuthenticator_def split: sum.splits if_splits)
  note defs = serve auth_unaryInterceptor_def limiter_unaryInterceptor_def authenticate_def apiKey_validate_iff
  show ?thesis
  proof (cases "bearerTokenFromContext metaData")
    case None
    then show ?thesis using assms(2,3) by (auto simp: defs)
  next
    case (Some token)
    obtain ok wl where l: "limiter_allow service_limiter token w = (ok, wl)" by fastforce
    note log = limiter_allow_frame [OF l]
    consider (key) "token \<notin> set apiKeys" | (limit) "token \<in> set apiKeys" "\<not> ok" | (pass) "token \<in> set apiKeys" ok by blast
    then show ?thesis
    proof cases
      case pass
      then have "IngestTransaction u p (publish_chain u topic capacity) ctx req wl = (r, w')"
        using assms(2,3) Some l by (simp add: defs)
      then show ?thesis
      proof (cases rule: ingest_cases)
        case (rejected msg)
        then show ?thesis using pass Some log by auto
      next
        case (published event ev err)
        then show ?thesis using pass Some log publish_chain_outcome [OF published(5)] by (cases err) auto
      qed
    qed (use assms(2,3) Some l log in \<open>auto simp: defs\<close>)
  qed
qed

definition utc_timestamps :: timestamp_package where
  "utc_timestamps = \<lparr>ts_CheckValid = (\<lambda>t. if - 62135596800 \<le> sint (ts_Seconds t) \<and> sint (ts_Seconds t) \<le> 253402300799
       \<and> 0 \<le> sint (ts_Nanos t) \<and> sint (ts_Nanos t) < 1000000000 then None else Some (Msg ''invalid timestamp'')),
     ts_AsTime = (\<lambda>t. \<lparr>gt_ns = sint (ts_Seconds t) * second_ns + sint (ts_Nanos t), gt_offset = 0\<rparr>)\<rparr>"

lemma utc_timestamps_laws: "timestamp_laws utc_timestamps"
  by (simp add: timestamp_laws_def utc_timestamps_def)

definition demo_message :: TransactionEvent where
  "demo_message = \<lparr>te_EventId = ''7'', te_TenantId = ''acme'', te_Instrument = ''BTC'', te_Side = 1, te_Quantity = 100000000,
     te_Price = 250000000, te_Currency = ''USD'', te_OccurredAt = Some \<lparr>ts_Seconds = 1709164800, ts_Nanos = 0\<rparr>\<rparr>"

theorem grpc_answers_truthfully_witness:
  "\<exists>serve w1 w'. NewGRPCServer decimal_uuid utc_timestamps service_limiter (publish_chain decimal_uuid ''t'' 4) [''k1'']
       \<lparr>RequestsPerSecond = Fin 50, Burst = 2\<rparr> demo_service = (Inr serve, w1)
     \<and> serve ''/ingestion.v1.TransactionIngestionService/IngestTransaction'' (Some [''Bearer k2'']) None (Some demo_message) demo_service
         = (Inl (Unauthenticated, ''missing or invalid bearer token''), w') \<and> w' = demo_service"
proof -
  let ?P = "publish_chain decimal_uuid ''t'' 4 :: service_world Publisher"
  let ?m = "''/ingestion.v1.TransactionIngestionService/IngestTransaction''"
  obtain serve w1 where n: "NewGRPCServer decimal_uuid utc_timestamps service_limiter ?P [''k1'']
       \<lparr>RequestsPerSecond = Fin 50, Burst = 2\<rparr> demo_service = (Inr serve, w1)"
    and h: "serve = (\<lambda>fullMethod metaData ctx req. auth_unaryInterceptor [''k1''] fullMethod metaData
      (limiter_unaryInterceptor service_limiter fullMethod metaData (IngestTransaction decimal_uuid utc_timestamps ?P ctx req)))"
    by (simp add: NewGRPCServer_def newAPIKeyAuthenticator_def newRateLimiter_def f64_le_def)
  have m: "\<not> strings_HasPrefix ?m healthCheckServicePrefix" by (simp add: strings_HasPrefix_def healthCheckServicePrefix_def)
  obtain w' where run: "serve ?m (Some [''Bearer k2'']) None (Some demo_message) demo_service
      = (Inl (Unauthenticated, ''missing or invalid bearer token''), w')"
    using m by (simp add: h auth_unaryInterceptor_def authenticate_def apiKey_validate_iff bearerTokenFromContext_def bearerToken_def)
  show ?thesis using n run grpc_answers_truthfully [OF n run m] by auto
qed

text \<open>The two forms of one event: equal identifiers, the same amounts, side and valid instant.\<close>

definition corresponds :: "timestamp_package \<Rightarrow> TransactionEventRequest \<Rightarrow> TransactionEvent \<Rightarrow> bool" where
  "corresponds p r m \<longleftrightarrow> te_EventId m = tr_EventID r \<and> te_TenantId m = tr_TenantID r \<and> te_Instrument m = tr_Instrument r
     \<and> te_Currency m = tr_Currency r
     \<and> (case sideFromProto (te_Side m) of Inr side \<Rightarrow> tr_Side r = side | Inl _ \<Rightarrow> tr_Side r \<noteq> SideBuy \<and> tr_Side r \<noteq> SideSell)
     \<and> ParseAmount (tr_Quantity r) = Inr (te_Quantity m) \<and> ParseAmount (tr_Price r) = Inr (te_Price m)
     \<and> (\<exists>t. te_OccurredAt m = Some t \<and> ts_CheckValid p t = None \<and> time_Parse (tr_OccurredAt r) = Inr (ts_AsTime p t))"

lemma parse_empty: "ParseAmount [] \<noteq> Inr v" "time_Parse [] \<noteq> Inr t"
  by (simp_all add: parse_eval time_Parse_def parse_RFC3339_def getyear_def)



end
