(* ===== verification/Consumer.thy ===== *)
theory Consumer
  imports Wire Metrics PartitionMap
begin

text \<open>
  The Kafka consumer of the processor service, \<open>src/internal/processor/kafka/consumer.go\<close> with the
  gauges of \<open>metrics.go\<close>. The Kafka client and the reconciler are records of functions over the state
  \<open>'w\<close>; whether the context has been canceled is a function of the state too, since it changes while
  the code runs. The poll loop and the retry loop are partial functions: None is a run that never
  returns.
\<close>

section \<open>Configuration\<close>

definition ErrInvalidConsumerConfig :: goerror where
  "ErrInvalidConsumerConfig = Sentinel ''invalid kafka consumer config''"

text \<open>\<open>MaxRetries\<close> and \<open>MaxPollRecords\<close> are \<open>int\<close>, which has 64 bits.\<close>

record ConsumerConfig =
  cc_Brokers :: "string list"
  cc_Topic :: string
  cc_GroupID :: string
  cc_DLQTopic :: string
  cc_MaxRetries :: int64
  cc_ManualPartitions :: "int32 list"
  cc_TenantID :: string
  cc_TenantPartitionSource :: "string option"
  cc_TenantPartitionReloadInterval :: duration
  cc_MaxPollRecords :: int64

definition Consumer_LocalConfig :: ConsumerConfig where
  "Consumer_LocalConfig =
     \<lparr>cc_Brokers = [''localhost:9092''], cc_Topic = ''transaction-events'', cc_GroupID = ''processor'',
      cc_DLQTopic = ''transaction-events-dlq'', cc_MaxRetries = 3, cc_ManualPartitions = [], cc_TenantID = [],
      cc_TenantPartitionSource = None, cc_TenantPartitionReloadInterval = 0, cc_MaxPollRecords = 0\<rparr>"

fun parsePartition_fields :: "string list \<Rightarrow> int32 list result" where
  "parsePartition_fields [] = Inr []"
| "parsePartition_fields (f # fs) =
     (case Atoi (strings_TrimSpace f) of
        Inl err \<Rightarrow> Inl (Wrap ''parse partition'' err)
      | Inr parsed \<Rightarrow>
          if parsed < 0 then Inl (Msg ''partition must not be negative'')
          else bind_res (parsePartition_fields fs) (\<lambda>partitions. Inr (word_of_int parsed # partitions)))"

definition parsePartitionList :: "string \<Rightarrow> int32 list result" where
  "parsePartitionList value = parsePartition_fields (strings_Split value (CHR '',''))"

definition Consumer_overrideDurationFromEnv :: "env \<Rightarrow> string \<Rightarrow> duration \<Rightarrow> duration result" where
  "Consumer_overrideDurationFromEnv getenv name dest =
     (if getenv name = [] then Inr dest
      else case time_ParseDuration (getenv name) of Inl err \<Rightarrow> Inl (Wrap2 ErrInvalidConsumerConfig name err) | Inr parsed \<Rightarrow> Inr parsed)"

definition Consumer_validate :: "ConsumerConfig \<Rightarrow> error" where
  "Consumer_validate cfg =
     (if cc_Brokers cfg = [] then Some (Wrap ''at least one broker is required'' ErrInvalidConsumerConfig)
      else if list_ex (\<lambda>broker. strings_TrimSpace broker = []) (cc_Brokers cfg)
        then Some (Wrap ''broker address must not be blank'' ErrInvalidConsumerConfig)
      else if strings_TrimSpace (cc_Topic cfg) = [] then Some (Wrap ''topic must not be blank'' ErrInvalidConsumerConfig)
      else if cc_ManualPartitions cfg = [] \<and> strings_TrimSpace (cc_GroupID cfg) = []
        then Some (Wrap ''group ID must not be blank'' ErrInvalidConsumerConfig)
      else if strings_TrimSpace (cc_DLQTopic cfg) = [] then Some (Wrap ''DLQ topic must not be blank'' ErrInvalidConsumerConfig)
      else if sint (cc_MaxRetries cfg) < 0 then Some (Wrap ''MaxRetries must not be negative'' ErrInvalidConsumerConfig)
      else if sint (cc_MaxPollRecords cfg) < 0 then Some (Wrap ''MaxPollRecords must not be negative'' ErrInvalidConsumerConfig)
      else if cc_TenantPartitionSource cfg \<noteq> None \<and> (cc_ManualPartitions cfg = [] \<or> strings_TrimSpace (cc_TenantID cfg) = [])
        then Some (Wrap ''TenantPartitionSource requires ManualPartitions and TenantID to be set'' ErrInvalidConsumerConfig)
      else None)"

text \<open>An integer variable: the old value if it is unset.\<close>

definition int_from_env :: "env \<Rightarrow> string \<Rightarrow> int64 \<Rightarrow> int64 result" where
  "int_from_env getenv name old =
     (if getenv name = [] then Inr old
      else case Atoi (getenv name) of Inl err \<Rightarrow> Inl (Wrap2 ErrInvalidConsumerConfig name err) | Inr parsed \<Rightarrow> Inr (word_of_int parsed))"

definition partitions_from_env :: "env \<Rightarrow> int32 list result" where
  "partitions_from_env getenv =
     (if getenv ''KAFKA_MANUAL_PARTITIONS'' = [] then Inr []
      else case parsePartitionList (getenv ''KAFKA_MANUAL_PARTITIONS'') of
             Inl err \<Rightarrow> Inl (Wrap2 ErrInvalidConsumerConfig ''parse KAFKA_MANUAL_PARTITIONS'' err)
           | Inr parsed \<Rightarrow> Inr parsed)"

definition Consumer_ConfigFromEnv :: "env \<Rightarrow> ConsumerConfig result" where
  "Consumer_ConfigFromEnv getenv =
     (let config = Consumer_LocalConfig;
          config = (if getenv ''KAFKA_BROKERS'' \<noteq> [] then config\<lparr>cc_Brokers := strings_Split (getenv ''KAFKA_BROKERS'') (CHR '','')\<rparr> else config);
          config = (if getenv ''KAFKA_TOPIC'' \<noteq> [] then config\<lparr>cc_Topic := getenv ''KAFKA_TOPIC''\<rparr> else config);
          config = (if getenv ''KAFKA_CONSUMER_GROUP'' \<noteq> [] then config\<lparr>cc_GroupID := getenv ''KAFKA_CONSUMER_GROUP''\<rparr> else config);
          config = (if getenv ''KAFKA_DLQ_TOPIC'' \<noteq> [] then config\<lparr>cc_DLQTopic := getenv ''KAFKA_DLQ_TOPIC''\<rparr> else config)
      in bind_res (int_from_env getenv ''KAFKA_MAX_RETRIES'' (cc_MaxRetries config)) (\<lambda>maxRetries.
         bind_res (partitions_from_env getenv) (\<lambda>partitions.
         let config = config\<lparr>cc_MaxRetries := maxRetries, cc_ManualPartitions := partitions\<rparr>;
             config = (if getenv ''TENANT_ID'' \<noteq> [] then config\<lparr>cc_TenantID := getenv ''TENANT_ID''\<rparr> else config);
             config = (if getenv ''TENANT_PARTITION_MAP_PATH'' \<noteq> []
                       then config\<lparr>cc_TenantPartitionSource := Some (getenv ''TENANT_PARTITION_MAP_PATH'')\<rparr> else config)
         in bind_res (Consumer_overrideDurationFromEnv getenv ''TENANT_PARTITION_RELOAD_INTERVAL'' (cc_TenantPartitionReloadInterval config)) (\<lambda>interval.
            bind_res (int_from_env getenv ''KAFKA_MAX_POLL_RECORDS'' (cc_MaxPollRecords config)) (\<lambda>maxPollRecords.
            let config = config\<lparr>cc_TenantPartitionReloadInterval := interval, cc_MaxPollRecords := maxPollRecords\<rparr>
            in case Consumer_validate config of Some err \<Rightarrow> Inl err | None \<Rightarrow> Inr config)))))"

section \<open>The Kafka client and the consumer\<close>

text \<open>What a poll returns: the fetch errors, and the fetched partitions with their records.\<close>

record FetchPartition =
  fp_Topic :: string
  fp_Partition :: int32
  fp_HighWatermark :: int64
  fp_Records :: "kgo_Record list"

record Fetches =
  f_Errors :: "(string \<times> int32 \<times> goerror) list"
  f_Partitions :: "FetchPartition list"

record 'w kafkaClient =
  kc_PollRecords :: "int64 \<Rightarrow> 'w \<Rightarrow> Fetches \<times> 'w"
  kc_ProduceSync :: "kgo_Record \<Rightarrow> 'w \<Rightarrow> error \<times> 'w"
  kc_AddConsumePartitions :: "string \<Rightarrow> int32 set \<Rightarrow> 'w \<Rightarrow> 'w"
  kc_RemoveConsumePartitions :: "string \<Rightarrow> int32 set \<Rightarrow> 'w \<Rightarrow> 'w"
  kc_Close :: "'w \<Rightarrow> 'w"

type_synonym 'w reconciler_fn = "ctx \<Rightarrow> Transaction \<Rightarrow> 'w \<Rightarrow> error \<times> 'w"

text \<open>Nil metrics are None. \<open>con_canceled\<close> is \<open>ctx.Err() != nil\<close>, \<open>con_now\<close> the clock.\<close>

record 'w Consumer =
  con_client :: "'w kafkaClient"
  con_topic :: string
  con_dlqTopic :: string
  con_maxRetries :: int64
  con_maxPollRecords :: int64
  con_rec :: "'w reconciler_fn"
  con_metrics :: "('w meter \<times> KnownTenants) option"
  con_canceled :: "'w \<Rightarrow> bool"
  con_now :: "'w \<Rightarrow> time"
  con_uuid :: uuid_package

text \<open>The options of \<open>kgo.NewClient\<close>: a manual assignment from the start of each partition, or a consumer group.\<close>

datatype consume_mode = ConsumePartitions string "int32 set" | ConsumerGroup string string

record consumer_options =
  co_SeedBrokers :: "string list"
  co_ClientID :: string
  co_Consume :: consume_mode

record ConsumerReloader =
  cr_Source :: string
  cr_TenantID :: string
  cr_Topic :: string
  cr_Interval :: duration

text \<open>
  \<open>NewConsumer\<close>: the consumer, its assignment (None is nil), and the reloader it starts. \<open>env\<close> supplies
  the context, the clock and the uuid package of the consumer.
\<close>

definition NewConsumer ::
    "(consumer_options \<Rightarrow> 'w \<Rightarrow> 'w kafkaClient result \<times> 'w) \<Rightarrow> ('w \<Rightarrow> bool) \<Rightarrow> ('w \<Rightarrow> time) \<Rightarrow> uuid_package
      \<Rightarrow> ConsumerConfig \<Rightarrow> 'w reconciler_fn \<Rightarrow> ('w Registerer \<times> 'w meter) option \<Rightarrow> KnownTenants \<Rightarrow> 'w
      \<Rightarrow> ('w Consumer \<times> int32 set option \<times> ConsumerReloader option) result \<times> 'w" where
  "NewConsumer newClient canceled now u cfg rec reg knownTenants w =
     (case Consumer_validate cfg of Some err \<Rightarrow> (Inl (Wrap ''new kafka consumer'' err), w)
      | None \<Rightarrow> (case reg of None \<Rightarrow> (Inl (Msg ''new kafka consumer: reg must not be nil''), w)
      | Some (r, meter) \<Rightarrow> (case consumer_NewMetrics r w of (Inl err, w1) \<Rightarrow> (Inl (Wrap ''new kafka consumer'' err), w1)
      | (Inr consumerMetrics, w1) \<Rightarrow>
          let manual = cc_ManualPartitions cfg;
              assignment = (if manual \<noteq> [] then Some (set manual) else None);
              mode = (case assignment of Some ps \<Rightarrow> ConsumePartitions (cc_Topic cfg) ps | None \<Rightarrow> ConsumerGroup (cc_Topic cfg) (cc_GroupID cfg))
          in (case newClient \<lparr>co_SeedBrokers = cc_Brokers cfg, co_ClientID = ''processor'', co_Consume = mode\<rparr> w1 of
                (Inl err, w2) \<Rightarrow> (Inl (Wrap ''new kafka consumer: create client'' err), w2)
              | (Inr client, w2) \<Rightarrow>
                  (Inr (\<lparr>con_client = client, con_topic = cc_Topic cfg, con_dlqTopic = cc_DLQTopic cfg, con_maxRetries = cc_MaxRetries cfg,
                         con_maxPollRecords = cc_MaxPollRecords cfg, con_rec = rec, con_metrics = Some (meter, knownTenants),
                         con_canceled = canceled, con_now = now, con_uuid = u\<rparr>, assignment,
                        map_option (\<lambda>source. \<lparr>cr_Source = source, cr_TenantID = cc_TenantID cfg, cr_Topic = cc_Topic cfg,
                          cr_Interval = cc_TenantPartitionReloadInterval cfg\<rparr>) (cc_TenantPartitionSource cfg)), w2)))))"

definition Consumer_Close :: "(ConsumerReloader \<Rightarrow> 'w \<Rightarrow> 'w) \<Rightarrow> ConsumerReloader option \<Rightarrow> 'w Consumer \<Rightarrow> 'w \<Rightarrow> 'w" where
  "Consumer_Close stop reloader con w = kc_Close (con_client con) (case reloader of None \<Rightarrow> w | Some r \<Rightarrow> stop r w)"

section \<open>Dead letters\<close>

record dlqEvent =
  dq_OriginalTopic :: string
  dq_OriginalPartition :: int32
  dq_OriginalOffset :: int64
  dq_Payload :: string
  dq_FailureReason :: string
  dq_Attempts :: int64
  dq_FailedAt :: string

definition marshal_dlqEvent :: "dlqEvent \<Rightarrow> string" where
  "marshal_dlqEvent e = json_object
     [(''original_topic'', json_quote (dq_OriginalTopic e)), (''original_partition'', Itoa (sint (dq_OriginalPartition e))),
      (''original_offset'', Itoa (sint (dq_OriginalOffset e))), (''payload'', json_quote (dq_Payload e)),
      (''failure_reason'', json_quote (dq_FailureReason e)), (''attempts'', Itoa (sint (dq_Attempts e))),
      (''failed_at'', json_quote (dq_FailedAt e))]"

definition dlq_record :: "'w Consumer \<Rightarrow> kgo_Record \<Rightarrow> goerror \<Rightarrow> int64 \<Rightarrow> 'w \<Rightarrow> kgo_Record" where
  "dlq_record con r failureErr attempts w =
     \<lparr>kr_Topic = con_dlqTopic con, kr_Partition = 0, kr_Offset = 0, kr_Key = kr_Key r,
      kr_Value = marshal_dlqEvent \<lparr>dq_OriginalTopic = kr_Topic r, dq_OriginalPartition = kr_Partition r, dq_OriginalOffset = kr_Offset r,
        dq_Payload = kr_Value r, dq_FailureReason = error_text failureErr, dq_Attempts = attempts,
        dq_FailedAt = time_Format \<lparr>gt_ns = con_now con w, gt_offset = 0\<rparr>\<rparr>\<rparr>"

definition publishToDLQ :: "'w Consumer \<Rightarrow> kgo_Record \<Rightarrow> goerror \<Rightarrow> int64 \<Rightarrow> 'w \<Rightarrow> error \<times> 'w" where
  "publishToDLQ con r failureErr attempts w =
     (case kc_ProduceSync (con_client con) (dlq_record con r failureErr attempts w) w of
        (Some err, w') \<Rightarrow> (Some (Wrap ''publish to dlq topic'' err), w')
      | (None, w') \<Rightarrow> (None, w'))"

section \<open>Retries\<close>

text \<open>The loop \<open>for attempt := 1; attempt <= con.maxRetries+1; attempt++\<close>; both sides are 64-bit and wrap around.\<close>

partial_function (option) retry_loop :: "('w \<Rightarrow> error \<times> 'w) \<Rightarrow> ('w \<Rightarrow> bool) \<Rightarrow> int64 \<Rightarrow> int64 \<Rightarrow> error \<Rightarrow> 'w \<Rightarrow> ((int64 \<times> error) \<times> 'w) option" where
  "retry_loop call canceled bound attempt lastErr w =
     (if sint attempt \<le> sint bound then
        (case call w of
           (None, w') \<Rightarrow> Some ((attempt, None), w')
         | (Some err, w') \<Rightarrow> if canceled w' then Some ((attempt, Some err), w')
                             else retry_loop call canceled bound (attempt + 1) (Some err) w')
      else Some ((bound, lastErr), w))"

definition reconcileWithRetry :: "'w Consumer \<Rightarrow> Transaction \<Rightarrow> 'w \<Rightarrow> ((int64 \<times> error) \<times> 'w) option" where
  "reconcileWithRetry con txn w = retry_loop (con_rec con None txn) (con_canceled con) (con_maxRetries con + 1) 1 None w"

section \<open>The poll loop\<close>

text \<open>The variables of one pass over a partition: tenant and offset seen last, whether a record was seen, the DLQ error.\<close>

record 'w pass =
  ps_lastTenantID :: string
  ps_lastOffset :: int64
  ps_sawRecord :: bool
  ps_dlqErr :: error
  ps_world :: 'w

definition process_record :: "'w Consumer \<Rightarrow> kgo_Record \<Rightarrow> 'w pass \<Rightarrow> 'w pass option" where
  "process_record con r p =
     (if ps_dlqErr p \<noteq> None then Some p
      else let p = p\<lparr>ps_sawRecord := True, ps_lastOffset := kr_Offset r\<rparr>
           in (case decodeTransaction (con_uuid con) (kr_Value r) of
                 Inl decodeErr \<Rightarrow>
                   (case publishToDLQ con r decodeErr 1 (ps_world p) of
                      (None, w) \<Rightarrow> Some (p\<lparr>ps_world := w\<rparr>)
                    | (Some err, w) \<Rightarrow> Some (p\<lparr>ps_world := w, ps_dlqErr := Some (Wrap ''route undecodable record to dlq'' err)\<rparr>))
               | Inr txn \<Rightarrow>
                   let p = p\<lparr>ps_lastTenantID := tx_TenantID txn\<rparr>
                   in (case reconcileWithRetry con txn (ps_world p) of
                         None \<Rightarrow> None
                       | Some ((attempts, None), w) \<Rightarrow> Some (p\<lparr>ps_world := w\<rparr>)
                       | Some ((attempts, Some reconcileErr), w) \<Rightarrow>
                           (case publishToDLQ con r reconcileErr attempts w of
                              (None, w') \<Rightarrow> Some (p\<lparr>ps_world := w'\<rparr>)
                            | (Some err, w') \<Rightarrow> Some (p\<lparr>ps_world := w', ps_dlqErr := Some (Wrap ''route reconcile failure to dlq'' err)\<rparr>)))))"

fun process_records :: "'w Consumer \<Rightarrow> kgo_Record list \<Rightarrow> 'w pass \<Rightarrow> 'w pass option" where
  "process_records con [] p = Some p"
| "process_records con (r # rs) p = Option.bind (process_record con r p) (process_records con rs)"

text \<open>\<open>observeLag\<close> and \<open>observeActiveConsumers\<close>.\<close>

definition observeLag :: "'w meter \<Rightarrow> KnownTenants \<Rightarrow> string \<Rightarrow> int64 \<Rightarrow> 'w \<Rightarrow> 'w" where
  "observeLag meter knownTenants tenantID lag w =
     (let lag = (if sint lag < 0 then 0 else lag)
      in meter (SetGauge ''processor_kafka_consumer_lag_messages'' [TenantLabel knownTenants tenantID] (float64_of_int (sint lag))) w)"

text \<open>A map of counters, as an association list; a missing counter reads as zero.\<close>

type_synonym counts = "(string \<times> int32) list"

definition add_count :: "string \<Rightarrow> int32 \<Rightarrow> counts \<Rightarrow> counts" where
  "add_count k n c = AList.update k ((case map_of c k of None \<Rightarrow> 0 | Some m \<Rightarrow> m) + n) c"

definition observeActiveConsumers :: "'w meter \<Rightarrow> KnownTenants \<Rightarrow> counts \<Rightarrow> 'w \<Rightarrow> 'w" where
  "observeActiveConsumers meter knownTenants counts w =
     (let totals = foldl (\<lambda>totals (tenantID, count). add_count (TenantLabel knownTenants tenantID) count totals) [] counts
      in foldl (\<lambda>w (label, n). meter (SetGauge ''processor_kafka_active_consumer_count'' [label] (float64_of_int (sint n))) w) w totals)"

definition process_partition :: "'w Consumer \<Rightarrow> FetchPartition \<Rightarrow> counts \<times> error \<times> 'w \<Rightarrow> (counts \<times> error \<times> 'w) option" where
  "process_partition con fp s =
     (case s of (active, dlqErr, w) \<Rightarrow>
        if dlqErr \<noteq> None then Some s
        else (case process_records con (fp_Records fp)
                \<lparr>ps_lastTenantID = [], ps_lastOffset = 0, ps_sawRecord = False, ps_dlqErr = None, ps_world = w\<rparr> of
                None \<Rightarrow> None
              | Some p \<Rightarrow>
                  (case con_metrics con of
                     Some (meter, knownTenants) \<Rightarrow>
                       if ps_sawRecord p
                       then Some (add_count (ps_lastTenantID p) 1 active, ps_dlqErr p,
                              observeLag meter knownTenants (ps_lastTenantID p) (fp_HighWatermark fp - 1 - ps_lastOffset p) (ps_world p))
                       else Some (active, ps_dlqErr p, ps_world p)
                   | None \<Rightarrow> Some (active, ps_dlqErr p, ps_world p))))"

fun process_partitions :: "'w Consumer \<Rightarrow> FetchPartition list \<Rightarrow> counts \<times> error \<times> 'w \<Rightarrow> (counts \<times> error \<times> 'w) option" where
  "process_partitions con [] s = Some s"
| "process_partitions con (fp # fps) s = Option.bind (process_partition con fp s) (process_partitions con fps)"

text \<open>One iteration of \<open>Run\<close>: \<open>Inl\<close> is its return value, \<open>Inr\<close> the state in which it polls again.\<close>

definition Run_once :: "'w Consumer \<Rightarrow> 'w \<Rightarrow> (error \<times> 'w + 'w) option" where
  "Run_once con w =
     (case kc_PollRecords (con_client con) (con_maxPollRecords con) w of
        (fetches, w1) \<Rightarrow>
          if f_Errors fetches \<noteq> [] then
            (if con_canceled con w1 then Some (Inl (None, w1))
             else Some (Inl (Some (Wrap ''consume transaction events from kafka topic'' (snd (snd (hd (f_Errors fetches))))), w1)))
          else if con_canceled con w1 then Some (Inl (None, w1))
          else (case process_partitions con (f_Partitions fetches) ([], None, w1) of
                  None \<Rightarrow> None
                | Some (active, dlqErr, w2) \<Rightarrow>
                    let w3 = (case con_metrics con of Some (meter, knownTenants) \<Rightarrow> observeActiveConsumers meter knownTenants active w2 | None \<Rightarrow> w2)
                    in (case dlqErr of
                          Some err \<Rightarrow> Some (Inl (if con_canceled con w3 then None else Some err, w3))
                        | None \<Rightarrow> Some (Inr w3))))"

partial_function (option) Consumer_Run :: "'w Consumer \<Rightarrow> 'w \<Rightarrow> (error \<times> 'w) option" where
  "Consumer_Run con w =
     (case Run_once con w of None \<Rightarrow> None | Some (Inl r) \<Rightarrow> Some r | Some (Inr w') \<Rightarrow> Consumer_Run con w')"

section \<open>The retry loop ends\<close>

text \<open>The state after \<open>n\<close> calls.\<close>

definition after_calls :: "('w \<Rightarrow> error \<times> 'w) \<Rightarrow> nat \<Rightarrow> 'w \<Rightarrow> 'w" where
  "after_calls call n w = ((\<lambda>w. snd (call w)) ^^ n) w"

lemma after_calls_simps [simp]:
  "after_calls call 0 w = w" "after_calls call (Suc n) w = after_calls call n (snd (call w))"
  by (simp_all add: after_calls_def funpow_Suc_right del: funpow.simps(2))

text \<open>The first \<open>n\<close> calls fail and are not interrupted, the next one is the last.\<close>

definition last_call :: "('w \<Rightarrow> error \<times> 'w) \<Rightarrow> ('w \<Rightarrow> bool) \<Rightarrow> nat \<Rightarrow> 'w \<Rightarrow> bool" where
  "last_call call canceled n w \<longleftrightarrow> (\<forall>k < n. fst (call (after_calls call k w)) \<noteq> None \<and> \<not> canceled (after_calls call (Suc k) w))"

lemma last_call_Suc:
  "fst (call w) \<noteq> None \<Longrightarrow> \<not> canceled (snd (call w)) \<Longrightarrow> last_call call canceled n (snd (call w)) \<Longrightarrow> last_call call canceled (Suc n) w"
  unfolding last_call_def by (auto simp: less_Suc_eq_0_disj)

lemma retry_loop_run:
  assumes "sint bound < max_int64" "sint attempt \<le> sint bound" "1 \<le> sint attempt"
  shows "\<exists>n. retry_loop call canceled bound attempt lastErr w
      = Some ((attempt + of_nat n, fst (call (after_calls call n w))), after_calls call (Suc n) w)
    \<and> sint (attempt + of_nat n) = sint attempt + int n \<and> sint attempt + int n \<le> sint bound \<and> last_call call canceled n w
    \<and> (fst (call (after_calls call n w)) = None \<or> sint attempt + int n = sint bound \<or> canceled (after_calls call (Suc n) w))"
  using assms
proof (induction "nat (sint bound - sint attempt)" arbitrary: attempt lastErr w rule: less_induct)
  case less
  obtain e w' where c: "call w = (e, w')" by fastforce
  show ?case
  proof (cases "e = None \<or> canceled w'")
    case True
    then show ?thesis
      using c less.prems by (intro exI [of _ 0]) (auto simp: retry_loop.simps [of call canceled bound attempt] last_call_def split: option.splits)
  next
    case False
    then obtain err where e: "e = Some err" by auto
    have suc: "sint (attempt + 1) = sint attempt + 1"
      using less.prems by (intro sint64_add [THEN trans]) (auto simp: is_int64_def)
    have step: "retry_loop call canceled bound attempt lastErr w = retry_loop call canceled bound (attempt + 1) (Some err) w'"
      using c False e less.prems by (simp add: retry_loop.simps [of call canceled bound attempt])
    show ?thesis
    proof (cases "sint attempt = sint bound")
      case True
      then have "retry_loop call canceled bound (attempt + 1) (Some err) w' = Some ((bound, Some err), w')"
        using suc by (simp add: retry_loop.simps)
      moreover have "attempt = bound" using True sint64_eq_iff by blast
      ultimately show ?thesis using step c e less.prems by (intro exI [of _ 0]) (simp add: last_call_def)
    next
      case F: False
      then obtain n where n: "retry_loop call canceled bound (attempt + 1) (Some err) w'
          = Some ((attempt + 1 + of_nat n, fst (call (after_calls call n w'))), after_calls call (Suc n) w')"
        "sint (attempt + 1 + of_nat n) = sint (attempt + 1) + int n" "sint (attempt + 1) + int n \<le> sint bound" "last_call call canceled n w'"
        "fst (call (after_calls call n w')) = None \<or> sint (attempt + 1) + int n = sint bound \<or> canceled (after_calls call (Suc n) w')"
        using less.hyps [of "attempt + 1" "Some err" w'] less.prems suc by (auto simp: nat_mono_iff)
      have "last_call call canceled (Suc n) w" by (rule last_call_Suc) (use c e False n(4) in auto)
      then show ?thesis using step n suc c by (intro exI [of _ "Suc n"]) (simp add: add.assoc)
    qed
  qed
qed

lemma reconcileWithRetry_run:
  assumes "0 \<le> sint (con_maxRetries con)" "sint (con_maxRetries con) < 2 ^ 63 - 2"
  shows "\<exists>n attempts err w'. reconcileWithRetry con txn w = Some ((attempts, err), w')
    \<and> sint attempts = int n + 1 \<and> int n \<le> sint (con_maxRetries con)
    \<and> w' = after_calls (con_rec con None txn) (n + 1) w \<and> err = fst (con_rec con None txn (after_calls (con_rec con None txn) n w))
    \<and> last_call (con_rec con None txn) (con_canceled con) n w
    \<and> (err = None \<or> int n = sint (con_maxRetries con) \<or> con_canceled con w')"
proof -
  have b: "sint (con_maxRetries con + 1) = sint (con_maxRetries con) + 1"
    using assms by (intro sint64_add [THEN trans]) (auto simp: is_int64_def)
  obtain n where "reconcileWithRetry con txn w = Some ((1 + of_nat n, fst (con_rec con None txn (after_calls (con_rec con None txn) n w))),
        after_calls (con_rec con None txn) (Suc n) w)"
    "sint (1 + of_nat n :: int64) = 1 + int n" "1 + int n \<le> sint (con_maxRetries con) + 1"
    "last_call (con_rec con None txn) (con_canceled con) n w"
    "fst (con_rec con None txn (after_calls (con_rec con None txn) n w)) = None \<or> 1 + int n = sint (con_maxRetries con) + 1
      \<or> con_canceled con (after_calls (con_rec con None txn) (Suc n) w)"
    using retry_loop_run [of "con_maxRetries con + 1" 1 "con_rec con None txn" "con_canceled con" None w] assms b
    unfolding reconcileWithRetry_def by auto
  then show ?thesis by (intro exI [of _ n] exI conjI) auto
qed

text \<open>
  C29: the retry loop ends and is bounded. For every \<open>MaxRetries\<close> from 0 up to \<open>2 ^ 63 - 3\<close>, and whatever
  the reconciler does, \<open>reconcileWithRetry\<close> returns after between 1 and \<open>MaxRetries + 1\<close> calls, reports
  exactly the number of calls made, and returns the error of the last one; all earlier calls failed,
  and it gives up on an error only at the bound or because the context was canceled.
\<close>

theorem reconcileWithRetry_bounded:
  assumes "0 \<le> sint (con_maxRetries con)" "sint (con_maxRetries con) < 2 ^ 63 - 2"
  shows "\<exists>n attempts err w'. reconcileWithRetry con txn w = Some ((attempts, err), w')
    \<and> sint attempts = int n + 1 \<and> int n \<le> sint (con_maxRetries con)
    \<and> w' = after_calls (con_rec con None txn) (n + 1) w \<and> err = fst (con_rec con None txn (after_calls (con_rec con None txn) n w))
    \<and> last_call (con_rec con None txn) (con_canceled con) n w
    \<and> (err = None \<or> int n = sint (con_maxRetries con) \<or> con_canceled con w')"
  using assms by (rule reconcileWithRetry_run)

definition flaky :: "nat Consumer" where
  "flaky = \<lparr>con_client = \<lparr>kc_PollRecords = (\<lambda>_ w. (\<lparr>f_Errors = [], f_Partitions = []\<rparr>, w)), kc_ProduceSync = (\<lambda>_ w. (None, w)),
       kc_AddConsumePartitions = (\<lambda>_ _ w. w), kc_RemoveConsumePartitions = (\<lambda>_ _ w. w), kc_Close = id\<rparr>,
     con_topic = ''t'', con_dlqTopic = ''d'', con_maxRetries = 3, con_maxPollRecords = 0,
     con_rec = (\<lambda>_ _ w. (if w < 2 then Some (Msg ''busy'') else None, w + 1)), con_metrics = None, con_canceled = (\<lambda>_. False),
     con_now = (\<lambda>_. 0), con_uuid = decimal_uuid\<rparr>"

theorem reconcileWithRetry_bounded_witness:
  "0 \<le> sint (con_maxRetries flaky) \<and> sint (con_maxRetries flaky) < 2 ^ 63 - 2
   \<and> (\<exists>attempts w'. reconcileWithRetry flaky sample_transaction 0 = Some ((attempts, None), w') \<and> sint attempts \<le> 4)"
proof -
  have h: "0 \<le> sint (con_maxRetries flaky)" "sint (con_maxRetries flaky) < 2 ^ 63 - 2" "sint (con_maxRetries flaky) = 3" by (simp_all add: flaky_def)
  obtain n attempts err w' where r: "reconcileWithRetry flaky sample_transaction 0 = Some ((attempts, err), w')" "sint attempts = int n + 1" "int n \<le> 3"
    "err = fst (con_rec flaky None sample_transaction (after_calls (con_rec flaky None sample_transaction) n 0))" "err = None \<or> int n = 3 \<or> con_canceled flaky w'"
    using reconcileWithRetry_bounded [OF h(1,2), of sample_transaction 0] h(3) by metis
  have "after_calls (con_rec flaky None sample_transaction) 3 0 = 3" by (simp add: flaky_def numeral_3_eq_3)
  then have "err = None" using r(4,5) by (auto simp: flaky_def)
  then show ?thesis using h r by simp
qed

section \<open>No record is skipped\<close>

text \<open>A bound for which the loop condition does not wrap around.\<close>

definition retry_bounded :: "'w Consumer \<Rightarrow> bool" where
  "retry_bounded con \<longleftrightarrow> 0 \<le> sint (con_maxRetries con) \<and> sint (con_maxRetries con) < 2 ^ 63 - 2"

text \<open>A record is settled: reconciled, or written to the dead-letter topic with the error that put it there.\<close>

definition reconciled :: "'w Consumer \<Rightarrow> kgo_Record \<Rightarrow> 'w \<Rightarrow> 'w \<Rightarrow> bool" where
  "reconciled con r w w' \<longleftrightarrow>
     (\<exists>txn n. decodeTransaction (con_uuid con) (kr_Value r) = Inr txn
        \<and> con_rec con None txn (after_calls (con_rec con None txn) n w) = (None, w'))"

definition failed :: "'w Consumer \<Rightarrow> kgo_Record \<Rightarrow> 'w \<Rightarrow> goerror \<Rightarrow> int64 \<Rightarrow> 'w \<Rightarrow> bool" where
  "failed con r w err attempts w1 \<longleftrightarrow>
     decodeTransaction (con_uuid con) (kr_Value r) = Inl err \<and> attempts = 1 \<and> w1 = w
     \<or> (\<exists>txn. decodeTransaction (con_uuid con) (kr_Value r) = Inr txn \<and> reconcileWithRetry con txn w = Some ((attempts, Some err), w1))"

definition dead_lettered :: "'w Consumer \<Rightarrow> kgo_Record \<Rightarrow> 'w \<Rightarrow> 'w \<Rightarrow> bool" where
  "dead_lettered con r w w' \<longleftrightarrow>
     (\<exists>err attempts w1. failed con r w err attempts w1 \<and> kc_ProduceSync (con_client con) (dlq_record con r err attempts w1) w1 = (None, w'))"

definition unroutable :: "'w Consumer \<Rightarrow> kgo_Record \<Rightarrow> 'w \<Rightarrow> 'w \<Rightarrow> bool" where
  "unroutable con r w w' \<longleftrightarrow>
     (\<exists>err attempts w1 e. failed con r w err attempts w1 \<and> kc_ProduceSync (con_client con) (dlq_record con r err attempts w1) w1 = (Some e, w'))"

text \<open>Records settled in order, with calls on the metrics in between.\<close>

inductive settled :: "'w Consumer \<Rightarrow> kgo_Record list \<Rightarrow> 'w \<Rightarrow> 'w \<Rightarrow> bool" for con where
  none: "settled con [] w w"
| reconcile: "settled con rs w w1 \<Longrightarrow> reconciled con r w1 w2 \<Longrightarrow> settled con (rs @ [r]) w w2"
| dead_letter: "settled con rs w w1 \<Longrightarrow> dead_lettered con r w1 w2 \<Longrightarrow> settled con (rs @ [r]) w w2"
| observe: "settled con rs w w1 \<Longrightarrow> con_metrics con = Some (meter, known) \<Longrightarrow> settled con rs w (meter c w1)"

text \<open>A pass that stopped at a record it could not route; the rest of the poll is untouched.\<close>

definition stopped :: "'w Consumer \<Rightarrow> kgo_Record list \<Rightarrow> 'w \<Rightarrow> 'w \<Rightarrow> bool" where
  "stopped con rs w w' \<longleftrightarrow> (\<exists>before r rest w1 w2. rs = before @ r # rest \<and> settled con before w w1 \<and> unroutable con r w1 w2 \<and> settled con [] w2 w')"

definition progress :: "'w Consumer \<Rightarrow> kgo_Record list \<Rightarrow> 'w \<Rightarrow> error \<Rightarrow> 'w \<Rightarrow> bool" where
  "progress con rs w dlqErr w' \<longleftrightarrow> (if dlqErr = None then settled con rs w w' else stopped con rs w w')"

lemma reconcileWithRetry_None:
  assumes "retry_bounded con" "reconcileWithRetry con txn w = Some ((attempts, None), w')"
  shows "\<exists>n. con_rec con None txn (after_calls (con_rec con None txn) n w) = (None, w')"
proof -
  obtain n where "w' = after_calls (con_rec con None txn) (n + 1) w" "None = fst (con_rec con None txn (after_calls (con_rec con None txn) n w))"
    using reconcileWithRetry_run [of con txn w] assms by (auto simp: retry_bounded_def)
  then show ?thesis by (intro exI [of _ n]) (simp add: after_calls_def prod_eq_iff)
qed

lemma process_record_progress:
  assumes "process_record con r p = Some p'" "ps_dlqErr p = None" "retry_bounded con"
  shows "ps_dlqErr p' = None \<longrightarrow> reconciled con r (ps_world p) (ps_world p') \<or> dead_lettered con r (ps_world p) (ps_world p')"
    and "ps_dlqErr p' \<noteq> None \<longrightarrow> unroutable con r (ps_world p) (ps_world p')"
proof -
  have cases: "(ps_dlqErr p' = None \<and> (reconciled con r (ps_world p) (ps_world p') \<or> dead_lettered con r (ps_world p) (ps_world p')))
      \<or> (ps_dlqErr p' \<noteq> None \<and> unroutable con r (ps_world p) (ps_world p'))"
  proof (cases "decodeTransaction (con_uuid con) (kr_Value r)")
    case (Inl err)
    then show ?thesis
      using assms by (auto simp: process_record_def publishToDLQ_def dead_lettered_def unroutable_def failed_def Let_def split: prod.splits option.splits)
  next
    case (Inr txn)
    then obtain attempts e w1 where rr: "reconcileWithRetry con txn (ps_world p) = Some ((attempts, e), w1)"
      using assms by (auto simp: process_record_def Let_def split: option.splits)
    show ?thesis
    proof (cases e)
      case None
      then show ?thesis using assms Inr rr reconcileWithRetry_None by (fastforce simp: process_record_def reconciled_def Let_def)
    next
      case (Some err)
      then have f: "failed con r (ps_world p) err attempts w1" using Inr rr by (simp add: failed_def)
      show ?thesis
        using assms Inr rr Some f
        by (auto simp: process_record_def publishToDLQ_def dead_lettered_def unroutable_def Let_def split: prod.splits option.splits)
    qed
  qed
  then show "ps_dlqErr p' = None \<longrightarrow> reconciled con r (ps_world p) (ps_world p') \<or> dead_lettered con r (ps_world p) (ps_world p')"
    "ps_dlqErr p' \<noteq> None \<longrightarrow> unroutable con r (ps_world p) (ps_world p')" by auto
qed

lemma process_records_stop: "ps_dlqErr p \<noteq> None \<Longrightarrow> process_records con rs p = Some p"
  by (induction rs) (simp_all add: process_record_def)

lemma process_records_progress:
  assumes "process_records con rs p = Some p'" "ps_dlqErr p = None" "settled con done w (ps_world p)" "retry_bounded con"
  shows "progress con (done @ rs) w (ps_dlqErr p') (ps_world p')"
  using assms
proof (induction rs arbitrary: p "done")
  case (Cons r rs)
  obtain p1 where p1: "process_record con r p = Some p1" "process_records con rs p1 = Some p'"
    using Cons.prems(1) by (auto simp: bind_eq_Some_conv)
  note step = process_record_progress [OF p1(1) Cons.prems(2,4)]
  show ?case
  proof (cases "ps_dlqErr p1 = None")
    case True
    then have "settled con (done @ [r]) w (ps_world p1)" using step(1) settled.reconcile [OF Cons.prems(3)] settled.dead_letter [OF Cons.prems(3)] by auto
    then show ?thesis using Cons.IH [OF p1(2) True, of "done @ [r]"] Cons.prems(4) by simp
  next
    case False
    then have "p' = p1" using process_records_stop p1(2) by fastforce
    then show ?thesis using False step(2) Cons.prems(3) settled.none unfolding progress_def stopped_def by fastforce
  qed
qed (simp add: progress_def)

lemma progress_observe: "progress con rs w e w1 \<Longrightarrow> con_metrics con = Some (meter, known) \<Longrightarrow> progress con rs w e (meter c w1)"
  unfolding progress_def stopped_def by (auto intro: settled.observe split: if_splits) (blast intro: settled.observe)

lemma stopped_append: "stopped con rs w w' \<Longrightarrow> stopped con (rs @ rs') w w'"
  unfolding stopped_def by fastforce

definition polled :: "FetchPartition list \<Rightarrow> kgo_Record list" where
  "polled fps = concat (map fp_Records fps)"

lemma process_partitions_progress:
  assumes "process_partitions con fps (active, e, w1) = Some (active', e', w')" "progress con done w e w1" "retry_bounded con"
  shows "progress con (done @ polled fps) w e' w'"
  using assms
proof (induction fps arbitrary: active e w1 "done")
  case (Cons fp fps)
  obtain a2 e2 w2 where s: "process_partition con fp (active, e, w1) = Some (a2, e2, w2)" "process_partitions con fps (a2, e2, w2) = Some (active', e', w')"
    using Cons.prems(1) by (auto simp: bind_eq_Some_conv)
  have "progress con (done @ fp_Records fp) w e2 w2"
  proof (cases e)
    case (Some err)
    then show ?thesis using s(1) Cons.prems(2) stopped_append by (auto simp: process_partition_def progress_def)
  next
    case None
    then obtain p where p: "process_records con (fp_Records fp)
        \<lparr>ps_lastTenantID = [], ps_lastOffset = 0, ps_sawRecord = False, ps_dlqErr = None, ps_world = w1\<rparr> = Some p"
      using s(1) by (auto simp: process_partition_def split: option.splits)
    have "progress con (done @ fp_Records fp) w (ps_dlqErr p) (ps_world p)"
      using process_records_progress [OF p, of "done" w] Cons.prems(2,3) None by (simp add: progress_def)
    then show ?thesis
      using s(1) None p by (auto simp: process_partition_def observeLag_def Let_def intro: progress_observe split: option.splits if_splits)
  qed
  then show ?case using Cons.IH [OF s(2), of "done @ fp_Records fp"] Cons.prems(3) by (simp add: polled_def)
qed (simp add: polled_def)

lemma observeActive_progress:
  assumes "con_metrics con = Some (meter, known)" "progress con rs w e w1"
  shows "progress con rs w e (observeActiveConsumers meter known counts w1)"
proof -
  have "progress con rs w e (foldl (\<lambda>w (label, n). meter (SetGauge name [label] (float64_of_int (sint n))) w) w1 totals)"
    if "progress con rs w e w1" for name and totals :: counts and w1
    using that by (induction totals arbitrary: w1) (auto intro: progress_observe [OF _ assms(1)])
  then show ?thesis using assms(2) by (simp add: observeActiveConsumers_def Let_def)
qed

text \<open>An iteration that goes on, and an iteration that returns.\<close>

definition polls :: "'w Consumer \<Rightarrow> 'w \<Rightarrow> kgo_Record list \<Rightarrow> 'w \<Rightarrow> bool" where
  "polls con w rs w1 \<longleftrightarrow> (\<exists>fetches. kc_PollRecords (con_client con) (con_maxPollRecords con) w = (fetches, w1) \<and> rs = polled (f_Partitions fetches))"

lemma Run_once_progress:
  assumes "retry_bounded con"
  shows "Run_once con w = Some (Inr w') \<Longrightarrow> \<exists>rs w1. polls con w rs w1 \<and> settled con rs w1 w'"
    and "Run_once con w = Some (Inl (err, w')) \<Longrightarrow> \<exists>rs w1. polls con w rs w1 \<and> (w' = w1 \<or> stopped con rs w1 w') \<and> (err = None \<longrightarrow> con_canceled con w')"
proof -
  obtain fetches w1 where f: "kc_PollRecords (con_client con) (con_maxPollRecords con) w = (fetches, w1)" by fastforce
  then have polls: "polls con w (polled (f_Partitions fetches)) w1" unfolding polls_def by blast
  have pass: "progress con (polled (f_Partitions fetches)) w1 dlqErr
      (case con_metrics con of Some (meter, knownTenants) \<Rightarrow> observeActiveConsumers meter knownTenants active w2 | None \<Rightarrow> w2)"
    if "process_partitions con (f_Partitions fetches) ([], None, w1) = Some (active, dlqErr, w2)" for active dlqErr w2
    using process_partitions_progress [OF that, of "[]" w1] assms settled.none [of con w1]
    by (auto simp: progress_def [of con "[]"] intro: observeActive_progress split: option.splits)
  show "\<exists>rs w1. polls con w rs w1 \<and> settled con rs w1 w'" if "Run_once con w = Some (Inr w')"
    using that f pass polls by (fastforce simp: Run_once_def Let_def progress_def split: if_splits option.splits)
  show "\<exists>rs w1. polls con w rs w1 \<and> (w' = w1 \<or> stopped con rs w1 w') \<and> (err = None \<longrightarrow> con_canceled con w')" if "Run_once con w = Some (Inl (err, w'))"
    using that f pass polls by (fastforce simp: Run_once_def Let_def progress_def split: if_splits option.splits)
qed

text \<open>Every iteration ends: the only loop in it is the bounded one.\<close>

lemma process_record_returns:
  assumes "retry_bounded con" shows "\<exists>p'. process_record con r p = Some p'"
proof -
  have "\<exists>x. reconcileWithRetry con txn w = Some x" for txn w
    using reconcileWithRetry_run [of con txn w] assms unfolding retry_bounded_def by blast
  then have r: "(reconcileWithRetry con txn w = None) = False" for txn w by (metis option.simps(3))
  have "process_record con r p \<noteq> None"
    by (simp add: process_record_def Let_def r split: sum.splits option.splits prod.splits)
  then show ?thesis by simp
qed

lemma process_records_returns: "retry_bounded con \<Longrightarrow> \<exists>p'. process_records con rs p = Some p'"
proof (induction rs arbitrary: p)
  case (Cons r rs)
  obtain p1 where "process_record con r p = Some p1" using process_record_returns [OF Cons.prems] by blast
  then show ?case using Cons by simp
qed simp

lemma process_partition_returns:
  assumes "retry_bounded con" shows "\<exists>s'. process_partition con fp s = Some s'"
proof -
  have r: "(process_records con rs p = None) = False" for rs p using process_records_returns [OF assms, of rs p] by auto
  have "process_partition con fp s \<noteq> None" by (simp add: process_partition_def r split: option.splits prod.splits)
  then show ?thesis by simp
qed

lemma process_partitions_returns: "retry_bounded con \<Longrightarrow> \<exists>s'. process_partitions con fps s = Some s'"
proof (induction fps arbitrary: s)
  case (Cons fp fps)
  obtain s1 where "process_partition con fp s = Some s1" using process_partition_returns [OF Cons.prems] by blast
  then show ?case using Cons.IH [OF Cons.prems, of s1] by simp
qed (metis process_partitions.simps(1))

lemma Run_once_returns:
  assumes "retry_bounded con" shows "Run_once con w \<noteq> None"
proof -
  have r: "(process_partitions con fps s = None) = False" for fps s using process_partitions_returns [OF assms, of fps s] by (metis option.simps(3))
  show ?thesis by (simp add: Run_once_def Let_def r split: prod.splits option.splits)
qed

text \<open>The first \<open>n\<close> iterations of \<open>Run\<close>: it has returned within them (\<open>Inl\<close>), or polls again.\<close>

fun run_polls :: "'w Consumer \<Rightarrow> nat \<Rightarrow> 'w \<Rightarrow> (error \<times> 'w + 'w) option" where
  "run_polls con 0 w = Some (Inr w)"
| "run_polls con (Suc n) w =
     (case Run_once con w of None \<Rightarrow> None | Some (Inl r) \<Rightarrow> Some (Inl r) | Some (Inr w') \<Rightarrow> run_polls con n w')"

lemma run_polls_Run: "run_polls con n w = Some (Inl r) \<Longrightarrow> Consumer_Run con w = Some r"
proof (induction n arbitrary: w)
  case (Suc n)
  then show ?case by (subst Consumer_Run.simps) (auto split: option.splits sum.splits)
qed simp

text \<open>Polls whose every record was settled, one after the other.\<close>

inductive settled_polls :: "'w Consumer \<Rightarrow> nat \<Rightarrow> 'w \<Rightarrow> 'w \<Rightarrow> bool" for con where
  start: "settled_polls con 0 w w"
| poll: "polls con w rs w1 \<Longrightarrow> settled con rs w1 w2 \<Longrightarrow> settled_polls con n w2 w3 \<Longrightarrow> settled_polls con (Suc n) w w3"

definition run_ends :: "'w Consumer \<Rightarrow> nat \<Rightarrow> 'w \<Rightarrow> error \<times> 'w \<Rightarrow> bool" where
  "run_ends con n w r \<longleftrightarrow> (\<exists>k w1 rs w2. k < n \<and> settled_polls con k w w1 \<and> polls con w1 rs w2
     \<and> (snd r = w2 \<or> stopped con rs w2 (snd r)) \<and> (fst r = None \<longrightarrow> con_canceled con (snd r)))"

lemma run_polls_outcome:
  assumes "retry_bounded con"
  shows "(\<exists>w'. run_polls con n w = Some (Inr w') \<and> settled_polls con n w w') \<or> (\<exists>r. run_polls con n w = Some (Inl r) \<and> run_ends con n w r)"
proof (induction n arbitrary: w)
  case 0
  show ?case by (simp add: settled_polls.start)
next
  case (Suc n)
  consider r where "Run_once con w = Some (Inl r)" | w' where "Run_once con w = Some (Inr w')"
    using Run_once_returns [OF assms, of w] by (metis not_Some_eq old.sum.exhaust)
  then show ?case
  proof cases
    case 1
    then have "run_ends con (Suc n) w r"
      using Run_once_progress(2) [OF assms, of w "fst r" "snd r"] settled_polls.start [of con w] unfolding run_ends_def by fastforce
    then show ?thesis using 1 by simp
  next
    case 2
    obtain rs w1 where p: "polls con w rs w1" "settled con rs w1 w'" using Run_once_progress(1) [OF assms 2] by blast
    have "run_ends con (Suc n) w r" if "run_ends con n w' r" for r
      using that settled_polls.poll [OF p] unfolding run_ends_def by (metis Suc_mono)
    then show ?thesis using 2 Suc.IH [of w'] settled_polls.poll [OF p] by fastforce
  qed
qed

text \<open>
  C4: the consumer never skips a record. With any \<open>MaxRetries\<close> from 0 up to \<open>2 ^ 63 - 3\<close>, every iteration of \<open>Run\<close> ends, and
  after any number of them either all their polls are settled and it polls again, or \<open>Run\<close> has returned and every poll but the last is settled.
  A poll is settled when each of its records, in the order delivered, was reconciled by a call that succeeded or was accepted
  by the dead-letter topic with the error and the attempt count that put it there. In the last poll either no record was
  touched, or exactly those before a record whose dead-letter write failed were settled. \<open>Run\<close>
  returns no error only if its context was canceled.
\<close>

theorem Run_never_skips:
  assumes "retry_bounded con"
  shows "(\<exists>w'. run_polls con n w = Some (Inr w') \<and> settled_polls con n w w')
    \<or> (\<exists>err w' k w1 rs w2. run_polls con n w = Some (Inl (err, w')) \<and> Consumer_Run con w = Some (err, w') \<and> k < n
         \<and> settled_polls con k w w1 \<and> polls con w1 rs w2 \<and> (w' = w2 \<or> stopped con rs w2 w') \<and> (err = None \<longrightarrow> con_canceled con w'))"
  using run_polls_outcome [OF assms, of n w] run_polls_Run [of con n w] unfolding run_ends_def by (metis prod.collapse)

text \<open>A topic of one record that cannot be decoded; the dead-letter topic takes it, and the next poll finds the context canceled.\<close>

definition poison_record :: kgo_Record where
  "poison_record = \<lparr>kr_Topic = ''t'', kr_Partition = 0, kr_Offset = 7, kr_Key = [], kr_Value = ''{''\<rparr>"

definition poison :: "(nat \<times> kgo_Record list) Consumer" where
  "poison = \<lparr>con_client = \<lparr>kc_PollRecords = (\<lambda>_ (n, out). (\<lparr>f_Errors = [], f_Partitions =
         [\<lparr>fp_Topic = ''t'', fp_Partition = 0, fp_HighWatermark = 8, fp_Records = (if n = 0 then [poison_record] else [])\<rparr>]\<rparr>, Suc n, out)),
       kc_ProduceSync = (\<lambda>r (n, out). (None, n, out @ [r])),
       kc_AddConsumePartitions = (\<lambda>_ _ w. w), kc_RemoveConsumePartitions = (\<lambda>_ _ w. w), kc_Close = id\<rparr>,
     con_topic = ''t'', con_dlqTopic = ''d'', con_maxRetries = 3, con_maxPollRecords = 0,
     con_rec = (\<lambda>_ _ w. (None, w)), con_metrics = None, con_canceled = (\<lambda>(n, out). 2 \<le> n), con_now = (\<lambda>_. 0), con_uuid = decimal_uuid\<rparr>"

lemma poison_payload: "unmarshal_wireEvent ''{'' = None"
  by code_simp

lemma poison_run:
  "Consumer_Run poison (0, []) = Some (None, 2, [dlq_record poison poison_record (Msg ''decode transaction event: unmarshal payload'') 1 (1, [])])"
  by (simp add: Consumer_Run.simps Run_once_def process_partition_def process_record_def publishToDLQ_def decodeTransaction_def poison_payload
      poison_def poison_record_def)

lemma poison_polls: "\<exists>w. run_polls poison 1 (0, []) = Some (Inr w)"
  by (simp add: Run_once_def process_partition_def process_record_def publishToDLQ_def decodeTransaction_def poison_payload
      poison_def poison_record_def)

theorem Run_never_skips_witness:
  "retry_bounded poison \<and> (\<exists>w1. settled_polls poison 1 (0, []) w1)
   \<and> Consumer_Run poison (0, []) = Some (None, 2, [dlq_record poison poison_record (Msg ''decode transaction event: unmarshal payload'') 1 (1, [])])"
proof -
  have b: "retry_bounded poison" by (simp add: retry_bounded_def poison_def)
  obtain w1 where "run_polls poison 1 (0, []) = Some (Inr w1)" using poison_polls by blast
  then have "settled_polls poison 1 (0, []) w1" using Run_never_skips [OF b, of 1 "(0, [])"] by force
  then show ?thesis using b poison_run by blast
qed

text \<open>
  The largest retry budget the configuration accepts disables processing. With \<open>KAFKA_MAX_RETRIES\<close> set
  to \<open>2 ^ 63 - 1\<close> the bound of the retry loop wraps to the least integer, so
  \<open>reconcileWithRetry\<close> reports success for every transaction without having called the reconciler, and
  the record is neither stored nor dead-lettered.
\<close>

theorem max_retries_overflow:
  "Consumer_validate (Consumer_LocalConfig\<lparr>cc_MaxRetries := 0x7FFFFFFFFFFFFFFF\<rparr>) = None
   \<and> (\<forall>txn w. reconcileWithRetry (con\<lparr>con_maxRetries := 0x7FFFFFFFFFFFFFFF\<rparr>) txn w = Some ((0x8000000000000000, None), w))"
proof
  show "Consumer_validate (Consumer_LocalConfig\<lparr>cc_MaxRetries := 0x7FFFFFFFFFFFFFFF\<rparr>) = None"
    by (simp add: Consumer_validate_def Consumer_LocalConfig_def TrimSpace_no_blank no_blank_def)
  show "\<forall>txn w. reconcileWithRetry (con\<lparr>con_maxRetries := 0x7FFFFFFFFFFFFFFF\<rparr>) txn w = Some ((0x8000000000000000, None), w)"
    by (simp add: reconcileWithRetry_def retry_loop.simps)
qed

end
