(* ===== verification/Trade.thy ===== *)
theory Trade
  imports Amount Ledger
begin

text \<open>
  The weighted-average-cost accounting of the processor, \<open>applyTransaction\<close>, \<open>applyBuy\<close>,
  \<open>applySell\<close> and \<open>applyTrade\<close> of \<open>src/internal/processor/processor.go\<close>, on the fixed-point amounts
  of \<open>Amount\<close>. The specification side states the accounting identity over unbounded integers.
\<close>

section \<open>Model of the accounting part of processor.go\<close>

definition applyTrade :: "ReconciledState \<Rightarrow> int64 \<Rightarrow> int64 \<Rightarrow> ReconciledState result" where
  "applyTrade state signedQuantity price =
     (if rs_Position state = 0 \<or> (sint (rs_Position state) > 0) = (sint signedQuantity > 0)
      then
        bind_res (wrap_res ''compute existing cost basis'' (MulAmount (rs_Position state) (rs_AverageCost state))) (\<lambda>existingCost.
        bind_res (wrap_res ''compute trade cost'' (MulAmount signedQuantity price)) (\<lambda>addedCost.
        let newPosition = rs_Position state + signedQuantity in
        bind_res (wrap_res ''compute new average cost'' (DivAmount (existingCost + addedCost) newPosition)) (\<lambda>averageCost.
          Inr (state\<lparr>rs_AverageCost := averageCost, rs_Position := newPosition\<rparr>))))
      else
        let positionMagnitude = (if sint (rs_Position state) < 0 then - rs_Position state else rs_Position state);
            quantityMagnitude = (if sint signedQuantity < 0 then - signedQuantity else signedQuantity);
            closingQuantity = (if sint positionMagnitude < sint quantityMagnitude then positionMagnitude else quantityMagnitude);
            pnlPerUnit = (if sint (rs_Position state) > 0 then price - rs_AverageCost state else rs_AverageCost state - price) in
        bind_res (wrap_res ''compute realized pnl'' (MulAmount closingQuantity pnlPerUnit)) (\<lambda>realized.
        let flipQuantity = quantityMagnitude - closingQuantity;
            state1 = state\<lparr>rs_RealizedPnL := rs_RealizedPnL state + realized,
                           rs_Position := rs_Position state + signedQuantity\<rparr> in
        Inr (if rs_Position state1 = 0 then state1\<lparr>rs_AverageCost := 0\<rparr>
             else if sint flipQuantity > 0 then state1\<lparr>rs_AverageCost := price\<rparr>
             else state1)))"

definition applyBuy :: "ReconciledState \<Rightarrow> Transaction \<Rightarrow> ReconciledState result" where
  "applyBuy state txn = applyTrade state (tx_Quantity txn) (tx_Price txn)"

definition applySell :: "ReconciledState \<Rightarrow> Transaction \<Rightarrow> ReconciledState result" where
  "applySell state txn = applyTrade state (- tx_Quantity txn) (tx_Price txn)"

definition applyTransaction :: "ReconciledState \<Rightarrow> Transaction \<Rightarrow> ReconciledState result" where
  "applyTransaction state txn =
     bind_res (if tx_Side txn = SideBuy then applyBuy state txn
               else if tx_Side txn = SideSell then applySell state txn
               else Inl (Msg ''unknown transaction side''))
       (\<lambda>state. Inr (state\<lparr>rs_LastTransactionID := Some (tx_ID txn)\<rparr>))"

text \<open>The state of a position before its first transaction, and after a list of them.\<close>

definition zero_state :: "statekey \<Rightarrow> ReconciledState" where
  "zero_state k = \<lparr>rs_TenantID = fst k, rs_Instrument = snd k, rs_Position = 0, rs_AverageCost = 0,
     rs_RealizedPnL = 0, rs_LastTransactionID = None, rs_UpdatedAt = 0\<rparr>"

fun replay :: "ReconciledState \<Rightarrow> Transaction list \<Rightarrow> ReconciledState result" where
  "replay st [] = Inr st"
| "replay st (t # ts) = bind_res (applyTransaction st t) (\<lambda>st'. replay st' ts)"

definition signed_quantity :: "Transaction \<Rightarrow> int" where
  "signed_quantity t = (if tx_Side t = SideBuy then sint (tx_Quantity t) else - sint (tx_Quantity t))"

definition wf_trade :: "Transaction \<Rightarrow> bool" where
  "wf_trade t \<longleftrightarrow> tx_Side t \<in> {SideBuy, SideSell} \<and> 0 < sint (tx_Quantity t) \<and> 0 < sint (tx_Price t)"

section \<open>The accounting over the integers\<close>

text \<open>
  Amounts far enough from the ends of \<open>int64\<close>: every amount is below \<open>2 ^ 61\<close> (more than twice
  \<open>MaxAmount\<close>) and the two cost bases together are below \<open>2 ^ 62\<close> once rescaled.
\<close>

abbreviation amt :: int where "amt \<equiv> 2305843009213693952"

definition trade_bounded :: "ReconciledState \<Rightarrow> int64 \<Rightarrow> int64 \<Rightarrow> bool" where
  "trade_bounded st q p \<longleftrightarrow> \<bar>sint (rs_Position st)\<bar> \<le> amt \<and> \<bar>sint q\<bar> \<le> amt \<and> \<bar>sint p\<bar> \<le> amt
     \<and> \<bar>sint (rs_AverageCost st)\<bar> \<le> amt \<and> \<bar>sint (rs_RealizedPnL st)\<bar> \<le> amt
     \<and> \<bar>sint (rs_Position st) * sint (rs_AverageCost st)\<bar> + \<bar>sint q * sint p\<bar> \<le> 2 * amt * 100000000"

text \<open>What a trade leaves unexplained of the identity: scaled realized P\&L = cash + cost basis.\<close>

definition discrepancy :: "ReconciledState \<Rightarrow> ReconciledState \<Rightarrow> int64 \<Rightarrow> int64 \<Rightarrow> int" where
  "discrepancy st st' q p =
     100000000 * (sint (rs_RealizedPnL st') - sint (rs_RealizedPnL st)) + sint q * sint p
     + sint (rs_Position st) * sint (rs_AverageCost st) - sint (rs_Position st') * sint (rs_AverageCost st')"

lemma MulAmount_fits:
  assumes "\<bar>sint a * sint b\<bar> \<le> 2 * amt * 100000000"
  obtains c where "MulAmount a b = Inr c" "sint c = (sint a * sint b) sdiv 100000000"
    "\<bar>sint a * sint b - sint c * 100000000\<bar> < 100000000" "\<bar>sint c * 100000000\<bar> \<le> \<bar>sint a * sint b\<bar>"
proof -
  have le: "\<bar>(sint a * sint b) sdiv 100000000 * 100000000\<bar> \<le> \<bar>sint a * sint b\<bar>" by (rule sdiv_mult_le)
  then have "is_int64 ((sint a * sint b) sdiv 100000000)"
    using assms unfolding is_int64_def by linarith
  then have "sint (word_of_int ((sint a * sint b) sdiv 100000000) :: int64) = (sint a * sint b) sdiv 100000000"
    by (rule sint64_of_int)
  then show thesis
    using le sdiv_remainder_bound [of 100000000 "sint a * sint b"]
    by (intro that [of "word_of_int ((sint a * sint b) sdiv 100000000)"]) (simp_all only: MulAmount_Inr_iff, simp)
qed

lemma DivAmount_fits:
  assumes "b \<noteq> 0" "\<bar>sint a * 100000000\<bar> \<le> m * \<bar>sint b\<bar>" "m \<le> amt"
  obtains c where "DivAmount a b = Inr c" "sint c = (sint a * 100000000) sdiv sint b"
    "\<bar>sint a * 100000000 - sint c * sint b\<bar> < \<bar>sint b\<bar>" "\<bar>sint c\<bar> \<le> m"
proof -
  have b: "0 < \<bar>sint b\<bar>" using assms(1) by simp
  have le: "\<bar>(sint a * 100000000) sdiv sint b * sint b\<bar> \<le> \<bar>sint a * 100000000\<bar>" by (rule sdiv_mult_le)
  then have "\<bar>(sint a * 100000000) sdiv sint b\<bar> * \<bar>sint b\<bar> \<le> m * \<bar>sint b\<bar>"
    using assms(2) by (simp add: abs_mult)
  then have m: "\<bar>(sint a * 100000000) sdiv sint b\<bar> \<le> m" using b by (simp only: mult_le_cancel_right_pos)
  then have "is_int64 ((sint a * 100000000) sdiv sint b)"
    using assms(3) unfolding is_int64_def by linarith
  then have "sint (word_of_int ((sint a * 100000000) sdiv sint b) :: int64) = (sint a * 100000000) sdiv sint b"
    by (rule sint64_of_int)
  then show thesis
    using m sdiv_remainder_bound [of "sint b" "sint a * 100000000"] assms(1)
    by (intro that [of "word_of_int ((sint a * 100000000) sdiv sint b)"]) (simp_all add: DivAmount_Inr_iff)
qed

lemma sdiv_sign:
  fixes k l :: int
  shows "0 \<le> k \<Longrightarrow> 0 \<le> l \<Longrightarrow> 0 \<le> k sdiv l" "k \<le> 0 \<Longrightarrow> 0 \<le> l \<Longrightarrow> k sdiv l \<le> 0"
    "k \<le> 0 \<Longrightarrow> l \<le> 0 \<Longrightarrow> 0 \<le> k sdiv l"
  by (auto simp: signed_divide_int_def sgn_if mult_nonpos_nonneg mult_nonneg_nonpos div_int_pos_iff)

lemma trade_boundedD:
  assumes "trade_bounded st q p"
  shows "\<bar>sint (rs_Position st)\<bar> \<le> amt" "\<bar>sint q\<bar> \<le> amt" "\<bar>sint p\<bar> \<le> amt" "\<bar>sint (rs_AverageCost st)\<bar> \<le> amt"
    "\<bar>sint (rs_RealizedPnL st)\<bar> \<le> amt"
    "\<bar>sint (rs_Position st) * sint (rs_AverageCost st)\<bar> + \<bar>sint q * sint p\<bar> \<le> 2 * amt * 100000000"
    "sint (rs_Position st + q) = sint (rs_Position st) + sint q"
proof -
  show b: "\<bar>sint (rs_Position st)\<bar> \<le> amt" "\<bar>sint q\<bar> \<le> amt" "\<bar>sint p\<bar> \<le> amt" "\<bar>sint (rs_AverageCost st)\<bar> \<le> amt"
    "\<bar>sint (rs_RealizedPnL st)\<bar> \<le> amt"
    "\<bar>sint (rs_Position st) * sint (rs_AverageCost st)\<bar> + \<bar>sint q * sint p\<bar> \<le> 2 * amt * 100000000"
    using assms unfolding trade_bounded_def by blast+
  show "sint (rs_Position st + q) = sint (rs_Position st) + sint q"
    by (rule sint64_add) (use b(1,2) in \<open>unfold is_int64_def, linarith\<close>)
qed

lemma cost_bases:
  assumes "\<bar>sint x * sint y\<bar> + \<bar>sint q * sint p\<bar> \<le> 2 * amt * 100000000"
  obtains e a where "MulAmount x y = Inr e" "sint e = (sint x * sint y) sdiv 100000000"
      "\<bar>sint x * sint y - sint e * 100000000\<bar> < 100000000" "\<bar>sint e * 100000000\<bar> \<le> \<bar>sint x * sint y\<bar>"
    "MulAmount q p = Inr a" "sint a = (sint q * sint p) sdiv 100000000"
      "\<bar>sint q * sint p - sint a * 100000000\<bar> < 100000000" "\<bar>sint a * 100000000\<bar> \<le> \<bar>sint q * sint p\<bar>"
    "sint (e + a) = sint e + sint a"
proof -
  have "\<bar>sint x * sint y\<bar> \<le> 2 * amt * 100000000" "\<bar>sint q * sint p\<bar> \<le> 2 * amt * 100000000" using assms by linarith+
  then obtain e a where ea: "MulAmount x y = Inr e" "sint e = (sint x * sint y) sdiv 100000000"
      "\<bar>sint x * sint y - sint e * 100000000\<bar> < 100000000" "\<bar>sint e * 100000000\<bar> \<le> \<bar>sint x * sint y\<bar>"
    "MulAmount q p = Inr a" "sint a = (sint q * sint p) sdiv 100000000"
      "\<bar>sint q * sint p - sint a * 100000000\<bar> < 100000000" "\<bar>sint a * 100000000\<bar> \<le> \<bar>sint q * sint p\<bar>"
    by (metis MulAmount_fits)
  have "sint (e + a) = sint e + sint a"
    by (rule sint64_add) (use assms ea(4,8) in \<open>unfold is_int64_def, linarith\<close>)
  then show thesis using that ea by blast
qed

text \<open>A trade that extends the position: cost bases add up, rounded three times.\<close>

lemma applyTrade_extend:
  assumes "trade_bounded st q p" "q \<noteq> 0"
    "rs_Position st = 0 \<or> (sint (rs_Position st) > 0) = (sint q > 0)"
  obtains st' where "applyTrade st q p = Inr st'" "st' = st\<lparr>rs_AverageCost := rs_AverageCost st', rs_Position := rs_Position st + q\<rparr>"
    "\<bar>sint (rs_AverageCost st') * (sint (rs_Position st) + sint q)
      - (sint (rs_Position st) * sint (rs_AverageCost st) + sint q * sint p)\<bar>
      < 2 * 100000000 + \<bar>sint (rs_Position st) + sint q\<bar>"
    "\<bar>sint (rs_AverageCost st')\<bar> \<le> max \<bar>sint (rs_AverageCost st)\<bar> \<bar>sint p\<bar>"
    "0 \<le> sint (rs_AverageCost st) \<and> 0 \<le> sint p \<longrightarrow> 0 \<le> sint (rs_AverageCost st')"
proof -
  note b = trade_boundedD [OF assms(1)]
  let ?pos = "sint (rs_Position st)" and ?avg = "sint (rs_AverageCost st)"
  let ?m = "max \<bar>?avg\<bar> \<bar>sint p\<bar>"
  obtain e a where e: "MulAmount (rs_Position st) (rs_AverageCost st) = Inr e" "sint e = (?pos * ?avg) sdiv 100000000"
      "\<bar>?pos * ?avg - sint e * 100000000\<bar> < 100000000" "\<bar>sint e * 100000000\<bar> \<le> \<bar>?pos * ?avg\<bar>"
    and a: "MulAmount q p = Inr a" "sint a = (sint q * sint p) sdiv 100000000"
      "\<bar>sint q * sint p - sint a * 100000000\<bar> < 100000000" "\<bar>sint a * 100000000\<bar> \<le> \<bar>sint q * sint p\<bar>"
    and sum: "sint (e + a) = sint e + sint a"
    by (rule cost_bases [OF b(6)])
  have q0: "sint q \<noteq> 0" using assms(2) by simp
  have dir: "\<bar>?pos + sint q\<bar> = \<bar>?pos\<bar> + \<bar>sint q\<bar>" using assms(3) q0 by (auto simp: abs_if)
  have n: "rs_Position st + q \<noteq> 0" using b(7) dir q0 by (metis abs_eq_0 abs_0 add_nonneg_eq_0_iff abs_ge_zero sint64_zero_iff)
  have "\<bar>?pos * ?avg\<bar> \<le> \<bar>?pos\<bar> * ?m" "\<bar>sint q * sint p\<bar> \<le> \<bar>sint q\<bar> * ?m"
    by (simp_all add: abs_mult mult_left_mono)
  then have bases: "\<bar>?pos * ?avg\<bar> + \<bar>sint q * sint p\<bar> \<le> ?m * \<bar>sint (rs_Position st + q)\<bar>"
    unfolding b(7) dir mult.commute [of ?m] distrib_right by linarith
  have "\<bar>sint (e + a) * 100000000\<bar> \<le> \<bar>sint e * 100000000\<bar> + \<bar>sint a * 100000000\<bar>"
    unfolding sum distrib_right by (rule abs_triangle_ineq)
  also have "\<dots> \<le> \<bar>?pos * ?avg\<bar> + \<bar>sint q * sint p\<bar>" using e(4) a(4) by (rule add_mono)
  also note bases
  finally obtain c where c: "DivAmount (e + a) (rs_Position st + q) = Inr c"
      "sint c = (sint (e + a) * 100000000) sdiv sint (rs_Position st + q)"
      "\<bar>sint (e + a) * 100000000 - sint c * sint (rs_Position st + q)\<bar> < \<bar>sint (rs_Position st + q)\<bar>" "\<bar>sint c\<bar> \<le> ?m"
    using DivAmount_fits [OF n, of "e + a" ?m] b(3,4) by (metis max.bounded_iff)
  show thesis
  proof (rule that [of "st\<lparr>rs_AverageCost := c, rs_Position := rs_Position st + q\<rparr>"])
    show "applyTrade st q p = Inr (st\<lparr>rs_AverageCost := c, rs_Position := rs_Position st + q\<rparr>)"
      using assms(3) e(1) a(1) c(1) by (simp add: applyTrade_def Let_def)
    show "\<bar>sint (rs_AverageCost (st\<lparr>rs_AverageCost := c, rs_Position := rs_Position st + q\<rparr>)) * (?pos + sint q)
      - (?pos * ?avg + sint q * sint p)\<bar> < 2 * 100000000 + \<bar>?pos + sint q\<bar>"
      using e(3) a(3) c(3) unfolding sum b(7) by simp
    have "0 \<le> sint c" if nn: "0 \<le> ?avg" "0 \<le> sint p"
    proof (cases "0 \<le> ?pos + sint q")
      case True
      then have "0 \<le> ?pos" "0 \<le> sint q" using dir by linarith+
      then have "0 \<le> sint e" "0 \<le> sint a" using nn e(2) a(2) by (simp_all add: sdiv_sign)
      then show ?thesis using c(2) True by (simp add: sum b(7) sdiv_sign)
    next
      case False
      then have "?pos \<le> 0" "sint q \<le> 0" using dir by linarith+
      then have "sint e \<le> 0" "sint a \<le> 0" using nn e(2) a(2) by (simp_all add: sdiv_sign mult_nonpos_nonneg)
      then show ?thesis using c(2) False by (simp add: sum b(7) sdiv_sign)
    qed
    then show "0 \<le> ?avg \<and> 0 \<le> sint p \<longrightarrow>
        0 \<le> sint (rs_AverageCost (st\<lparr>rs_AverageCost := c, rs_Position := rs_Position st + q\<rparr>))" by simp
  qed (use c(4) in simp_all)
qed

lemma closing_bound:
  fixes x y v w d :: int
  assumes "\<bar>d\<bar> \<le> \<bar>v\<bar> + \<bar>w\<bar>"
  shows "\<bar>min (\<bar>x\<bar>) (\<bar>y\<bar>) * d\<bar> \<le> \<bar>x * v\<bar> + \<bar>y * w\<bar>"
proof -
  have "\<bar>min (\<bar>x\<bar>) (\<bar>y\<bar>) * d\<bar> \<le> min (\<bar>x\<bar>) (\<bar>y\<bar>) * (\<bar>v\<bar> + \<bar>w\<bar>)"
    using assms by (simp add: abs_mult mult_left_mono)
  also have "\<dots> \<le> \<bar>x\<bar> * \<bar>v\<bar> + \<bar>y\<bar> * \<bar>w\<bar>"
    unfolding distrib_left by (intro add_mono mult_right_mono) simp_all
  finally show ?thesis by (simp add: abs_mult)
qed

text \<open>A trade against the position: what is closed is realized, the rest keeps or starts a cost basis.\<close>

lemma applyTrade_oppose:
  assumes "trade_bounded st q p" "rs_Position st \<noteq> 0" "(sint (rs_Position st) > 0) \<noteq> (sint q > 0)"
  defines "c \<equiv> min \<bar>sint (rs_Position st)\<bar> \<bar>sint q\<bar>"
    and "u \<equiv> (if sint (rs_Position st) > 0 then sint p - sint (rs_AverageCost st) else sint (rs_AverageCost st) - sint p)"
  obtains st' where "applyTrade st q p = Inr st'"
    "sint (rs_Position st') = sint (rs_Position st) + sint q"
    "sint (rs_RealizedPnL st') = sint (rs_RealizedPnL st) + (c * u) sdiv 100000000"
    "\<bar>c * u - (c * u) sdiv 100000000 * 100000000\<bar> < 100000000"
    "rs_AverageCost st' = (if rs_Position st' = 0 then 0
       else if \<bar>sint (rs_Position st)\<bar> < \<bar>sint q\<bar> then p else rs_AverageCost st)"
    "rs_TenantID st' = rs_TenantID st \<and> rs_Instrument st' = rs_Instrument st"
proof -
  note b = trade_boundedD [OF assms(1)]
  let ?pos = "rs_Position st" and ?avg = "rs_AverageCost st"
  let ?pm = "if sint ?pos < 0 then - ?pos else ?pos" and ?qm = "if sint q < 0 then - q else q"
  let ?cw = "if sint ?pm < sint ?qm then ?pm else ?qm"
  let ?uw = "if sint ?pos > 0 then p - ?avg else ?avg - p"
  have neg: "sint (- ?pos) = - sint ?pos" "sint (- q) = - sint q"
    by (rule sint64_minus, use b(1,2) in \<open>unfold is_int64_def, linarith\<close>)+
  have diff: "sint (p - ?avg) = sint p - sint ?avg" "sint (?avg - p) = sint ?avg - sint p"
    by (rule sint64_diff, use b(3,4) in \<open>unfold is_int64_def, linarith\<close>)+
  have pm: "sint ?pm = \<bar>sint ?pos\<bar>" and qm: "sint ?qm = \<bar>sint q\<bar>" using neg by (simp_all add: abs_if)
  have cw: "sint ?cw = c" and uw: "sint ?uw = u" using pm qm diff by (simp_all add: c_def u_def min_def)
  have cu: "\<bar>c * u\<bar> \<le> 2 * amt * 100000000"
    unfolding c_def u_def by (rule order_trans [OF closing_bound b(6)]) auto
  then obtain r where r: "MulAmount ?cw ?uw = Inr r" "sint r = (c * u) sdiv 100000000"
      "\<bar>c * u - sint r * 100000000\<bar> < 100000000" "\<bar>sint r * 100000000\<bar> \<le> \<bar>c * u\<bar>"
    using MulAmount_fits [of ?cw ?uw] unfolding cw uw by metis
  have d: "sint ?qm - sint ?cw = \<bar>sint q\<bar> - c" by (rule arg_cong2 [OF qm cw])
  moreover have "is_int64 (\<bar>sint q\<bar> - c)" unfolding c_def is_int64_def using b(2) by linarith
  ultimately have fl: "sint (?qm - ?cw) = \<bar>sint q\<bar> - c" using sint64_diff [of ?qm ?cw] by (simp only:)
  have pnl: "sint (rs_RealizedPnL st + r) = sint (rs_RealizedPnL st) + sint r"
    by (rule sint64_add) (use b(5) r(4) cu in \<open>unfold is_int64_def, linarith\<close>)
  define f where "f = ?qm - ?cw"
  have flip: "0 < sint f \<longleftrightarrow> \<bar>sint ?pos\<bar> < \<bar>sint q\<bar>" unfolding f_def fl c_def by linarith
  define st' where "st' = (let st1 = st\<lparr>rs_RealizedPnL := rs_RealizedPnL st + r, rs_Position := ?pos + q\<rparr> in
    if ?pos + q = 0 then st1\<lparr>rs_AverageCost := 0\<rparr> else if sint f > 0 then st1\<lparr>rs_AverageCost := p\<rparr> else st1)"
  have "applyTrade st q p = Inr st'"
    using assms(2,3) r(1) unfolding applyTrade_def st'_def f_def
    by (simp only: if_False wrap_res_simps bind_res_simps Let_def) simp
  moreover have "rs_Position st' = ?pos + q" "rs_RealizedPnL st' = rs_RealizedPnL st + r"
      "rs_TenantID st' = rs_TenantID st" "rs_Instrument st' = rs_Instrument st"
      "rs_AverageCost st' = (if ?pos + q = 0 then 0 else if 0 < sint f then p else ?avg)"
    by (simp_all add: st'_def Let_def)
  ultimately show thesis
    using that [of st'] r(2,3) pnl b(7) flip by simp
qed

lemma oppose_identity:
  fixes pos q p a :: int
  assumes "pos \<noteq> 0" "(pos > 0) \<noteq> (q > 0)"
  shows "q * p + pos * a - (pos + q) * (if pos + q = 0 then 0 else if \<bar>pos\<bar> < \<bar>q\<bar> then p else a)
    = - (min (\<bar>pos\<bar>) (\<bar>q\<bar>) * (if pos > 0 then p - a else a - p))"
proof (cases "pos > 0")
  case True
  then have "q \<le> 0" using assms by simp
  with True show ?thesis
    by (cases "pos + q = 0"; cases "pos < - q") (auto simp: min_def algebra_simps add_eq_0_iff2)
next
  case False
  then have "pos < 0" "0 < q" using assms by auto
  then show ?thesis
    by (cases "pos + q = 0"; cases "- pos < q") (auto simp: min_def algebra_simps add_eq_0_iff2)
qed

text \<open>One trade: it goes through, the position moves by the quantity, and rounding is bounded.\<close>

lemma applyTrade_step:
  assumes "trade_bounded st q p" "q \<noteq> 0"
  obtains st' where "applyTrade st q p = Inr st'" "sint (rs_Position st') = sint (rs_Position st) + sint q"
    "\<bar>discrepancy st st' q p\<bar> < 2 * 100000000 + \<bar>sint (rs_Position st')\<bar>"
    "\<bar>sint (rs_RealizedPnL st') - sint (rs_RealizedPnL st)\<bar> * 100000000
      \<le> \<bar>sint q\<bar> * \<bar>sint p - sint (rs_AverageCost st)\<bar>"
    "0 \<le> sint (rs_AverageCost st) \<and> 0 \<le> sint p \<longrightarrow>
      0 \<le> sint (rs_AverageCost st') \<and> sint (rs_AverageCost st') \<le> max (sint (rs_AverageCost st)) (sint p)"
    "rs_TenantID st' = rs_TenantID st \<and> rs_Instrument st' = rs_Instrument st"
proof (cases "rs_Position st = 0 \<or> (sint (rs_Position st) > 0) = (sint q > 0)")
  case True
  obtain st' where st': "applyTrade st q p = Inr st'"
      "st' = st\<lparr>rs_AverageCost := rs_AverageCost st', rs_Position := rs_Position st + q\<rparr>"
      "\<bar>sint (rs_AverageCost st') * (sint (rs_Position st) + sint q)
        - (sint (rs_Position st) * sint (rs_AverageCost st) + sint q * sint p)\<bar>
        < 2 * 100000000 + \<bar>sint (rs_Position st) + sint q\<bar>"
      "\<bar>sint (rs_AverageCost st')\<bar> \<le> max \<bar>sint (rs_AverageCost st)\<bar> \<bar>sint p\<bar>"
      "0 \<le> sint (rs_AverageCost st) \<and> 0 \<le> sint p \<longrightarrow> 0 \<le> sint (rs_AverageCost st')"
    by (rule applyTrade_extend [OF assms True])
  obtain a where a: "st' = st\<lparr>rs_AverageCost := a, rs_Position := rs_Position st + q\<rparr>" using st'(2) by blast
  have pos: "sint (rs_Position st') = sint (rs_Position st) + sint q"
    using trade_boundedD(7) [OF assms(1)] by (simp add: a)
  have "discrepancy st st' q p = - (sint (rs_AverageCost st') * (sint (rs_Position st) + sint q)
      - (sint (rs_Position st) * sint (rs_AverageCost st) + sint q * sint p))"
    unfolding discrepancy_def pos by (simp add: a algebra_simps)
  then have disc: "\<bar>discrepancy st st' q p\<bar> < 2 * 100000000 + \<bar>sint (rs_Position st')\<bar>"
    using st'(3) unfolding pos by simp
  show thesis
    by (rule that [OF st'(1) pos disc]) (use st'(4,5) a in auto)
next
  case False
  then have opp: "rs_Position st \<noteq> 0" "(sint (rs_Position st) > 0) \<noteq> (sint q > 0)" by blast+
  let ?c = "min (\<bar>sint (rs_Position st)\<bar>) (\<bar>sint q\<bar>)"
  let ?u = "if sint (rs_Position st) > 0 then sint p - sint (rs_AverageCost st) else sint (rs_AverageCost st) - sint p"
  obtain st' where st': "applyTrade st q p = Inr st'"
    "sint (rs_Position st') = sint (rs_Position st) + sint q"
    "sint (rs_RealizedPnL st') = sint (rs_RealizedPnL st) + (?c * ?u) sdiv 100000000"
    "\<bar>?c * ?u - (?c * ?u) sdiv 100000000 * 100000000\<bar> < 100000000"
    "rs_AverageCost st' = (if rs_Position st' = 0 then 0
       else if \<bar>sint (rs_Position st)\<bar> < \<bar>sint q\<bar> then p else rs_AverageCost st)"
    "rs_TenantID st' = rs_TenantID st \<and> rs_Instrument st' = rs_Instrument st"
    by (rule applyTrade_oppose [OF assms(1) opp])
  have "sint (rs_AverageCost st') = (if sint (rs_Position st) + sint q = 0 then 0
      else if \<bar>sint (rs_Position st)\<bar> < \<bar>sint q\<bar> then sint p else sint (rs_AverageCost st))"
    using st'(2,5) sint64_zero_iff [of "rs_Position st'"] by auto
  then have "discrepancy st st' q p = (?c * ?u) sdiv 100000000 * 100000000 - ?c * ?u"
    unfolding discrepancy_def st'(2,3)
    using oppose_identity [of "sint (rs_Position st)" "sint q" "sint p" "sint (rs_AverageCost st)"] False by simp
  then have disc: "\<bar>discrepancy st st' q p\<bar> < 2 * 100000000 + \<bar>sint (rs_Position st')\<bar>"
    using st'(4) abs_ge_zero [of "sint (rs_Position st')"] by linarith
  have "\<bar>(?c * ?u) sdiv 100000000 * 100000000\<bar> \<le> \<bar>?c * ?u\<bar>" by (rule sdiv_mult_le)
  also have "\<bar>?c * ?u\<bar> \<le> \<bar>sint q\<bar> * \<bar>sint p - sint (rs_AverageCost st)\<bar>"
    unfolding abs_mult by (rule mult_mono) auto
  finally have pnl: "\<bar>sint (rs_RealizedPnL st') - sint (rs_RealizedPnL st)\<bar> * 100000000
      \<le> \<bar>sint q\<bar> * \<bar>sint p - sint (rs_AverageCost st)\<bar>"
    unfolding st'(3) by (simp add: abs_mult)
  show thesis
    by (rule that [OF st'(1,2) disc pnl]) (use st'(5,6) in auto)
qed

section \<open>Replaying a list of transactions\<close>

lemma applyTransaction_wf:
  assumes "wf_trade t"
  obtains q where "sint q = signed_quantity t" "q \<noteq> 0" "\<bar>sint q\<bar> = sint (tx_Quantity t)"
    "applyTransaction st t = bind_res (applyTrade st q (tx_Price t)) (\<lambda>s. Inr (s\<lparr>rs_LastTransactionID := Some (tx_ID t)\<rparr>))"
proof (cases "tx_Side t = SideBuy")
  case True
  then show thesis
    using assms by (intro that [of "tx_Quantity t"])
      (auto simp: wf_trade_def signed_quantity_def applyTransaction_def applyBuy_def)
next
  case False
  have "is_int64 (- sint (tx_Quantity t))"
    using assms sint64_range [of "tx_Quantity t"] unfolding wf_trade_def is_int64_def by linarith
  then have "sint (- tx_Quantity t) = - sint (tx_Quantity t)" by (rule sint64_minus)
  then show thesis
    using assms False by (intro that [of "- tx_Quantity t"])
      (auto simp: wf_trade_def signed_quantity_def applyTransaction_def applySell_def)
qed

text \<open>A state reached by trading \<open>d\<close> units in total at prices up to \<open>pm\<close>.\<close>

definition acc_ok :: "int \<Rightarrow> int \<Rightarrow> ReconciledState \<Rightarrow> bool" where
  "acc_ok pm d st \<longleftrightarrow> \<bar>sint (rs_Position st)\<bar> \<le> d \<and> 0 \<le> sint (rs_AverageCost st) \<and> sint (rs_AverageCost st) \<le> pm
     \<and> \<bar>sint (rs_RealizedPnL st)\<bar> * 100000000 \<le> d * pm"

lemma acc_ok_bounded:
  assumes "acc_ok pm d st" "0 \<le> sint p" "sint p \<le> pm" "pm \<le> amt" "d + \<bar>sint q\<bar> \<le> amt"
    "(d + \<bar>sint q\<bar>) * pm \<le> amt * 100000000"
  shows "trade_bounded st q p"
proof -
  let ?pos = "sint (rs_Position st)" and ?avg = "sint (rs_AverageCost st)"
  have b: "\<bar>?pos\<bar> \<le> d" "0 \<le> ?avg" "?avg \<le> pm" "\<bar>sint (rs_RealizedPnL st)\<bar> * 100000000 \<le> d * pm"
    using assms(1) unfolding acc_ok_def by blast+
  have "\<bar>?pos * ?avg\<bar> \<le> d * pm" using b by (simp add: abs_mult mult_mono)
  moreover have "\<bar>sint q * sint p\<bar> \<le> \<bar>sint q\<bar> * pm" using assms(2,3) by (simp add: abs_mult mult_left_mono)
  moreover have "0 \<le> \<bar>sint q\<bar> * pm" using b by simp
  ultimately have "\<bar>?pos * ?avg\<bar> + \<bar>sint q * sint p\<bar> \<le> amt * 100000000"
      "\<bar>sint (rs_RealizedPnL st)\<bar> * 100000000 \<le> amt * 100000000"
    using assms(6) b(4) unfolding distrib_right by linarith+
  moreover have "\<bar>?pos\<bar> \<le> amt" "\<bar>sint q\<bar> \<le> amt" using b(1) assms(5) by linarith+
  ultimately show ?thesis
    using b(2,3) assms(2-4) unfolding trade_bounded_def by simp
qed

lemma acc_ok_step:
  assumes "acc_ok pm d st" "wf_trade t" "sint (tx_Price t) \<le> pm" "pm \<le> amt"
    "d + sint (tx_Quantity t) \<le> amt" "(d + sint (tx_Quantity t)) * pm \<le> amt * 100000000"
  obtains st' where "applyTransaction st t = Inr st'" "acc_ok pm (d + sint (tx_Quantity t)) st'"
    "sint (rs_Position st') = sint (rs_Position st) + signed_quantity t"
    "\<bar>100000000 * (sint (rs_RealizedPnL st') - sint (rs_RealizedPnL st)) + signed_quantity t * sint (tx_Price t)
      + sint (rs_Position st) * sint (rs_AverageCost st) - sint (rs_Position st') * sint (rs_AverageCost st')\<bar>
      \<le> 2 * 100000000 + d + sint (tx_Quantity t)"
proof -
  let ?p = "tx_Price t" and ?n = "sint (tx_Quantity t)"
  obtain q where q: "sint q = signed_quantity t" "q \<noteq> 0" "\<bar>sint q\<bar> = ?n"
    "applyTransaction st t = bind_res (applyTrade st q ?p) (\<lambda>s. Inr (s\<lparr>rs_LastTransactionID := Some (tx_ID t)\<rparr>))"
    by (rule applyTransaction_wf [OF assms(2)])
  have p: "0 \<le> sint ?p" using assms(2) by (simp add: wf_trade_def)
  have tb: "trade_bounded st q ?p"
    using acc_ok_bounded [OF assms(1) p assms(3,4), of q] assms(5,6) unfolding q(3) by blast
  obtain s where s: "applyTrade st q ?p = Inr s" "sint (rs_Position s) = sint (rs_Position st) + sint q"
    "\<bar>discrepancy st s q ?p\<bar> < 2 * 100000000 + \<bar>sint (rs_Position s)\<bar>"
    "\<bar>sint (rs_RealizedPnL s) - sint (rs_RealizedPnL st)\<bar> * 100000000 \<le> \<bar>sint q\<bar> * \<bar>sint ?p - sint (rs_AverageCost st)\<bar>"
    "0 \<le> sint (rs_AverageCost st) \<and> 0 \<le> sint ?p \<longrightarrow>
      0 \<le> sint (rs_AverageCost s) \<and> sint (rs_AverageCost s) \<le> max (sint (rs_AverageCost st)) (sint ?p)"
    "rs_TenantID s = rs_TenantID st \<and> rs_Instrument s = rs_Instrument st"
    by (rule applyTrade_step [OF tb q(2)])
  have b: "\<bar>sint (rs_Position st)\<bar> \<le> d" "0 \<le> sint (rs_AverageCost st)" "sint (rs_AverageCost st) \<le> pm"
      "\<bar>sint (rs_RealizedPnL st)\<bar> * 100000000 \<le> d * pm"
    using assms(1) unfolding acc_ok_def by blast+
  have "?n * \<bar>sint ?p - sint (rs_AverageCost st)\<bar> \<le> ?n * pm"
    using assms(2,3) b p by (intro mult_left_mono) (auto simp: wf_trade_def)
  then have r: "\<bar>sint (rs_RealizedPnL s) - sint (rs_RealizedPnL st)\<bar> * 100000000 \<le> ?n * pm"
    using s(4) unfolding q(3) by (rule order_trans [rotated])
  have "\<bar>sint (rs_RealizedPnL s)\<bar> * 100000000
      \<le> (\<bar>sint (rs_RealizedPnL st)\<bar> + \<bar>sint (rs_RealizedPnL s) - sint (rs_RealizedPnL st)\<bar>) * 100000000"
    by (rule mult_right_mono) simp_all
  then have pnl: "\<bar>sint (rs_RealizedPnL s)\<bar> * 100000000 \<le> (d + ?n) * pm"
    using add_mono [OF b(4) r] unfolding distrib_right by (rule order_trans)
  have pos: "\<bar>sint (rs_Position s)\<bar> \<le> d + ?n" using s(2) b(1) q(3) by linarith
  have avg: "0 \<le> sint (rs_AverageCost s)" "sint (rs_AverageCost s) \<le> pm"
    using s(5) b(2,3) p assms(3) by auto
  have disc: "\<bar>discrepancy st s q ?p\<bar> \<le> 2 * 100000000 + d + ?n" using s(3) pos by linarith
  show thesis
  proof (rule that [of "s\<lparr>rs_LastTransactionID := Some (tx_ID t)\<rparr>"])
    show "applyTransaction st t = Inr (s\<lparr>rs_LastTransactionID := Some (tx_ID t)\<rparr>)" using q(4) s(1) by simp
    show "acc_ok pm (d + ?n) (s\<lparr>rs_LastTransactionID := Some (tx_ID t)\<rparr>)"
      using pos avg pnl by (simp add: acc_ok_def)
  qed (use s(2) q(1) disc in \<open>simp_all add: discrepancy_def\<close>)
qed

definition total_quantity :: "Transaction list \<Rightarrow> int" where
  "total_quantity ts = sum_list (map (\<lambda>t. sint (tx_Quantity t)) ts)"

definition net_quantity :: "Transaction list \<Rightarrow> int" where
  "net_quantity ts = sum_list (map signed_quantity ts)"

definition net_cost :: "Transaction list \<Rightarrow> int" where
  "net_cost ts = sum_list (map (\<lambda>t. signed_quantity t * sint (tx_Price t)) ts)"

lemma total_quantity_nonneg: "\<forall>t \<in> set ts. wf_trade t \<Longrightarrow> 0 \<le> total_quantity ts"
  unfolding total_quantity_def by (rule sum_list_nonneg) (auto simp: wf_trade_def)

lemma replay_accounting:
  assumes "\<forall>t \<in> set ts. wf_trade t \<and> sint (tx_Price t) \<le> pm" "acc_ok pm d st" "pm \<le> amt" "0 \<le> pm"
    "d + total_quantity ts \<le> amt" "(d + total_quantity ts) * pm \<le> amt * 100000000"
  shows "\<exists>st'. replay st ts = Inr st' \<and> acc_ok pm (d + total_quantity ts) st'
    \<and> sint (rs_Position st') = sint (rs_Position st) + net_quantity ts
    \<and> \<bar>100000000 * (sint (rs_RealizedPnL st') - sint (rs_RealizedPnL st)) + net_cost ts
        + sint (rs_Position st) * sint (rs_AverageCost st) - sint (rs_Position st') * sint (rs_AverageCost st')\<bar>
      \<le> int (length ts) * (2 * 100000000 + d + total_quantity ts)"
  using assms
proof (induction ts arbitrary: st d)
  case (Cons t ts)
  let ?n = "sint (tx_Quantity t)"
  have t: "wf_trade t" "sint (tx_Price t) \<le> pm" and n: "0 \<le> total_quantity ts" and tn: "0 \<le> ?n"
    using Cons.prems(1) total_quantity_nonneg by (auto simp: wf_trade_def)
  have tot: "d + total_quantity (t # ts) = d + ?n + total_quantity ts" by (simp add: total_quantity_def)
  have le: "d + ?n \<le> amt" "(d + ?n) * pm \<le> amt * 100000000"
    using Cons.prems(4-6) n mult_right_mono [of "d + ?n" "d + ?n + total_quantity ts" pm] unfolding tot by linarith+
  obtain s where s: "applyTransaction st t = Inr s" "acc_ok pm (d + ?n) s"
    "sint (rs_Position s) = sint (rs_Position st) + signed_quantity t"
    "\<bar>100000000 * (sint (rs_RealizedPnL s) - sint (rs_RealizedPnL st)) + signed_quantity t * sint (tx_Price t)
      + sint (rs_Position st) * sint (rs_AverageCost st) - sint (rs_Position s) * sint (rs_AverageCost s)\<bar>
      \<le> 2 * 100000000 + d + ?n"
    by (rule acc_ok_step [OF Cons.prems(2) t Cons.prems(3) le])
  obtain st' where st': "replay s ts = Inr st'" "acc_ok pm (d + ?n + total_quantity ts) st'"
    "sint (rs_Position st') = sint (rs_Position s) + net_quantity ts"
    "\<bar>100000000 * (sint (rs_RealizedPnL st') - sint (rs_RealizedPnL s)) + net_cost ts
      + sint (rs_Position s) * sint (rs_AverageCost s) - sint (rs_Position st') * sint (rs_AverageCost st')\<bar>
      \<le> int (length ts) * (2 * 100000000 + (d + ?n) + total_quantity ts)"
    using Cons.IH [of "d + ?n" s] Cons.prems s(2) unfolding tot by auto
  have "int (length (t # ts)) * (2 * 100000000 + d + total_quantity (t # ts))
      = 2 * 100000000 + (d + ?n) + total_quantity ts + int (length ts) * (2 * 100000000 + (d + ?n) + total_quantity ts)"
    by (simp add: total_quantity_def algebra_simps)
  then have "\<bar>100000000 * (sint (rs_RealizedPnL st') - sint (rs_RealizedPnL st)) + net_cost (t # ts)
        + sint (rs_Position st) * sint (rs_AverageCost st) - sint (rs_Position st') * sint (rs_AverageCost st')\<bar>
      \<le> int (length (t # ts)) * (2 * 100000000 + d + total_quantity (t # ts))"
    using s(4) st'(4) n unfolding net_cost_def by simp
  moreover have "sint (rs_Position st') = sint (rs_Position st) + net_quantity (t # ts)"
    using s(3) st'(3) by (simp add: net_quantity_def)
  ultimately show ?case using s(1) st'(1,2) unfolding tot by simp
qed (simp add: total_quantity_def net_quantity_def net_cost_def)

section \<open>Properties\<close>


definition sample_trade :: "int64 \<Rightarrow> Side \<Rightarrow> int64 \<Rightarrow> int64 \<Rightarrow> Transaction" where
  "sample_trade i side quantity price =
     \<lparr>tx_ID = i, tx_EventID = ucast i, tx_TenantID = ''acme'', tx_SchemaVersion = 1, tx_Instrument = ''BTC'',
      tx_Side = side, tx_Quantity = quantity, tx_Price = price, tx_Currency = ''USD'', tx_OccurredAt = 0,
      tx_ReceivedAt = 0\<rparr>"

lemmas trade_eval = sample_trade_def zero_state_def wf_trade_def total_quantity_def net_quantity_def
  net_cost_def signed_quantity_def SideBuy_def SideSell_def


text \<open>
  A trade against the position realizes exactly the closed quantity, the smaller of the two, at
  the difference between price and average cost in the direction of the position, truncated once;
  a partial close keeps the average cost, a full close resets it to zero, and a flip opens the rest
  at the trade's price.
\<close>

theorem applyTrade_closing:
  assumes "trade_bounded st q p" "rs_Position st \<noteq> 0" "(sint (rs_Position st) > 0) \<noteq> (sint q > 0)"
  shows "\<exists>st'. applyTrade st q p = Inr st'
    \<and> sint (rs_Position st') = sint (rs_Position st) + sint q
    \<and> sint (rs_RealizedPnL st') = sint (rs_RealizedPnL st)
        + (min (\<bar>sint (rs_Position st)\<bar>) (\<bar>sint q\<bar>)
           * (sgn (sint (rs_Position st)) * (sint p - sint (rs_AverageCost st)))) sdiv 10 ^ 8
    \<and> rs_AverageCost st' = (if rs_Position st' = 0 then 0
        else if \<bar>sint (rs_Position st)\<bar> < \<bar>sint q\<bar> then p else rs_AverageCost st)"
proof -
  have u: "sgn (sint (rs_Position st)) * (sint p - sint (rs_AverageCost st))
      = (if sint (rs_Position st) > 0 then sint p - sint (rs_AverageCost st) else sint (rs_AverageCost st) - sint p)"
    using assms(2) by (simp add: sgn_if)
  have scale: "(10 :: int) ^ 8 = 100000000" by simp
  show ?thesis unfolding u scale by (rule applyTrade_oppose [OF assms]) blast
qed

definition sample_long :: ReconciledState where
  "sample_long = (zero_state (''acme'', ''BTC''))\<lparr>rs_Position := 500000000, rs_AverageCost := 300000000\<rparr>"

theorem applyTrade_closing_witness:
  "\<exists>st'. applyTrade sample_long (- 200000000) 450000000 = Inr st' \<and> sint (rs_RealizedPnL st') = 300000000"
proof -
  have "trade_bounded sample_long (- 200000000) 450000000" "rs_Position sample_long \<noteq> 0"
    "(sint (rs_Position sample_long) > 0) \<noteq> (sint (- 200000000 :: int64) > 0)"
    by (simp_all add: trade_bounded_def zero_state_def sample_long_def)
  from applyTrade_closing [OF this] show ?thesis
    by (simp add: zero_state_def sample_long_def sdiv_nonneg) blast
qed

text \<open>
  Outside those bounds the sum of the two cost bases wraps: two buys of 100000 units at 900000,
  each accepted and each with a cost basis that \<open>MulAmount\<close> can represent, leave an average cost of
  minus 22337.2..., although the comment on \<open>MaxAmount\<close> says that amounts within it never overflow
  "even after later multiplication or summation".
\<close>

theorem cost_sum_wraps:
  "\<exists>st. replay (zero_state k)
      [sample_trade 1 SideBuy 10000000000000 90000000000000, sample_trade 2 SideBuy 10000000000000 90000000000000] = Inr st
    \<and> sint (rs_Position st) = 20000000000000 \<and> sint (rs_AverageCost st) = - 2233720368547
    \<and> (10000000000000 :: int) \<le> sint MaxAmount \<and> (90000000000000 :: int) \<le> sint MaxAmount"
proof -
  let ?q = "10000000000000 :: int64" and ?p = "90000000000000 :: int64"
  let ?st1 = "(zero_state k)\<lparr>rs_AverageCost := ?p, rs_Position := ?q, rs_LastTransactionID := Some 1\<rparr>"
  have mul: "MulAmount ?q ?p = Inr 9000000000000000000" "MulAmount 0 0 = Inr 0"
    by (simp_all add: MulAmount_Inr_iff sdiv_nonneg)
  have div: "DivAmount 9000000000000000000 ?q = Inr ?p"
      "DivAmount 18000000000000000000 20000000000000 = Inr (- 2233720368547)"
    by (simp_all add: DivAmount_Inr_iff signed_divide_int_def)
  have one: "applyTransaction (zero_state k) (sample_trade 1 SideBuy ?q ?p) = Inr ?st1"
    using mul div by (simp add: applyTransaction_def applyBuy_def applyTrade_def sample_trade_def zero_state_def)
  have two: "applyTransaction ?st1 (sample_trade 2 SideBuy ?q ?p)
      = Inr (?st1\<lparr>rs_AverageCost := - 2233720368547, rs_Position := 20000000000000, rs_LastTransactionID := Some 2\<rparr>)"
    using mul div by (simp add: applyTransaction_def applyBuy_def applyTrade_def sample_trade_def zero_state_def)
  show ?thesis
    using one two by (simp add: MaxAmount_def AmountScale_def)
qed

end
