(* ===== verification/Processor.thy ===== *)
theory Processor
  imports Trade LedgerBreaker
begin

text \<open>
  Idempotent reconciliation, \<open>Reconcile\<close> of \<open>src/internal/processor/processor.go\<close>, over the repository
  interfaces of \<open>Ledger\<close>. It is verified once inside the locale \<open>ledger_store\<close>, against the contract
  of the interfaces, and the results are taken at the circuit-broken Postgres stores of
  \<open>LedgerBreaker\<close>, which is how \<open>src/cmd/processor/main.go\<close> wires it.
\<close>

section \<open>Model of Reconcile\<close>

record 'w Reconciler =
  rec_Transactions :: "'w TransactionRepository"
  rec_States :: "'w ReconciledStateRepository"

definition NewReconciler :: "'w TransactionRepository \<Rightarrow> 'w ReconciledStateRepository \<Rightarrow> 'w Reconciler" where
  "NewReconciler txns states = \<lparr>rec_Transactions = txns, rec_States = states\<rparr>"

text \<open>The stored row of the transaction: inserted now, or by an earlier delivery of the same event.\<close>

definition reconcile_insert :: "'w Reconciler \<Rightarrow> ctx \<Rightarrow> Transaction \<Rightarrow> 'w \<Rightarrow> Transaction result \<times> 'w" where
  "reconcile_insert rec ctx txn w =
     (case Insert (rec_Transactions rec) ctx txn w of
        (Inr inserted, w1) \<Rightarrow> (Inr inserted, w1)
      | (Inl err, w1) \<Rightarrow>
          if \<not> errors_Is err ErrDuplicateEvent then (Inl (Wrap ''reconcile: insert transaction'' err), w1)
          else (case GetByEventID (rec_Transactions rec) ctx (tx_EventID txn) w1 of
                  (Inl err, w2) \<Rightarrow> (Inl (Wrap ''reconcile: get duplicate transaction'' err), w2)
                | (Inr inserted, w2) \<Rightarrow> (Inr inserted, w2)))"

text \<open>The reconciled state to fold it into: the stored one, or the zero state of the key.\<close>

definition reconcile_state :: "'w Reconciler \<Rightarrow> ctx \<Rightarrow> Transaction \<Rightarrow> 'w \<Rightarrow> ReconciledState result \<times> 'w" where
  "reconcile_state rec ctx inserted w =
     (case Get (rec_States rec) ctx (tx_TenantID inserted) (tx_Instrument inserted) w of
        (Inr state, w1) \<Rightarrow> (Inr state, w1)
      | (Inl err, w1) \<Rightarrow>
          if \<not> errors_Is err ErrNotFound then (Inl (Wrap ''reconcile: get reconciled state'' err), w1)
          else (Inr (zero_state (tx_TenantID inserted, tx_Instrument inserted)), w1))"

definition Reconcile :: "'w Reconciler \<Rightarrow> ctx \<Rightarrow> Transaction \<Rightarrow> 'w \<Rightarrow> error \<times> 'w" where
  "Reconcile rec ctx txn w =
     (case reconcile_insert rec ctx txn w of
        (Inl err, w1) \<Rightarrow> (Some err, w1)
      | (Inr inserted, w1) \<Rightarrow>
          (case reconcile_state rec ctx inserted w1 of
             (Inl err, w2) \<Rightarrow> (Some err, w2)
           | (Inr state, w2) \<Rightarrow>
               if (case rs_LastTransactionID state of None \<Rightarrow> False | Some i \<Rightarrow> sint i \<ge> sint (tx_ID inserted))
               then (None, w2)
               else (case applyTransaction state inserted of
                       Inl err \<Rightarrow> (Some (Wrap ''reconcile: apply transaction'' err), w2)
                     | Inr updated \<Rightarrow>
                         (case Upsert (rec_States rec) ctx updated w2 of
                            (None, w3) \<Rightarrow> (None, w3)
                          | (Some err, w3) \<Rightarrow>
                              if errors_Is err ErrStaleReconciledState then (None, w3)
                              else (Some (Wrap ''reconcile: upsert reconciled state'' err), w3)))))"

text \<open>
  Deliveries in partition order: an event is tried again (each try with its own context) until
  \<open>Reconcile\<close> returns nil, and only then the next one starts. The result says whether all got through.
\<close>

fun deliver :: "'w Reconciler \<Rightarrow> ctx list \<Rightarrow> Transaction \<Rightarrow> 'w \<Rightarrow> bool \<times> 'w" where
  "deliver rec [] txn w = (False, w)"
| "deliver rec (c # cs) txn w =
     (case Reconcile rec c txn w of (None, w') \<Rightarrow> (True, w') | (Some _, w') \<Rightarrow> deliver rec cs txn w')"

fun deliver_all :: "'w Reconciler \<Rightarrow> (ctx list \<times> Transaction) list \<Rightarrow> 'w \<Rightarrow> bool \<times> 'w" where
  "deliver_all rec [] w = (True, w)"
| "deliver_all rec ((cs, txn) # ds) w =
     (case deliver rec cs txn w of (False, w') \<Rightarrow> (False, w') | (True, w') \<Rightarrow> deliver_all rec ds w')"

text \<open>The events of a list of deliveries, each at its first occurrence.\<close>

definition note_event :: "UUID list \<Rightarrow> UUID \<Rightarrow> UUID list" where
  "note_event es e = (if e \<in> set es then es else es @ [e])"

definition first_events :: "(ctx list \<times> Transaction) list \<Rightarrow> UUID list \<Rightarrow> UUID list" where
  "first_events ds es = foldl (\<lambda>es d. note_event es (tx_EventID (snd d))) es ds"

definition consistent :: "Transaction set \<Rightarrow> bool" where
  "consistent A \<longleftrightarrow> (\<forall>t \<in> A. \<forall>u \<in> A. tx_EventID t = tx_EventID u \<longrightarrow> same_trade t u)"

section \<open>What a reconciled row stands for\<close>

definition untimed :: "ReconciledState \<Rightarrow> ReconciledState" where
  "untimed st = st\<lparr>rs_UpdatedAt := 0\<rparr>"

definition of_key :: "statekey \<Rightarrow> Transaction list \<Rightarrow> Transaction list" where
  "of_key k ts = filter (\<lambda>t. tx_key t = k) ts"

text \<open>The row of a key is the replay of exactly these transactions (no row: of none).\<close>

definition reflects :: "statekey \<Rightarrow> Transaction list \<Rightarrow> ReconciledState option \<Rightarrow> bool" where
  "reflects k ts row \<longleftrightarrow> (case row of None \<Rightarrow> ts = []
     | Some st \<Rightarrow> ts \<noteq> [] \<and> replay (zero_state k) ts = Inr (untimed st))"

text \<open>No transaction is counted twice or out of order: the row replays a subsequence of the ledger.\<close>

definition derived :: "Transaction list \<Rightarrow> staterows \<Rightarrow> bool" where
  "derived ledg rows \<longleftrightarrow> (\<forall>k. \<exists>ts. subseq ts (of_key k ledg) \<and> reflects k ts (rows k))"

lemma applyTrade_cases:
  assumes "applyTrade st q p = Inr st'"
  obtains (extend) a where "st' = st\<lparr>rs_AverageCost := a, rs_Position := rs_Position st + q\<rparr>"
      "\<And>u. applyTrade (st\<lparr>rs_UpdatedAt := u\<rparr>) q p = Inr (st'\<lparr>rs_UpdatedAt := u\<rparr>)"
  | (oppose) r a where "st' = st\<lparr>rs_RealizedPnL := rs_RealizedPnL st + r, rs_Position := rs_Position st + q, rs_AverageCost := a\<rparr>"
      "\<And>u. applyTrade (st\<lparr>rs_UpdatedAt := u\<rparr>) q p = Inr (st'\<lparr>rs_UpdatedAt := u\<rparr>)"
proof (cases "rs_Position st = 0 \<or> (sint (rs_Position st) > 0) = (sint q > 0)")
  case True
  obtain e a c where e: "MulAmount (rs_Position st) (rs_AverageCost st) = Inr e" "MulAmount q p = Inr a"
    "DivAmount (e + a) (rs_Position st + q) = Inr c"
    "st' = st\<lparr>rs_AverageCost := c, rs_Position := rs_Position st + q\<rparr>"
    using assms True unfolding applyTrade_def by (simp only: if_True bind_res_Inr_iff wrap_res_Inr_iff Let_def) blast
  have "applyTrade (st\<lparr>rs_UpdatedAt := u\<rparr>) q p = Inr (st'\<lparr>rs_UpdatedAt := u\<rparr>)" for u
    using True e by (simp add: applyTrade_def Let_def)
  then show thesis using e(4) by (rule extend [rotated])
next
  case False
  let ?pm = "if sint (rs_Position st) < 0 then - rs_Position st else rs_Position st"
  let ?qm = "if sint q < 0 then - q else q"
  let ?c = "if sint ?pm < sint ?qm then ?pm else ?qm"
  let ?u = "if sint (rs_Position st) > 0 then p - rs_AverageCost st else rs_AverageCost st - p"
  define f where "f = ?qm - ?c"
  define g where "g = (\<lambda>r (v :: ReconciledState). let s = v\<lparr>rs_RealizedPnL := rs_RealizedPnL v + r, rs_Position := rs_Position v + q\<rparr>
    in if rs_Position s = 0 then s\<lparr>rs_AverageCost := 0\<rparr> else if sint f > 0 then s\<lparr>rs_AverageCost := p\<rparr> else s)"
  have gen: "applyTrade v q p = bind_res (wrap_res ''compute realized pnl'' (MulAmount ?c ?u)) (\<lambda>r. Inr (g r v))"
    if "rs_Position v = rs_Position st" "rs_AverageCost v = rs_AverageCost st" for v
    unfolding applyTrade_def g_def f_def Let_def that if_not_P [OF False] by (simp only: ReconciledState.simps that)
  obtain r where r: "MulAmount ?c ?u = Inr r" "st' = g r st"
    using assms gen [OF refl refl] by (auto simp: bind_res_Inr_iff)
  have gu: "g r (st\<lparr>rs_UpdatedAt := u\<rparr>) = (g r st)\<lparr>rs_UpdatedAt := u\<rparr>" for u by (simp add: g_def Let_def)
  have "st' = st\<lparr>rs_RealizedPnL := rs_RealizedPnL st + r, rs_Position := rs_Position st + q, rs_AverageCost := rs_AverageCost st'\<rparr>"
    unfolding r(2) g_def Let_def by simp
  moreover have "applyTrade (st\<lparr>rs_UpdatedAt := u\<rparr>) q p = Inr (st'\<lparr>rs_UpdatedAt := u\<rparr>)" for u
    using gen [of "st\<lparr>rs_UpdatedAt := u\<rparr>"] r gu by simp
  ultimately show thesis by (rule oppose)
qed

lemma applyTrade_fields:
  assumes "applyTrade st q p = Inr st'"
  shows "rs_TenantID st' = rs_TenantID st" "rs_Instrument st' = rs_Instrument st"
    "applyTrade (st\<lparr>rs_UpdatedAt := u\<rparr>) q p = Inr (st'\<lparr>rs_UpdatedAt := u\<rparr>)"
  by (rule applyTrade_cases [OF assms]; simp)+

lemma applyTransaction_fields:
  assumes "applyTransaction st t = Inr st'"
  shows "rs_key st' = rs_key st" "rs_LastTransactionID st' = Some (tx_ID t)"
    "applyTransaction (untimed st) t = Inr (untimed st')"
proof -
  obtain q s where s: "applyTrade st q (tx_Price t) = Inr s" "st' = s\<lparr>rs_LastTransactionID := Some (tx_ID t)\<rparr>"
    and q: "\<And>v. applyTransaction v t = bind_res (applyTrade v q (tx_Price t)) (\<lambda>s. Inr (s\<lparr>rs_LastTransactionID := Some (tx_ID t)\<rparr>))"
    using assms unfolding applyTransaction_def applyBuy_def applySell_def
    by (auto simp: bind_res_Inr_iff split: if_splits)
  show "rs_key st' = rs_key st" "rs_LastTransactionID st' = Some (tx_ID t)"
    using applyTrade_fields [OF s(1)] s(2) by (simp_all add: rs_key_def)
  show "applyTransaction (untimed st) t = Inr (untimed st')"
    unfolding q untimed_def by (simp add: applyTrade_fields(3) [OF s(1)] s(2))
qed

lemma replay_append: "replay st (ts @ us) = bind_res (replay st ts) (\<lambda>s. replay s us)"
proof (induction ts arbitrary: st)
  case (Cons t ts)
  then show ?case by (cases "applyTransaction st t") simp_all
qed simp

lemma replay_watermark:
  assumes "replay st ts = Inr st'" "ts \<noteq> []"
  shows "rs_LastTransactionID st' = Some (tx_ID (last ts))"
proof -
  obtain us t where ts: "ts = us @ [t]" using assms(2) by (metis append_butlast_last_id)
  then obtain s where "applyTransaction s t = Inr st'"
    using assms(1) by (auto simp: replay_append bind_res_Inr_iff)
  then show ?thesis using applyTransaction_fields(2) ts by simp
qed

section \<open>Reconcile against the repository contract\<close>

text \<open>The row already covers the transaction; the state a key is at.\<close>

definition covered :: "ReconciledState option \<Rightarrow> Transaction \<Rightarrow> bool" where
  "covered row t \<longleftrightarrow> (case row of None \<Rightarrow> False
     | Some st \<Rightarrow> (case rs_LastTransactionID st of None \<Rightarrow> False | Some i \<Rightarrow> sint i \<ge> sint (tx_ID t)))"

definition current :: "staterows \<Rightarrow> statekey \<Rightarrow> ReconciledState" where
  "current rs k = (case rs k of None \<Rightarrow> zero_state k | Some st \<Rightarrow> st)"

lemma rs_key_zero_state [simp]: "rs_key (zero_state k) = k"
  by (simp add: rs_key_def zero_state_def)

lemma uncovered_advances:
  assumes "\<not> covered row t" "rs_LastTransactionID u = Some (tx_ID t)"
  shows "advances row u"
  using assms by (auto simp: covered_def advances_def split: option.splits)

lemma id_less_trans: "id_less a b \<Longrightarrow> id_less b c \<Longrightarrow> id_less a c"
  by (simp add: id_less_def)

lemma sorted_last: "sorted_wrt id_less ts \<Longrightarrow> t \<in> set ts \<Longrightarrow> t = last ts \<or> id_less t (last ts)"
  by (induction ts rule: rev_induct) (auto simp: sorted_wrt_append)

lemma subseq_snoc:
  assumes "sorted_wrt id_less ledg" "subseq ts ledg" "t \<in> set ledg" "ts = [] \<or> id_less (last ts) t"
  shows "subseq (ts @ [t]) ledg"
proof -
  obtain xs ys where l: "ledg = xs @ t # ys" using assms(3) by (meson split_list)
  obtain us vs where ts: "ts = us @ vs" "subseq us xs" "subseq vs (t # ys)"
    using assms(2) unfolding l by (auto elim: subseq_appendE)
  have "vs = []"
  proof (rule ccontr)
    assume "vs \<noteq> []"
    then have v: "last ts \<in> set (t # ys)" "id_less (last ts) t"
      using ts assms(4) list_emb_set [OF ts(3), of "last vs"] by auto
    have "last ts = t \<or> id_less t (last ts)" using assms(1) v(1) unfolding l by (auto simp: sorted_wrt_append)
    then show False using v(2) by (auto simp: id_less_def)
  qed
  then show ?thesis using ts unfolding l by (intro list_emb_append_mono) auto
qed

lemma reflects_current: "reflects k ts (rs k) \<Longrightarrow> replay (zero_state k) ts = Inr (untimed (current rs k))"
  by (auto simp: reflects_def current_def untimed_def zero_state_def split: option.splits)

lemma reflects_snoc:
  assumes "reflects k ts (rs k)" "applyTransaction (current rs k) t = Inr u"
  shows "reflects k (ts @ [t]) (Some (u\<lparr>rs_UpdatedAt := x\<rparr>))"
  using reflects_current [where k = k and rs = rs, OF assms(1)] applyTransaction_fields(3) [OF assms(2)]
  by (simp add: reflects_def replay_append untimed_def)

lemma reflects_watermark:
  assumes "reflects k ts row"
  shows "case row of None \<Rightarrow> ts = [] | Some st \<Rightarrow> ts \<noteq> [] \<and> rs_LastTransactionID st = Some (tx_ID (last ts))"
  using assms replay_watermark [of "zero_state k" ts]
  by (auto simp: reflects_def untimed_def split: option.splits)

lemma reflects_covered:
  assumes "reflects k ts row"
  shows "covered row t \<longleftrightarrow> ts \<noteq> [] \<and> \<not> id_less (last ts) t"
  using reflects_watermark [OF assms] by (auto simp: covered_def id_less_def not_less split: option.splits)

definition settled :: "Transaction list \<Rightarrow> staterows \<Rightarrow> statekey \<Rightarrow> bool" where
  "settled ledg rs k \<longleftrightarrow> reflects k (of_key k ledg) (rs k)"

definition pending :: "Transaction list \<Rightarrow> staterows \<Rightarrow> statekey \<Rightarrow> UUID \<Rightarrow> bool" where
  "pending ledg rs k event \<longleftrightarrow>
     (\<exists>pre t. of_key k ledg = pre @ [t] \<and> tx_EventID t = event \<and> reflects k pre (rs k))"

lemma NewReconciler_sel [simp]:
  "rec_Transactions (NewReconciler t s) = t" "rec_States (NewReconciler t s) = s"
  by (simp_all add: NewReconciler_def)

context ledger_store
begin

lemma reconcile_insert_result:
  assumes "inv w" "reconcile_insert (NewReconciler T S) c txn w = (r, w1)"
  shows "inv w1 \<and> rows w1 = rows w
    \<and> (txns w1 = txns w \<or> (\<exists>t. txns w1 = txns w @ [t] \<and> same_trade t txn))
    \<and> (\<forall>t. r = Inr t \<longrightarrow> t \<in> set (txns w1) \<and> tx_EventID t = tx_EventID txn)"
proof -
  obtain r0 w0 where i: "Insert T c txn w = (r0, w0)" by (metis prod.collapse)
  note k = Insert_keeps [OF assms(1) i] and eq = assms(2) [unfolded reconcile_insert_def NewReconciler_def, simplified, unfolded i, simplified]
  show ?thesis
  proof (cases r0)
    case (Inr t)
    then have "r = Inr t" "w1 = w0" using eq by simp_all
    then show ?thesis using k Insert_Inr [OF assms(1) i [unfolded Inr]] by (simp add: same_trade_def)
  next
    case (Inl e)
    note l = Insert_Inl [OF assms(1) i [unfolded Inl]]
    show ?thesis
    proof (cases "errors_Is e ErrDuplicateEvent")
      case False
      then have "\<exists>e'. r = Inl e'" "w1 = w0" using eq Inl by auto
      then show ?thesis using k l by auto
    next
      case True
      obtain r2 w2 where g: "GetByEventID T c (tx_EventID txn) w0 = (r2, w2)" by (metis prod.collapse)
      have w1: "w1 = w2" "\<And>t. r = Inr t \<Longrightarrow> r2 = Inr t" using eq Inl True g by (simp_all split: sum.splits)
      have "inv w0" using k by simp
      note g' = GetByEventID_keeps [OF this g] and g'' = GetByEventID_Inr [OF this, of c "tx_EventID txn" _ w2]
      have "txns w0 = txns w" using Insert_duplicate [OF assms(1) i [unfolded Inl] True] by simp
      moreover have "t \<in> set (txns w0) \<and> tx_EventID t = tx_EventID txn" if "r = Inr t" for t
        using g'' g w1(2) [OF that] by simp
      ultimately show ?thesis using k g' w1(1) by simp
    qed
  qed
qed

lemma reconcile_state_result:
  assumes "inv w" "reconcile_state (NewReconciler T S) c t w = (r, w1)"
  shows "inv w1 \<and> rows w1 = rows w \<and> txns w1 = txns w \<and> (\<forall>st. r = Inr st \<longrightarrow> st = current (rows w) (tx_key t))"
proof -
  obtain r0 w0 where g: "Get S c (tx_TenantID t) (tx_Instrument t) w = (r0, w0)" by (metis prod.collapse)
  note k = Get_keeps [OF assms(1) g] and eq = assms(2) [unfolded reconcile_state_def NewReconciler_def, simplified, unfolded g, simplified]
  show ?thesis
  proof (cases r0)
    case (Inr st)
    then have "r = Inr st" "w1 = w0" using eq by simp_all
    then show ?thesis using k Get_Inr [OF assms(1) g [unfolded Inr]] by (simp add: current_def tx_key_def)
  next
    case (Inl e)
    then have "w1 = w0" "r = (if errors_Is e ErrNotFound then Inr (zero_state (tx_key t)) else Inl (Wrap ''reconcile: get reconciled state'' e))"
      using eq by (simp_all add: tx_key_def split: if_splits)
    then show ?thesis using k Get_not_found [OF assms(1) g [unfolded Inl]] by (simp add: current_def tx_key_def)
  qed
qed

text \<open>The tail of \<open>Reconcile\<close>: skip, apply, write.\<close>

lemma reconcile_finish:
  assumes "inv w"
    "(if covered (rows w (tx_key t)) t then (None, w)
      else (case applyTransaction st t of
              Inl e \<Rightarrow> (Some (Wrap ''reconcile: apply transaction'' e), w)
            | Inr u \<Rightarrow> (case Upsert S c u w of
                (None, w3) \<Rightarrow> (None, w3)
              | (Some e, w3) \<Rightarrow> if errors_Is e ErrStaleReconciledState then (None, w3)
                  else (Some (Wrap ''reconcile: upsert reconciled state'' e), w3)))) = (err, w')"
    "st = current (rows w) (tx_key t)"
  shows "inv w' \<and> txns w' = txns w
    \<and> (rows w' = rows w \<and> (err = None \<longrightarrow> covered (rows w (tx_key t)) t)
       \<or> \<not> covered (rows w (tx_key t)) t
          \<and> (\<exists>u. applyTransaction (current (rows w) (tx_key t)) t = Inr u \<and> written (rows w) u (rows w')))"
proof (cases "covered (rows w (tx_key t)) t")
  case True
  then show ?thesis using assms by simp
next
  case False
  show ?thesis
  proof (cases "applyTransaction st t")
    case (Inl e)
    then have "err \<noteq> None \<and> w' = w" using assms(2) False by auto
    then show ?thesis using assms(1) by auto
  next
    case (Inr u)
    obtain e3 w3 where up: "Upsert S c u w = (e3, w3)" by (metis prod.collapse)
    have w': "w' = w3" "err = None \<longrightarrow> e3 = None \<or> (\<exists>e. e3 = Some e \<and> errors_Is e ErrStaleReconciledState)"
      using assms(2) False Inr up by (auto split: option.splits if_splits)
    have key: "rs_key u = tx_key t"
      using applyTransaction_fields(1) [OF Inr] rows_keyed [OF assms(1), of "tx_key t"] assms(3)
      by (auto simp: current_def split: option.splits)
    have adv: "advances (rows w (rs_key u)) u"
      unfolding key using uncovered_advances [OF False] applyTransaction_fields(2) [OF Inr] .
    show ?thesis
    proof (cases e3)
      case None
      then show ?thesis
        using Upsert_keeps [OF assms(1) up] Upsert_None [OF assms(1) up [unfolded None]] w'(1) False Inr assms(3) by auto
    next
      case (Some e)
      note so = Upsert_Some [OF assms(1) up [unfolded Some]] and stale = Upsert_stale [OF assms(1) up [unfolded Some]]
      have "err \<noteq> None" using w'(2) Some stale adv by auto
      then show ?thesis
        using Upsert_keeps [OF assms(1) up] so w'(1) False Inr assms(3) by auto
    qed
  qed
qed

lemma Reconcile_result:
  assumes "inv w" "Reconcile (NewReconciler T S) c txn w = (err, w')"
  shows "inv w' \<and> (txns w' = txns w \<or> (\<exists>t. txns w' = txns w @ [t] \<and> same_trade t txn))
    \<and> (rows w' = rows w \<and> (err = None \<longrightarrow>
          (\<exists>t \<in> set (txns w'). tx_EventID t = tx_EventID txn \<and> covered (rows w (tx_key t)) t))
       \<or> (\<exists>t u. t \<in> set (txns w') \<and> tx_EventID t = tx_EventID txn \<and> \<not> covered (rows w (tx_key t)) t
          \<and> applyTransaction (current (rows w) (tx_key t)) t = Inr u \<and> written (rows w) u (rows w')))"
proof -
  let ?R = "NewReconciler T S"
  obtain r1 w1 where i: "reconcile_insert ?R c txn w = (r1, w1)" by (metis prod.collapse)
  note k1 = reconcile_insert_result [OF assms(1) i]
  show ?thesis
  proof (cases r1)
    case (Inl e)
    then have "err = Some e \<and> w' = w1" using assms(2) i by (simp add: Reconcile_def)
    then show ?thesis using k1 by simp
  next
    case (Inr t)
    obtain r2 w2 where g: "reconcile_state ?R c t w1 = (r2, w2)" by (metis prod.collapse)
    have t: "t \<in> set (txns w1)" "tx_EventID t = tx_EventID txn" and i1: "inv w1" using k1 Inr by auto
    note k2 = reconcile_state_result [OF i1 g]
    note eq = assms(2) [unfolded Reconcile_def i Inr, simplified, unfolded g, simplified]
    show ?thesis
    proof (cases r2)
      case (Inl e)
      then have "err = Some e \<and> w' = w2" using eq by simp
      then show ?thesis using k1 k2 by simp
    next
      case (Inr st)
      then have st: "st = current (rows w2) (tx_key t)" using k2 by simp
      have cov: "(case rs_LastTransactionID st of None \<Rightarrow> False | Some i \<Rightarrow> sint i \<ge> sint (tx_ID t)) \<longleftrightarrow> covered (rows w2 (tx_key t)) t"
        by (auto simp: st covered_def current_def zero_state_def split: option.splits)
      have "inv w2" using k2 by simp
      from reconcile_finish [OF this eq [unfolded Inr, simplified, unfolded cov NewReconciler_sel] st]
      have fin: "inv w' \<and> txns w' = txns w1
        \<and> (rows w' = rows w \<and> (err = None \<longrightarrow> covered (rows w (tx_key t)) t)
           \<or> \<not> covered (rows w (tx_key t)) t
              \<and> (\<exists>u. applyTransaction (current (rows w) (tx_key t)) t = Inr u \<and> written (rows w) u (rows w')))"
        using k1 k2 by simp
      then have "txns w' = txns w \<or> (\<exists>t. txns w' = txns w @ [t] \<and> same_trade t txn)" "t \<in> set (txns w')"
        using k1 t by auto
      then show ?thesis using fin t(2) by blast
    qed
  qed
qed

text \<open>At most once: whatever fails, a row stays the replay of a subsequence of its key's ledger.\<close>

lemma Reconcile_derived:
  assumes "inv w" "derived (txns w) (rows w)" "Reconcile (NewReconciler T S) c txn w = (err, w')"
  shows "inv w' \<and> derived (txns w') (rows w')"
proof -
  note res = Reconcile_result [OF assms(1,3)]
  obtain more where grow: "txns w' = txns w @ more" using res by (metis append_Nil2)
  have mono: "subseq ts (of_key k (txns w'))" if "subseq ts (of_key k (txns w))" for k ts
    using that by (simp add: grow of_key_def subseq_rev_drop_many)
  show ?thesis
  proof (cases "rows w' = rows w")
    case True
    then show ?thesis using res assms(2) mono unfolding derived_def by metis
  next
    case False
    then obtain t u x where t: "t \<in> set (txns w')" "\<not> covered (rows w (tx_key t)) t"
        "applyTransaction (current (rows w) (tx_key t)) t = Inr u" "rows w' = (rows w)(rs_key u \<mapsto> u\<lparr>rs_UpdatedAt := x\<rparr>)"
      using res unfolding written_def by blast
    have key: "rs_key u = tx_key t"
      using applyTransaction_fields(1) [OF t(3)] rows_keyed [OF assms(1), of "tx_key t"]
      by (auto simp: current_def split: option.splits)
    have "\<exists>ts. subseq ts (of_key k (txns w')) \<and> reflects k ts (rows w' k)" for k
    proof -
      obtain ts where ts: "subseq ts (of_key k (txns w))" "reflects k ts (rows w k)" using assms(2) unfolding derived_def by blast
      show ?thesis
      proof (cases "k = tx_key t")
        case True
        have "sorted_wrt id_less (of_key k (txns w'))" "t \<in> set (of_key k (txns w'))"
          using ids_increase [of w'] res t(1) True by (simp_all add: of_key_def sorted_wrt_filter)
        then have "subseq (ts @ [t]) (of_key k (txns w'))"
          using mono [OF ts(1)] reflects_covered [OF ts(2), of t] t(2) True by (intro subseq_snoc) auto
        moreover have "reflects k (ts @ [t]) (rows w' k)"
          using reflects_snoc [where rs = "rows w" and k = k, OF ts(2), of t u x] t(3,4) key True by simp
        ultimately show ?thesis by blast
      next
        case False
        then show ?thesis using ts(2) mono [OF ts(1)] t(4) key by (intro exI [of _ ts]) simp
      qed
    qed
    then show ?thesis using res unfolding derived_def by blast
  qed
qed

text \<open>Exactly once: the key is settled, or only the event being delivered is still to be folded in.\<close>

lemma delivery_prefix:
  assumes "settled ledg rs (tx_key txn) \<or> pending ledg rs (tx_key txn) (tx_EventID txn)"
    "ledg' = ledg \<or> (\<exists>t. ledg' = ledg @ [t] \<and> same_trade t txn)" "distinct (map tx_EventID ledg')"
  obtains pre where "reflects (tx_key txn) pre (rs (tx_key txn))"
    "of_key (tx_key txn) ledg' = pre \<or> (\<exists>t. of_key (tx_key txn) ledg' = pre @ [t] \<and> tx_EventID t = tx_EventID txn)"
proof (cases "settled ledg rs (tx_key txn)")
  case True
  then show thesis
    using assms(2) by (intro that [of "of_key (tx_key txn) ledg"])
      (auto simp: settled_def of_key_def tx_key_def same_trade_def)
next
  case False
  then obtain pre t where p: "of_key (tx_key txn) ledg = pre @ [t]" "tx_EventID t = tx_EventID txn"
      "reflects (tx_key txn) pre (rs (tx_key txn))"
    using assms(1) by (auto simp: pending_def)
  have "t \<in> set ledg" using p(1) by (metis filter_is_subset in_set_conv_decomp of_key_def subsetD)
  then have "tx_EventID txn \<in> tx_EventID ` set ledg" using p(2) by (metis imageI)
  then have "ledg' = ledg" using assms(2,3) by (auto simp: same_trade_def)
  then show thesis using p by (intro that [of pre]) auto
qed

lemma apply_key:
  assumes "inv w" "applyTransaction (current (rows w) k) t = Inr u"
  shows "rs_key u = k"
  using applyTransaction_fields(1) [OF assms(2)] rows_keyed [OF assms(1), of k]
  by (auto simp: current_def split: option.splits)

lemma Reconcile_settles:
  assumes "inv w" "\<forall>t \<in> set (txns w). tx_EventID t = tx_EventID txn \<longrightarrow> same_trade t txn"
    and start: "settled (txns w) (rows w) (tx_key txn) \<or> pending (txns w) (rows w) (tx_key txn) (tx_EventID txn)"
    and run: "Reconcile (NewReconciler T S) c txn w = (err, w')"
  shows "(err = None \<longrightarrow> settled (txns w') (rows w') (tx_key txn) \<and> tx_EventID txn \<in> tx_EventID ` set (txns w'))
    \<and> (settled (txns w') (rows w') (tx_key txn) \<or> pending (txns w') (rows w') (tx_key txn) (tx_EventID txn))"
proof -
  let ?k = "tx_key txn"
  note res = Reconcile_result [OF assms(1) run]
  have inv': "inv w'" using res by simp
  have same: "same_trade t txn" if "t \<in> set (txns w')" "tx_EventID t = tx_EventID txn" for t
    using res that assms(2) by auto
  then have key: "tx_key t = ?k" if "t \<in> set (txns w')" "tx_EventID t = tx_EventID txn" for t
    using that by (auto simp: tx_key_def same_trade_def)
  have uniq: "t = t'" if "t \<in> set (txns w')" "t' \<in> set (txns w')" "tx_EventID t = tx_EventID t'" for t t'
    using events_distinct [OF inv'] that by (auto simp: distinct_map inj_on_def)
  have sorted: "sorted_wrt id_less (of_key ?k (txns w'))"
    using ids_increase [OF inv'] by (simp add: of_key_def sorted_wrt_filter)
  obtain pre where pre: "reflects ?k pre (rows w ?k)"
      "of_key ?k (txns w') = pre \<or> (\<exists>t. of_key ?k (txns w') = pre @ [t] \<and> tx_EventID t = tx_EventID txn)"
    using delivery_prefix [OF start] res events_distinct [OF inv'] by metis
  have mem: "t \<in> set (of_key ?k (txns w'))" if "t \<in> set (txns w')" "tx_EventID t = tx_EventID txn" for t
    using that key by (simp add: of_key_def)
  show ?thesis
  proof (cases "of_key ?k (txns w') = pre")
    case True
    have cov: "covered (rows w ?k) t" if "t \<in> set (txns w')" "tx_EventID t = tx_EventID txn" for t
      using reflects_covered [OF pre(1), of t] mem [OF that] sorted sorted_last [of pre t] True by (auto simp: id_less_def)
    then have "rows w' = rows w" using res key by metis
    moreover have "err = None \<longrightarrow> tx_EventID txn \<in> tx_EventID ` set (txns w')" using res by (metis imageI)
    ultimately show ?thesis using pre(1) True by (simp add: settled_def)
  next
    case False
    then obtain t where t: "of_key ?k (txns w') = pre @ [t]" "tx_EventID t = tx_EventID txn" using pre(2) by blast
    then have tm: "t \<in> set (txns w')" by (metis filter_is_subset in_set_conv_decomp of_key_def subsetD)
    have "\<not> covered (rows w ?k) t"
      using reflects_covered [OF pre(1), of t] sorted t(1) by (auto simp: sorted_wrt_append)
    then have "rows w' = rows w \<and> err \<noteq> None \<or>
        (\<exists>u. applyTransaction (current (rows w) ?k) t = Inr u \<and> written (rows w) u (rows w'))"
      using res uniq [OF tm] key [OF tm t(2)] t(2) by metis
    then show ?thesis
    proof
      assume "rows w' = rows w \<and> err \<noteq> None"
      then show ?thesis using pre(1) t unfolding pending_def by auto
    next
      assume "\<exists>u. applyTransaction (current (rows w) ?k) t = Inr u \<and> written (rows w) u (rows w')"
      then obtain u x where u: "applyTransaction (current (rows w) ?k) t = Inr u"
        "rows w' = (rows w)(rs_key u \<mapsto> u\<lparr>rs_UpdatedAt := x\<rparr>)" unfolding written_def by blast
      have "rs_key u = ?k" using apply_key [OF assms(1) u(1)] .
      then have "settled (txns w') (rows w') ?k"
        using reflects_snoc [where rs = "rows w" and k = ?k, OF pre(1) u(1)] u(2) t(1) by (simp add: settled_def)
      then show ?thesis using tm t(2) by (metis imageI)
    qed
  qed
qed

lemma Reconcile_frame:
  assumes "inv w" "\<forall>t \<in> set (txns w). tx_EventID t = tx_EventID txn \<longrightarrow> same_trade t txn"
    and run: "Reconcile (NewReconciler T S) c txn w = (err, w')" and k: "k \<noteq> tx_key txn"
  shows "of_key k (txns w') = of_key k (txns w) \<and> rows w' k = rows w k"
proof -
  note res = Reconcile_result [OF assms(1) run]
  have key: "tx_key t = tx_key txn" if "t \<in> set (txns w')" "tx_EventID t = tx_EventID txn" for t
    using res that assms(2) by (auto simp: tx_key_def same_trade_def)
  have "rows w' k = rows w k"
  proof (cases "rows w' = rows w")
    case False
    then obtain t u where "t \<in> set (txns w')" "tx_EventID t = tx_EventID txn"
        "applyTransaction (current (rows w) (tx_key t)) t = Inr u" "written (rows w) u (rows w')"
      using res by blast
    then show ?thesis using key k apply_key [OF assms(1)] unfolding written_def by (metis fun_upd_apply)
  qed simp
  moreover have "of_key k (txns w') = of_key k (txns w)"
    using res k by (auto simp: of_key_def tx_key_def same_trade_def)
  ultimately show ?thesis by simp
qed

text \<open>Between the first and the last try of an event.\<close>

definition mid :: "Transaction set \<Rightarrow> UUID list \<Rightarrow> Transaction \<Rightarrow> 'w \<Rightarrow> bool" where
  "mid A events txn w \<longleftrightarrow> inv w \<and> (\<forall>k. k \<noteq> tx_key txn \<longrightarrow> settled (txns w) (rows w) k)
     \<and> (settled (txns w) (rows w) (tx_key txn) \<or> pending (txns w) (rows w) (tx_key txn) (tx_EventID txn))
     \<and> map tx_EventID (txns w) \<in> {events, note_event events (tx_EventID txn)}
     \<and> (\<forall>t \<in> set (txns w). \<exists>u \<in> A. same_trade t u)"

definition all_settled :: "Transaction set \<Rightarrow> UUID list \<Rightarrow> 'w \<Rightarrow> bool" where
  "all_settled A events w \<longleftrightarrow> inv w \<and> (\<forall>k. settled (txns w) (rows w) k) \<and> map tx_EventID (txns w) = events
     \<and> (\<forall>t \<in> set (txns w). \<exists>u \<in> A. same_trade t u)"

lemma mid_step:
  assumes "consistent A" "txn \<in> A" "mid A events txn w" "Reconcile (NewReconciler T S) c txn w = (err, w')"
  shows "mid A events txn w' \<and> (err = None \<longrightarrow> all_settled A (note_event events (tx_EventID txn)) w')"
proof -
  have i: "inv w" and A: "\<forall>t \<in> set (txns w). \<exists>u \<in> A. same_trade t u" using assms(3) by (auto simp: mid_def)
  have same: "\<forall>t \<in> set (txns w). tx_EventID t = tx_EventID txn \<longrightarrow> same_trade t txn"
    using A assms(1,2) unfolding consistent_def same_trade_def by metis
  note res = Reconcile_result [OF i assms(4)]
  have st: "settled (txns w) (rows w) (tx_key txn) \<or> pending (txns w) (rows w) (tx_key txn) (tx_EventID txn)"
    using assms(3) unfolding mid_def by blast
  note set = Reconcile_settles [OF i same st assms(4)] and fr = Reconcile_frame [OF i same assms(4)]
  have other: "settled (txns w') (rows w') k" if "k \<noteq> tx_key txn" for k
    using fr [OF that] assms(3) that unfolding mid_def settled_def by metis
  have A': "\<forall>t \<in> set (txns w'). \<exists>u \<in> A. same_trade t u" using res A assms(2) by auto
  have dist: "distinct (map tx_EventID (txns w'))" using events_distinct res by blast
  have ev: "map tx_EventID (txns w') \<in> {events, note_event events (tx_EventID txn)}"
  proof (cases "txns w' = txns w")
    case True
    then show ?thesis using assms(3) by (simp add: mid_def)
  next
    case False
    then have app: "map tx_EventID (txns w') = map tx_EventID (txns w) @ [tx_EventID txn]"
      using res by (auto simp: same_trade_def)
    then have new: "tx_EventID txn \<notin> set (map tx_EventID (txns w))"
      using dist unfolding app by (simp only: distinct_append) simp
    have "tx_EventID txn \<in> set (note_event events (tx_EventID txn))" by (simp add: note_event_def)
    moreover have "map tx_EventID (txns w) = events \<or> map tx_EventID (txns w) = note_event events (tx_EventID txn)"
      using assms(3) by (simp add: mid_def)
    ultimately have "map tx_EventID (txns w) = events" using new by metis
    then show ?thesis using app new by (simp add: note_event_def)
  qed
  have "mid A events txn w'" using res other set ev A' unfolding mid_def by blast
  moreover have "all_settled A (note_event events (tx_EventID txn)) w'" if "err = None"
  proof -
    have "tx_EventID txn \<in> set (map tx_EventID (txns w'))" using set that by simp
    then have "map tx_EventID (txns w') = note_event events (tx_EventID txn)" using ev by (auto simp: note_event_def)
    then show ?thesis using res other set A' that unfolding all_settled_def by metis
  qed
  ultimately show ?thesis by blast
qed

lemma mid_start: "all_settled A events w \<Longrightarrow> mid A events txn w"
  unfolding all_settled_def mid_def by blast

lemma deliver_settles:
  assumes "consistent A" "txn \<in> A" "mid A events txn w" "deliver (NewReconciler T S) cs txn w = (True, w')"
  shows "all_settled A (note_event events (tx_EventID txn)) w'"
  using assms(3,4)
proof (induction cs arbitrary: w)
  case (Cons c cs)
  obtain err w1 where r: "Reconcile (NewReconciler T S) c txn w = (err, w1)" by (metis prod.collapse)
  note step = mid_step [OF assms(1,2) Cons.prems(1) r]
  show ?case
  proof (cases err)
    case None
    then show ?thesis using step Cons.prems(2) r by simp
  next
    case (Some e)
    then show ?thesis using step Cons.prems(2) r Cons.IH [of w1] by simp
  qed
qed simp

lemma deliver_all_settles:
  assumes "consistent A" "snd ` set ds \<subseteq> A" "all_settled A events w" "deliver_all (NewReconciler T S) ds w = (True, w')"
  shows "all_settled A (first_events ds events) w'"
  using assms(2-4)
proof (induction ds arbitrary: w events)
  case (Cons d ds)
  obtain cs txn where d: "d = (cs, txn)" by (cases d)
  obtain ok w1 where r: "deliver (NewReconciler T S) cs txn w = (ok, w1)" by (metis prod.collapse)
  then have ok: "ok" "deliver_all (NewReconciler T S) ds w1 = (True, w')"
    using Cons.prems(3) d by (cases ok; simp)+
  have "all_settled A (note_event events (tx_EventID txn)) w1"
    using deliver_settles [OF assms(1) _ mid_start [OF Cons.prems(2)]] r ok(1) Cons.prems(1) d by auto
  then show ?case using Cons.IH [OF _ _ ok(2)] Cons.prems(1) d by (simp add: first_events_def)
qed (simp add: first_events_def)

lemma Reconcile_redelivery:
  assumes "inv w" "\<forall>t \<in> set (txns w). tx_EventID t = tx_EventID txn \<longrightarrow> same_trade t txn"
    "settled (txns w) (rows w) (tx_key txn)" "tx_EventID txn \<in> tx_EventID ` set (txns w)"
    "Reconcile (NewReconciler T S) c txn w = (err, w')"
  shows "txns w' = txns w \<and> rows w' = rows w"
proof -
  note res = Reconcile_result [OF assms(1,5)]
  have "distinct (map tx_EventID (txns w'))" using events_distinct res by blast
  then have t: "txns w' = txns w" using res assms(4) by (auto simp: same_trade_def)
  have "covered (rows w (tx_key t)) t" if "t \<in> set (txns w)" "tx_EventID t = tx_EventID txn" for t
  proof -
    have k: "tx_key t = tx_key txn" using assms(2) that by (simp add: tx_key_def same_trade_def)
    have "sorted_wrt id_less (of_key (tx_key txn) (txns w))" "t \<in> set (of_key (tx_key txn) (txns w))"
      using ids_increase [OF assms(1)] that k by (simp_all add: of_key_def sorted_wrt_filter)
    then show ?thesis
      using reflects_covered [OF assms(3) [unfolded settled_def], of t] sorted_last unfolding k by (fastforce simp: id_less_def)
  qed
  then show ?thesis using res t by metis
qed

end

section \<open>The processor as it is wired\<close>

definition reconciler :: "('a world_scheme) Reconciler" where
  "reconciler = NewReconciler transactions reconciledStates"

definition reconcile_step :: "'a world_scheme \<Rightarrow> 'a world_scheme \<Rightarrow> bool" where
  "reconcile_step w w' \<longleftrightarrow> (\<exists>c txn err. Reconcile reconciler c txn w = (err, w'))"

lemma reconcile_run_derived:
  "reconcile_step\<^sup>*\<^sup>* w w' \<Longrightarrow> db_inv w \<Longrightarrow> derived (db_transactions w) (db_states w)
    \<Longrightarrow> db_inv w' \<and> derived (db_transactions w') (db_states w')"
proof (induction rule: rtranclp_induct)
  case (step y z)
  then obtain c txn err where "Reconcile reconciler c txn y = (err, z)" by (auto simp: reconcile_step_def)
  then show ?case using wpg.Reconcile_derived step unfolding reconciler_def by blast
qed simp

lemma derived_empty: "derived ledg Map.empty"
  by (auto simp: derived_def reflects_def intro!: exI [of _ "[]"])

section \<open>A healthy database\<close>

text \<open>No pending faults, both breakers closed.\<close>

definition healthy :: "'a world_scheme \<Rightarrow> bool" where
  "healthy w \<longleftrightarrow> db_script w = [] \<and> m_state (w_txn_machine w) = Closed \<and> m_state (w_state_machine w) = Closed"

definition acceptable :: "'a world_scheme \<Rightarrow> Transaction \<Rightarrow> bool" where
  "acceptable w txn \<longleftrightarrow> db_text_ok w (tx_TenantID txn) \<and> db_text_ok w (tx_Instrument txn) \<and> db_text_ok w (tx_Side txn)
     \<and> db_text_ok w (tx_Currency txn) \<and> length (tx_Currency txn) = 3 \<and> wf_trade txn
     \<and> db_next_id w \<le> nat max_int64 \<and> tx_EventID txn \<notin> tx_EventID ` set (db_transactions w)"

definition reset :: "Machine \<Rightarrow> Machine" where
  "reset m = m\<lparr>m_consecutiveFailures := 0\<rparr>"

lemma reset_reset [simp]: "reset (reset m) = reset m"
  by (simp add: reset_def)

lemma rec_States_reconciler [simp]: "rec_States reconciler = reconciledStates"
  by (simp add: reconciler_def)

lemma Record_reset: "m_state m = Closed \<Longrightarrow> Record now None m = reset m"
  by (simp add: Record_def reset_def)

lemma healthy_call:
  assumes "Allow (m_now ref w) (m_get ref w) = ((True, False), m_get ref w)" "m_set ref (m_get ref w) w = w"
    "call ctx w = (r, w2)"
  shows "guarded ref ctx call err ignored rejected w
    = (r, record_at ref (if ignoredForBreaker (err r) ignored then None else err r) w2)"
  using assms by (simp add: guarded_def allow_at_def ProbeContext_def)

lemma healthy_Insert:
  assumes "healthy w" "acceptable w txn"
  defines "row \<equiv> inserted_row w quiet (db_next_id w) (tx_Currency txn) txn"
  shows "Insert transactions None txn w = (Inr row, w\<lparr>db_next_id := db_next_id w + 1,
    db_transactions := db_transactions w @ [row], w_txn_machine := reset (w_txn_machine w)\<rparr>)"
proof -
  have st: "TransactionStore_Insert None txn w
      = (Inr row, w\<lparr>db_next_id := db_next_id w + 1, db_transactions := db_transactions w @ [row]\<rparr>)"
    using assms(1,2) unfolding row_def
    by (simp add: healthy_def acceptable_def wf_trade_def pool_run_quiet TransactionStore_Insert_def
        sql_insert_transaction_def char3_def quiet_def Let_def SideBuy_def SideSell_def not_less not_le)
  show ?thesis
    unfolding transactions_def as_TransactionRepository_def TransactionRepository.simps guarded_methods
      TransactionRepositoryBreaker.simps
    by (subst healthy_call [where r = "Inr row"])
      (use assms(1) st in \<open>auto simp: healthy_def txn_ref_def Allow_simps TransactionStore_def record_at_def Record_reset\<close>)
qed

lemma healthy_Get:
  assumes "healthy w" "db_text_ok w t" "db_text_ok w i"
  shows "Get reconciledStates None t i w = (case db_states w (t, i) of None \<Rightarrow> Inl ErrNotFound | Some st \<Rightarrow> Inr st,
    w\<lparr>w_state_machine := reset (w_state_machine w)\<rparr>)"
proof -
  let ?r = "case db_states w (t, i) of None \<Rightarrow> Inl ErrNotFound | Some st \<Rightarrow> Inr st"
  have st: "ReconciledStateStore_Get None t i w = (?r, w)"
    using assms by (auto simp: healthy_def pool_run_quiet ReconciledStateStore_Get_def sql_select_state_def split: option.splits)
  show ?thesis
    unfolding reconciledStates_def as_ReconciledStateRepository_def ReconciledStateRepository.simps guarded_methods
      ReconciledStateRepositoryBreaker.simps
    by (subst healthy_call [where r = ?r])
      (use assms(1) st in \<open>auto simp: healthy_def state_ref_def Allow_simps ReconciledStateStore_def record_at_def
        Record_reset split: option.splits\<close>)
qed

lemma healthy_Upsert:
  assumes "healthy w" "db_text_ok w (rs_TenantID st)" "db_text_ok w (rs_Instrument st)"
    "advances (db_states w (rs_key st)) st" "\<forall>i. rs_LastTransactionID st = Some i \<longrightarrow> i \<in> tx_ID ` set (db_transactions w)"
  shows "Upsert reconciledStates None st w = (None, w\<lparr>db_states := (db_states w)(rs_key st \<mapsto>
    st\<lparr>rs_UpdatedAt := db_timestamptz w 0\<rparr>), w_state_machine := reset (w_state_machine w)\<rparr>)"
proof -
  have st: "ReconciledStateStore_Upsert None st w = (None, w\<lparr>db_states := (db_states w)(rs_key st \<mapsto>
      st\<lparr>rs_UpdatedAt := db_timestamptz w 0\<rparr>)\<rparr>)"
    using assms by (auto simp: healthy_def pool_run_quiet ReconciledStateStore_Upsert_def sql_upsert_state_def
        upsert_where_advances rs_key_def quiet_def split: option.splits)
  show ?thesis
    unfolding reconciledStates_def as_ReconciledStateRepository_def ReconciledStateRepository.simps guarded_methods
      ReconciledStateRepositoryBreaker.simps
    by (subst healthy_call [where r = None])
      (use assms(1) st in \<open>auto simp: healthy_def state_ref_def Allow_simps ReconciledStateStore_def record_at_def Record_reset\<close>)
qed

lemma stored_id:
  assumes "db_next_id w \<le> nat max_int64"
  shows "sint (tx_ID (inserted_row w c (db_next_id w) cur txn)) = int (db_next_id w)"
  using sint_of_nat64 [OF assms] by (simp add: inserted_row_def)

lemma new_row_uncovered:
  assumes "db_inv w" "db_next_id w \<le> nat max_int64"
  shows "\<not> covered (db_states w k) (inserted_row w c (db_next_id w) cur txn)"
proof (cases "db_states w k")
  case (Some st)
  have "sint i < int (db_next_id w)" if "rs_LastTransactionID st = Some i" for i
  proof -
    have "i \<in> tx_ID ` set (db_transactions w)" using assms(1) Some that unfolding db_inv_def by blast
    then show ?thesis using assms(1) unfolding db_inv_def by auto
  qed
  then show ?thesis
    using Some stored_id [OF assms(2)] by (auto simp: covered_def not_le split: option.splits)
qed (simp add: covered_def)

lemma healthy_Reconcile:
  assumes "healthy w" "db_inv w" "acceptable w txn"
  defines "row \<equiv> inserted_row w quiet (db_next_id w) (tx_Currency txn) txn"
  assumes ap: "applyTransaction (current (db_states w) (tx_key txn)) row = Inr u"
  shows "Reconcile reconciler None txn w = (None, w\<lparr>db_next_id := db_next_id w + 1,
    db_transactions := db_transactions w @ [row],
    db_states := (db_states w)(tx_key txn \<mapsto> u\<lparr>rs_UpdatedAt := db_timestamptz w 0\<rparr>),
    w_txn_machine := reset (w_txn_machine w), w_state_machine := reset (w_state_machine w)\<rparr>)"
proof -
  let ?w1 = "w\<lparr>db_next_id := db_next_id w + 1, db_transactions := db_transactions w @ [row],
    w_txn_machine := reset (w_txn_machine w)\<rparr>"
  let ?w2 = "?w1\<lparr>w_state_machine := reset (w_state_machine w)\<rparr>"
  have key: "tx_key row = tx_key txn" "(tx_TenantID row, tx_Instrument row) = tx_key txn"
    by (simp_all add: row_def inserted_row_def tx_key_def)
  have texts: "db_text_ok w (tx_TenantID row)" "db_text_ok w (tx_Instrument row)"
    using assms(3) by (simp_all add: acceptable_def row_def inserted_row_def)
  have h: "healthy ?w1" "healthy ?w2" using assms(1) by (simp_all add: healthy_def reset_def)
  have ins: "reconcile_insert reconciler None txn w = (Inr row, ?w1)"
    using healthy_Insert [OF assms(1,3)] by (simp add: reconcile_insert_def reconciler_def row_def)
  have get: "reconcile_state reconciler None row ?w1 = (Inr (current (db_states w) (tx_key txn)), ?w2)"
    using healthy_Get [OF h(1), of "tx_TenantID row" "tx_Instrument row"] texts key(2)
    by (simp add: reconcile_state_def reconciler_def current_def split: option.splits)
  have unc: "\<not> covered (db_states w (tx_key txn)) row"
    using new_row_uncovered [OF assms(2)] assms(3) by (simp add: row_def acceptable_def)
  have u: "rs_key u = tx_key txn" "rs_LastTransactionID u = Some (tx_ID row)"
    using wpg.apply_key [OF assms(2) ap] applyTransaction_fields(2) [OF ap] .
  have "Upsert reconciledStates None u ?w2 = (None, ?w2\<lparr>db_states := (db_states w)(tx_key txn \<mapsto>
      u\<lparr>rs_UpdatedAt := db_timestamptz w 0\<rparr>), w_state_machine := reset (reset (w_state_machine w))\<rparr>)"
    using healthy_Upsert [OF h(2), of u] texts u uncovered_advances [OF unc u(2)] key
    by (simp add: rs_key_def tx_key_def)
  moreover have "\<not> (case rs_LastTransactionID (current (db_states w) (tx_key txn)) of None \<Rightarrow> False | Some i \<Rightarrow> sint i \<ge> sint (tx_ID row))"
    using unc by (auto simp: covered_def current_def zero_state_def split: option.splits)
  ultimately show ?thesis
    unfolding Reconcile_def ins prod.case sum.case get using ap by simp
qed

lemma healthy_Insert_duplicate:
  assumes "healthy w" "acceptable (w\<lparr>db_transactions := []\<rparr>) txn" "tx_EventID txn \<in> tx_EventID ` set (db_transactions w)"
  shows "Insert transactions None txn w = (Inl ErrDuplicateEvent,
    w\<lparr>db_next_id := db_next_id w + 1, w_txn_machine := reset (w_txn_machine w)\<rparr>)"
proof -
  have st: "TransactionStore_Insert None txn w = (Inl ErrDuplicateEvent, w\<lparr>db_next_id := db_next_id w + 1\<rparr>)"
    using assms
    by (simp add: healthy_def acceptable_def wf_trade_def pool_run_quiet TransactionStore_Insert_def
        sql_insert_transaction_def char3_def quiet_def Let_def SideBuy_def SideSell_def not_less not_le)
  show ?thesis
    unfolding transactions_def as_TransactionRepository_def TransactionRepository.simps guarded_methods
      TransactionRepositoryBreaker.simps
    by (subst healthy_call [where r = "Inl ErrDuplicateEvent"])
      (use assms(1) st in \<open>auto simp: healthy_def txn_ref_def Allow_simps TransactionStore_def record_at_def Record_reset\<close>)
qed

lemma healthy_GetByEventID:
  assumes "healthy w" "db_inv w" "t \<in> set (db_transactions w)"
  shows "GetByEventID transactions None (tx_EventID t) w = (Inr t, w\<lparr>w_txn_machine := reset (w_txn_machine w)\<rparr>)"
proof -
  obtain t' where f: "find (\<lambda>u. tx_EventID u = tx_EventID t) (db_transactions w) = Some t'"
    using assms(3) find_None_iff [of "\<lambda>u. tx_EventID u = tx_EventID t" "db_transactions w"]
    by (cases "find (\<lambda>u. tx_EventID u = tx_EventID t) (db_transactions w)") auto
  then have "t' \<in> set (db_transactions w)" "tx_EventID t' = tx_EventID t" by (auto simp: find_Some_iff)
  then have "t' = t" using db_inv_facts(2) [OF assms(2)] assms(3) by (auto simp: distinct_map inj_on_def)
  then have st: "TransactionStore_GetByEventID None (tx_EventID t) w = (Inr t, w)"
    using assms(1) f by (simp add: healthy_def pool_run_quiet TransactionStore_GetByEventID_def sql_select_by_event_def)
  show ?thesis
    unfolding transactions_def as_TransactionRepository_def TransactionRepository.simps guarded_methods
      TransactionRepositoryBreaker.simps
    by (subst healthy_call [where r = "Inr t"])
      (use assms(1) st in \<open>auto simp: healthy_def txn_ref_def Allow_simps TransactionStore_def record_at_def Record_reset\<close>)
qed

lemma healthy_redelivery:
  assumes "healthy w" "db_inv w" "acceptable (w\<lparr>db_transactions := []\<rparr>) txn" "t \<in> set (db_transactions w)"
    "tx_EventID t = tx_EventID txn" "tx_key t = tx_key txn" "covered (db_states w (tx_key txn)) t"
  shows "Reconcile reconciler None txn w = (None, w\<lparr>db_next_id := db_next_id w + 1,
    w_txn_machine := reset (w_txn_machine w), w_state_machine := reset (w_state_machine w)\<rparr>)"
proof -
  let ?w1 = "w\<lparr>db_next_id := db_next_id w + 1, w_txn_machine := reset (w_txn_machine w)\<rparr>"
  have h: "healthy ?w1" "db_inv ?w1" "t \<in> set (db_transactions ?w1)"
    using assms(1,2,4) by (simp_all add: healthy_def reset_def db_inv_next_id)
  have "tx_EventID txn \<in> tx_EventID ` set (db_transactions w)" using assms(4,5) by (metis imageI)
  then have ins: "reconcile_insert reconciler None txn w = (Inr t, ?w1)"
    using healthy_Insert_duplicate [OF assms(1,3)] healthy_GetByEventID [OF h] assms(5)
    by (simp add: reconcile_insert_def reconciler_def)
  obtain st where st: "db_states w (tx_key txn) = Some st"
      "case rs_LastTransactionID st of None \<Rightarrow> False | Some i \<Rightarrow> sint i \<ge> sint (tx_ID t)"
    using assms(7) by (auto simp: covered_def split: option.splits)
  have "db_text_ok w (tx_TenantID t)" "db_text_ok w (tx_Instrument t)"
    using assms(3,6) by (simp_all add: acceptable_def tx_key_def)
  then have get: "reconcile_state reconciler None t ?w1 = (Inr st, ?w1\<lparr>w_state_machine := reset (w_state_machine w)\<rparr>)"
    using healthy_Get [OF h(1), of "tx_TenantID t" "tx_Instrument t"] st(1) assms(6)
    by (simp add: reconcile_state_def reconciler_def tx_key_def)
  show ?thesis
    unfolding Reconcile_def ins prod.case sum.case get using st(2) by simp
qed

section \<open>A small run\<close>

abbreviation demo_key :: statekey where "demo_key \<equiv> (''acme'', ''BTC'')"

definition demo_buy :: "UUID \<Rightarrow> Transaction" where
  "demo_buy event = demo_txn event ''BUY'' 100000000 100000000"

definition demo_row :: "UUID \<Rightarrow> int64 \<Rightarrow> Transaction" where
  "demo_row event i = (demo_buy event)\<lparr>tx_ID := i\<rparr>"

definition demo_long :: "int64 \<Rightarrow> ReconciledState" where
  "demo_long i = (zero_state demo_key)\<lparr>rs_AverageCost := 100000000, rs_Position := 100000000, rs_LastTransactionID := Some i\<rparr>"

definition demo_applied :: world where
  "demo_applied = demo_world\<lparr>db_next_id := 2, db_transactions := [demo_row 1 1], db_states := [demo_key \<mapsto> demo_long 1]\<rparr>"

definition demo_stored :: world where
  "demo_stored = demo_world\<lparr>db_next_id := 2, db_transactions := [demo_row 1 1]\<rparr>"

lemma apply_demo: "applyTransaction (zero_state demo_key) (demo_row event i) = Inr (demo_long i)"
proof -
  have "MulAmount 0 0 = Inr 0" "MulAmount 100000000 100000000 = Inr 100000000"
    "DivAmount 100000000 100000000 = Inr 100000000"
    by (simp_all add: MulAmount_Inr_iff DivAmount_Inr_iff sdiv_nonneg)
  then show ?thesis
    by (simp add: applyTransaction_def applyBuy_def applyTrade_def demo_row_def demo_buy_def demo_txn_def
        demo_long_def zero_state_def SideBuy_def)
qed

lemma key_demo [simp]: "tx_key (demo_buy event) = demo_key" "tx_key (demo_row event i) = demo_key"
  by (simp_all add: tx_key_def demo_row_def demo_buy_def demo_txn_def)

lemmas demo_world_eval = demo_world_def demo_machine_def demo_config_def

lemma demo_machine_reset [simp]: "reset demo_machine = demo_machine"
  by (simp add: reset_def demo_machine_def)

lemma demo_facts:
  "healthy demo_world" "healthy demo_stored" "healthy demo_applied"
  "db_inv demo_world" "db_inv demo_stored" "db_inv demo_applied"
  "acceptable demo_world (demo_buy event)" "event \<noteq> 1 \<Longrightarrow> acceptable demo_stored (demo_buy event)"
  by (auto simp: healthy_def demo_stored_def demo_applied_def demo_world_eval db_inv_def acceptable_def demo_buy_def
      demo_row_def demo_txn_def wf_trade_def SideBuy_def demo_long_def zero_state_def rs_key_def split: if_splits)

lemma demo_inserted:
  "inserted_row demo_world quiet 1 (tx_Currency (demo_buy event)) (demo_buy event) = demo_row event 1"
  "inserted_row demo_stored quiet 2 (tx_Currency (demo_buy event)) (demo_buy event) = demo_row event 2"
  by (simp_all add: inserted_row_def demo_world_eval demo_stored_def demo_row_def demo_buy_def demo_txn_def quiet_def)

lemma Reconcile_demo: "Reconcile reconciler None (demo_buy 1) demo_world = (None, demo_applied)"
proof -
  have "applyTransaction (current (db_states demo_world) (tx_key (demo_buy 1)))
      (inserted_row demo_world quiet (db_next_id demo_world) (tx_Currency (demo_buy 1)) (demo_buy 1)) = Inr (demo_long 1)"
    using apply_demo demo_inserted(1) by (simp add: current_def demo_world_def)
  from healthy_Reconcile [OF demo_facts(1,4,7) this] show ?thesis
    using demo_inserted(1) [of 1] by (simp add: demo_applied_def demo_world_def demo_long_def zero_state_def)
qed

section \<open>Properties\<close>

text \<open>
  C2. At most once. Start from empty reconciled rows and let any calls to \<open>Reconcile\<close> follow, in any
  order, redelivered or not, with any database failures and breaker trips in between: every row is
  the replay of a subsequence of the ledger entries of its tenant and instrument, in id order. No
  transaction is ever counted twice, and nothing but ledger entries moves a position.
\<close>

theorem at_most_once:
  assumes "db_inv w" "db_states w = Map.empty" "reconcile_step\<^sup>*\<^sup>* w w'" "db_states w' k = Some st"
  shows "\<exists>ts. ts \<noteq> [] \<and> subseq ts (filter (\<lambda>t. (tx_TenantID t, tx_Instrument t) = k) (db_transactions w'))
    \<and> replay (zero_state k) ts = Inr (st\<lparr>rs_UpdatedAt := 0\<rparr>)"
proof -
  have "derived (db_transactions w') (db_states w')"
    using reconcile_run_derived [OF assms(3,1)] derived_empty assms(2) by simp
  then obtain ts where "subseq ts (of_key k (db_transactions w'))" "reflects k ts (Some st)"
    unfolding derived_def using assms(4) by metis
  then show ?thesis by (auto simp: reflects_def of_key_def tx_key_def untimed_def)
qed

theorem at_most_once_witness:
  "\<exists>ts. ts \<noteq> [] \<and> subseq ts (filter (\<lambda>t. (tx_TenantID t, tx_Instrument t) = demo_key) (db_transactions demo_applied))
    \<and> replay (zero_state demo_key) ts = Inr ((demo_long 1)\<lparr>rs_UpdatedAt := 0\<rparr>)"
proof (rule at_most_once)
  show "reconcile_step\<^sup>*\<^sup>* demo_world demo_applied"
    by (rule r_into_rtranclp) (use Reconcile_demo in \<open>auto simp: reconcile_step_def\<close>)
qed (use demo_facts(4) in \<open>simp_all add: demo_world_def demo_applied_def\<close>)

text \<open>
  C1. Exactly once. When events are delivered in order, each retried until \<open>Reconcile\<close> returns nil
  before the next one starts, then whatever failed along the way (including writes that took effect
  although the client saw an error) and however often events are redelivered, the ledger holds every
  delivered event once, in the order of first delivery, and every reconciled row is the replay of
  exactly the ledger entries of its key.
\<close>

theorem exactly_once:
  assumes "db_inv w" "db_transactions w = []" "db_states w = Map.empty" "consistent (snd ` set ds)"
    "deliver_all reconciler ds w = (True, w')"
  shows "map tx_EventID (db_transactions w') = first_events ds []
    \<and> (\<forall>t \<in> set (db_transactions w'). \<exists>u \<in> snd ` set ds. same_trade t u)
    \<and> (\<forall>k. reflects k (of_key k (db_transactions w')) (db_states w' k))"
proof -
  let ?A = "snd ` set ds"
  have "wpg.all_settled ?A [] w"
    using assms(1-3) by (simp add: wpg.all_settled_def settled_def reflects_def of_key_def)
  then have "wpg.all_settled ?A (first_events ds []) w'"
    using wpg.deliver_all_settles [OF assms(4) subset_refl] assms(5) unfolding reconciler_def by blast
  then show ?thesis by (simp add: wpg.all_settled_def settled_def)
qed

theorem exactly_once_witness:
  "map tx_EventID (db_transactions demo_applied) = first_events [([None], demo_buy 1)] []
    \<and> reflects demo_key (of_key demo_key (db_transactions demo_applied)) (db_states demo_applied demo_key)"
proof -
  have "deliver_all reconciler [([None], demo_buy 1)] demo_world = (True, demo_applied)"
    using Reconcile_demo by simp
  then show ?thesis
    using exactly_once [of demo_world "[([None], demo_buy 1)]" demo_applied] demo_facts(4)
    by (simp add: demo_world_def consistent_def same_trade_def)
qed

text \<open>
  Redelivery is a no-op: once an event is in the ledger and its key is settled, delivering the
  event again changes neither table, whether the call succeeds or fails.
\<close>

theorem redelivery_no_op:
  assumes "db_inv w" "tx_EventID txn \<in> tx_EventID ` set (db_transactions w)"
    "\<forall>t \<in> set (db_transactions w). tx_EventID t = tx_EventID txn \<longrightarrow> same_trade t txn"
    "settled (db_transactions w) (db_states w) (tx_key txn)"
    "Reconcile reconciler c txn w = (err, w')"
  shows "db_transactions w' = db_transactions w \<and> db_states w' = db_states w"
  using wpg.Reconcile_redelivery [OF assms(1,3,4,2)] assms(5) unfolding reconciler_def .

theorem redelivery_no_op_witness:
  "\<exists>err w'. Reconcile reconciler None (demo_buy 1) demo_applied = (err, w')
    \<and> db_transactions w' = [demo_row 1 1] \<and> db_states w' demo_key = Some (demo_long 1)"
proof -
  obtain err w' where r: "Reconcile reconciler None (demo_buy 1) demo_applied = (err, w')" by (metis prod.collapse)
  have "settled (db_transactions demo_applied) (db_states demo_applied) (tx_key (demo_buy 1))"
    using apply_demo [of 1 1]
    by (simp add: settled_def reflects_def of_key_def demo_applied_def untimed_def demo_long_def zero_state_def)
  moreover have "\<forall>t \<in> set (db_transactions demo_applied). tx_EventID t = tx_EventID (demo_buy 1) \<longrightarrow> same_trade t (demo_buy 1)"
    "tx_EventID (demo_buy 1) \<in> tx_EventID ` set (db_transactions demo_applied)"
    by (simp_all add: demo_applied_def demo_row_def same_trade_def)
  ultimately have "db_transactions w' = db_transactions demo_applied \<and> db_states w' = db_states demo_applied"
    using redelivery_no_op [OF demo_facts(6) _ _ _ r] by blast
  then show ?thesis using r by (simp add: demo_applied_def)
qed

text \<open>
  Resuming after a crash: if an earlier delivery stored the transaction and nothing else of its
  key is missing from the row, a delivery that returns nil leaves the key settled, and one that
  fails leaves it so that the next delivery can still do it.
\<close>

theorem resume_after_crash:
  assumes "db_inv w" "\<forall>t \<in> set (db_transactions w). tx_EventID t = tx_EventID txn \<longrightarrow> same_trade t txn"
    "pending (db_transactions w) (db_states w) (tx_key txn) (tx_EventID txn)"
    "Reconcile reconciler c txn w = (err, w')"
  shows "(err = None \<longrightarrow> settled (db_transactions w') (db_states w') (tx_key txn))
    \<and> (settled (db_transactions w') (db_states w') (tx_key txn)
       \<or> pending (db_transactions w') (db_states w') (tx_key txn) (tx_EventID txn))"
  using wpg.Reconcile_settles [OF assms(1,2) disjI2 [OF assms(3)]] assms(4) unfolding reconciler_def by blast

theorem resume_after_crash_witness:
  "\<exists>err w'. Reconcile reconciler None (demo_buy 1) demo_stored = (err, w')
    \<and> (err = None \<longrightarrow> settled (db_transactions w') (db_states w') demo_key)"
proof -
  obtain err w' where r: "Reconcile reconciler None (demo_buy 1) demo_stored = (err, w')" by (metis prod.collapse)
  have "pending (db_transactions demo_stored) (db_states demo_stored) (tx_key (demo_buy 1)) (tx_EventID (demo_buy 1))"
    by (simp add: pending_def of_key_def demo_stored_def demo_world_def reflects_def) (simp add: demo_row_def)
  moreover have "\<forall>t \<in> set (db_transactions demo_stored). tx_EventID t = tx_EventID (demo_buy 1) \<longrightarrow> same_trade t (demo_buy 1)"
    by (simp add: demo_stored_def demo_row_def same_trade_def)
  ultimately show ?thesis
    using resume_after_crash [OF demo_facts(5) _ _ r] r by auto
qed




text \<open>
  Two overlapping callers: both store their transaction, both read the (missing) row before
  either writes, and both writes succeed, the second one replacing the first. The comment on
  \<open>ErrStaleReconciledState\<close> says that an update computed from an outdated read cannot clobber a newer
  one; the compare-and-swap compares watermarks with the new row only, not with what was read.
\<close>

theorem stale_write_clobbers:
  "\<exists>w1 w2 w3 w4 w5 w6. reconcile_insert reconciler None (demo_buy 1) demo_world = (Inr (demo_row 1 1), w1)
    \<and> reconcile_insert reconciler None (demo_buy 2) w1 = (Inr (demo_row 2 2), w2)
    \<and> reconcile_state reconciler None (demo_row 1 1) w2 = (Inr (zero_state demo_key), w3)
    \<and> reconcile_state reconciler None (demo_row 2 2) w3 = (Inr (zero_state demo_key), w4)
    \<and> applyTransaction (zero_state demo_key) (demo_row 1 1) = Inr (demo_long 1)
    \<and> applyTransaction (zero_state demo_key) (demo_row 2 2) = Inr (demo_long 2)
    \<and> Upsert reconciledStates None (demo_long 1) w4 = (None, w5)
    \<and> Upsert reconciledStates None (demo_long 2) w5 = (None, w6)
    \<and> map_option rs_Position (db_states w6 demo_key) = Some 100000000
    \<and> net_quantity (db_transactions w6) = 200000000"
proof -
  let ?w2 = "demo_stored\<lparr>db_next_id := 3, db_transactions := [demo_row 1 1, demo_row 2 2]\<rparr>"
  let ?w5 = "?w2\<lparr>db_states := [demo_key \<mapsto> demo_long 1]\<rparr>"
  have i1: "reconcile_insert reconciler None (demo_buy 1) demo_world = (Inr (demo_row 1 1), demo_stored)"
    using healthy_Insert [OF demo_facts(1,7)] demo_inserted(1) [of 1]
    by (simp add: reconcile_insert_def reconciler_def demo_stored_def demo_world_def)
  have i2: "reconcile_insert reconciler None (demo_buy 2) demo_stored = (Inr (demo_row 2 2), ?w2)"
    using healthy_Insert [OF demo_facts(2,8)] demo_inserted(2) [of 2]
    by (simp add: reconcile_insert_def reconciler_def demo_stored_def demo_world_def)
  have h: "healthy ?w2" "healthy ?w5" using demo_facts(2) by (simp_all add: healthy_def)
  have key: "tx_TenantID (demo_row e i) = ''acme''" "tx_Instrument (demo_row e i) = ''BTC''" for e i
    by (simp_all add: demo_row_def demo_buy_def demo_txn_def)
  have g: "reconcile_state reconciler None (demo_row e i) ?w2 = (Inr (zero_state demo_key), ?w2)" for e i
    using healthy_Get [OF h(1), of "''acme''" "''BTC''"]
    by (simp add: reconcile_state_def reconciler_def key demo_stored_def demo_world_def)
  have ids: "tx_ID (demo_row e i) = i" for e i by (simp add: demo_row_def)
  have lk: "rs_key (demo_long i) = demo_key" "rs_TenantID (demo_long i) = ''acme''" "rs_Instrument (demo_long i) = ''BTC''"
    "rs_LastTransactionID (demo_long i) = Some i" "(demo_long i)\<lparr>rs_UpdatedAt := 0\<rparr> = demo_long i" for i
    by (simp_all add: demo_long_def rs_key_def zero_state_def)
  have u1: "Upsert reconciledStates None (demo_long 1) ?w2 = (None, ?w5)"
    using healthy_Upsert [OF h(1), of "demo_long 1"]
    by (simp add: lk ids advances_def demo_stored_def demo_world_def)
  have u2: "Upsert reconciledStates None (demo_long 2) ?w5 = (None, ?w2\<lparr>db_states := [demo_key \<mapsto> demo_long 2]\<rparr>)"
    using healthy_Upsert [OF h(2), of "demo_long 2"]
    by (simp add: lk ids advances_def demo_stored_def demo_world_def)
  have pos: "map_option rs_Position (db_states (?w2\<lparr>db_states := [demo_key \<mapsto> demo_long 2]\<rparr>) demo_key) = Some 100000000"
    "net_quantity (db_transactions (?w2\<lparr>db_states := [demo_key \<mapsto> demo_long 2]\<rparr>)) = 200000000"
    by (simp_all add: demo_long_def net_quantity_def signed_quantity_def demo_row_def demo_buy_def demo_txn_def SideBuy_def)
  show ?thesis
    by (intro exI conjI, rule i1, rule i2, rule g, rule g, rule apply_demo, rule apply_demo, rule u1, rule u2, rule pos, rule pos)
qed

end
