(* ===== verification/ProcessorMetrics.thy ===== *)
theory ProcessorMetrics
  imports Processor Metrics "HOL-Library.List_Lexorder" "HOL-Library.Char_ord"
begin

text \<open>
  The instruments of the processor's reconciliation path, \<open>src/internal/processor/metrics.go\<close>: the cached observers, and the
  reconciler that reports throughput, latency and breaker states around another one.
\<close>

section \<open>Model of metrics.go\<close>

definition outcomeSuccess :: string where "outcomeSuccess = ''success''"
definition outcomeFailure :: string where "outcomeFailure = ''failure''"
definition repositoryTransactions :: string where "repositoryTransactions = ''transactions''"
definition repositoryReconciledState :: string where "repositoryReconciledState = ''reconciled_state''"

definition sortedTenantIDs :: "KnownTenants \<Rightarrow> string list" where
  "sortedTenantIDs known = sorted_list_of_set known"

text \<open>The observers cached at construction, by tenant label and outcome; each is the call it makes.\<close>

record 'w processorMetrics =
  pm_meter :: "'w meter"
  pm_durationObservers :: "string \<rightharpoonup> string \<rightharpoonup> f64 \<Rightarrow> metric_call"
  pm_knownTenants :: KnownTenants

definition cached_observers :: "string \<Rightarrow> string \<rightharpoonup> f64 \<Rightarrow> metric_call" where
  "cached_observers label =
     [outcomeSuccess \<mapsto> Observe ''processor_transaction_duration_seconds'' [outcomeSuccess, label],
      outcomeFailure \<mapsto> Observe ''processor_transaction_duration_seconds'' [outcomeFailure, label]]"

definition new_processorMetrics :: "'w Registerer \<Rightarrow> 'w meter \<Rightarrow> KnownTenants \<Rightarrow> 'w \<Rightarrow> 'w processorMetrics result \<times> 'w" where
  "new_processorMetrics reg meter known w =
     (case processor_NewMetrics reg w of
        (Inl err, w') \<Rightarrow> (Inl err, w')
      | (Inr vecs, w') \<Rightarrow>
          let tenantLabels = UnknownTenantLabel # sortedTenantIDs known
          in (Inr \<lparr>pm_meter = meter, pm_durationObservers = map_of (map (\<lambda>label. (label, cached_observers label)) tenantLabels),
                   pm_knownTenants = known\<rparr>, w'))"

text \<open>None is the nil observer.\<close>

definition durationObserver :: "'w processorMetrics \<Rightarrow> string \<Rightarrow> string \<Rightarrow> (f64 \<Rightarrow> metric_call) option" where
  "durationObserver reportedMetrics outcome tenantID =
     (case pm_durationObservers reportedMetrics (Metrics.TenantLabel (pm_knownTenants reportedMetrics) tenantID) of
        None \<Rightarrow> None | Some m \<Rightarrow> m outcome)"

record 'w InstrumentedReconciler =
  ir_next :: "ctx \<Rightarrow> Transaction \<Rightarrow> 'w \<Rightarrow> error \<times> 'w"
  ir_metrics :: "'w processorMetrics"
  ir_transactionsBreaker :: "('w \<Rightarrow> State) option"
  ir_statesBreaker :: "('w \<Rightarrow> State) option"
  ir_now :: "'w \<Rightarrow> time"

definition NewInstrumentedReconciler ::
    "(ctx \<Rightarrow> Transaction \<Rightarrow> 'w \<Rightarrow> error \<times> 'w) option \<Rightarrow> 'w processorMetrics option \<Rightarrow> ('w \<Rightarrow> State) option \<Rightarrow> ('w \<Rightarrow> State) option
      \<Rightarrow> ('w \<Rightarrow> time) \<Rightarrow> 'w InstrumentedReconciler result" where
  "NewInstrumentedReconciler nxt reportedMetrics transactionsBreaker statesBreaker now =
     (case nxt of None \<Rightarrow> Inl (Msg ''new instrumented reconciler: next reconciler must not be nil'')
      | Some n \<Rightarrow> (case reportedMetrics of None \<Rightarrow> Inl (Msg ''new instrumented reconciler: metrics must not be nil'')
         | Some m \<Rightarrow> Inr \<lparr>ir_next = n, ir_metrics = m, ir_transactionsBreaker = transactionsBreaker, ir_statesBreaker = statesBreaker, ir_now = now\<rparr>))"

definition report_breaker :: "'w processorMetrics \<Rightarrow> string \<Rightarrow> ('w \<Rightarrow> State) option \<Rightarrow> 'w \<Rightarrow> 'w" where
  "report_breaker m repository breaker w =
     (case breaker of None \<Rightarrow> w
      | Some st \<Rightarrow> pm_meter m (SetGauge ''processor_postgres_circuit_breaker_state'' [repository] (breakerStateValue (st w))) w)"

text \<open>A nil observer is a panic: None.\<close>

definition InstrumentedReconciler_Reconcile :: "'w InstrumentedReconciler \<Rightarrow> ctx \<Rightarrow> Transaction \<Rightarrow> 'w \<Rightarrow> (error \<times> 'w) option" where
  "InstrumentedReconciler_Reconcile instrumented ctx txn w =
     (let m = ir_metrics instrumented;
          start = ir_now instrumented w;
          (err, w1) = ir_next instrumented ctx txn w;
          elapsed = duration_Seconds (time_Sub (ir_now instrumented w1) start);
          outcome = (if err \<noteq> None then outcomeFailure else outcomeSuccess);
          w2 = pm_meter m (Inc ''processor_transactions_processed_total'' [outcome]) w1
      in (case durationObserver m outcome (tx_TenantID txn) of
            None \<Rightarrow> None
          | Some observe \<Rightarrow>
              let w3 = pm_meter m (observe elapsed) w2;
                  w4 = report_breaker m repositoryTransactions (ir_transactionsBreaker instrumented) w3
              in Some (err, report_breaker m repositoryReconciledState (ir_statesBreaker instrumented) w4)))"

section \<open>Observers are never nil\<close>

lemma map_of_labels: "label \<in> set ls \<Longrightarrow> map_of (map (\<lambda>label. (label, f label)) ls) label = Some (f label)"
  by (induction ls) auto

lemma durationObserver_cached:
  assumes "new_processorMetrics reg meter known w = (Inr m, w')" "finite known" "outcome \<in> {outcomeSuccess, outcomeFailure}"
  shows "durationObserver m outcome tenantID
    = Some (Observe ''processor_transaction_duration_seconds'' [outcome, if tenantID \<in> known then tenantID else UnknownTenantLabel])"
proof -
  have "Metrics.TenantLabel known tenantID \<in> set (UnknownTenantLabel # sortedTenantIDs known)"
    using assms(2) by (simp add: Metrics.TenantLabel_def sortedTenantIDs_def)
  from map_of_labels [OF this, of cached_observers] show ?thesis
    using assms(1,3)
    by (auto simp: durationObserver_def new_processorMetrics_def Let_def Metrics.TenantLabel_def cached_observers_def outcomeSuccess_def outcomeFailure_def
        split: prod.splits sum.splits)
qed

lemma report_breaker_keep: "(\<And>c w. view (pm_meter m c w) = view w) \<Longrightarrow> view (report_breaker m repository breaker w) = view w"
  by (cases breaker) (simp_all add: report_breaker_def)

lemma instrumented_outcome:
  assumes "new_processorMetrics reg meter known w0 = (Inr m, w0')" "finite known" "ir_metrics instrumented = m"
    and "\<And>c w. view (meter c w) = view w"
  shows "\<exists>w'. InstrumentedReconciler_Reconcile instrumented ctx txn w = Some (fst (ir_next instrumented ctx txn w), w')
    \<and> view w' = view (snd (ir_next instrumented ctx txn w))"
proof -
  obtain err w1 where n: "ir_next instrumented ctx txn w = (err, w1)" by fastforce
  have meter: "pm_meter m = meter" using assms(1) by (auto simp: new_processorMetrics_def Let_def split: prod.splits sum.splits)
  then have keep: "\<And>c w. view (pm_meter m c w) = view w" using assms(4) by simp
  show ?thesis
    using durationObserver_cached [OF assms(1,2), of "if err \<noteq> None then outcomeFailure else outcomeSuccess" "tx_TenantID txn"]
    by (simp add: InstrumentedReconciler_Reconcile_def assms(3) n Let_def keep report_breaker_keep [where view = view, OF keep])
qed

text \<open>
  Instrumentation is transparent. With metrics built for any finite set of known tenants, and instruments that leave
  the ledger alone, the instrumented reconciler never panics for any tenant id, returns the error of
  the reconciler it wraps, and leaves exactly the state that call left.
\<close>

theorem InstrumentedReconciler_transparent:
  assumes "new_processorMetrics reg meter known w0 = (Inr m, w0')" "finite known" "ir_metrics instrumented = m"
    and "\<And>c w. view (meter c w) = view w"
  shows "\<exists>w'. InstrumentedReconciler_Reconcile instrumented ctx txn w = Some (fst (ir_next instrumented ctx txn w), w')
    \<and> view w' = view (snd (ir_next instrumented ctx txn w))"
  by (rule instrumented_outcome [where view = view, OF assms])

definition quiet_reconciler :: "nat InstrumentedReconciler" where
  "quiet_reconciler = \<lparr>ir_next = (\<lambda>_ _ w. (Some (Msg ''down''), w + 1)),
     ir_metrics = (case new_processorMetrics (\<lambda>_ w. (None, w)) (\<lambda>_ w. w) {''acme''} (0 :: nat) of (Inr m, _) \<Rightarrow> m),
     ir_transactionsBreaker = None, ir_statesBreaker = None, ir_now = (\<lambda>_. 0)\<rparr>"

theorem InstrumentedReconciler_transparent_witness:
  "\<exists>w'. InstrumentedReconciler_Reconcile quiet_reconciler None sample_transaction (5 :: nat) = Some (Some (Msg ''down''), w') \<and> w' = 6"
proof -
  obtain vecs w' where "processor_NewMetrics (\<lambda>_ w. (None, w)) (0 :: nat) = (Inr vecs, w')"
    using NewMetrics_accepted(3) [where reg = "\<lambda>_ w. (None, w)" and w = "0 :: nat"] by auto
  then obtain m where m: "new_processorMetrics (\<lambda>_ w. (None, w)) (\<lambda>_ w. w) {''acme''} (0 :: nat) = (Inr m, w')"
    by (auto simp: new_processorMetrics_def Let_def)
  then have "ir_metrics quiet_reconciler = m" by (simp add: quiet_reconciler_def)
  from InstrumentedReconciler_transparent [where view = "\<lambda>w. w", OF m _ this, of None sample_transaction 5] show ?thesis
    by (simp add: quiet_reconciler_def)
qed

end
