(* ===== verification/Promquery.thy ===== *)
theory Promquery
  imports GoFloat GoConf
begin

text \<open>
  The operator's Prometheus client, \<open>src/operator/internal/promquery/client.go\<close>: its configuration, the
  queries it builds for one tenant, and the reading of their single result as an integer. The HTTP API
  of Prometheus is a parameter. What Go leaves to the implementation, the conversion to an integer of
  a float that is not in the integer's range, is a parameter too.
\<close>

section \<open>Configuration and queries\<close>

definition defaultAddress :: string where "defaultAddress = ''http://prometheus:9090''"

definition defaultTimeout :: duration where "defaultTimeout = 5000000000"

record promConfig =
  qc_Address :: string
  qc_Timeout :: duration

definition NewConfigFromEnv :: "env \<Rightarrow> promConfig" where
  "NewConfigFromEnv getenv =
     (let cfg = \<lparr>qc_Address = defaultAddress, qc_Timeout = defaultTimeout\<rparr>;
          cfg = (if getenv ''PROMETHEUS_ADDR'' \<noteq> [] then cfg\<lparr>qc_Address := getenv ''PROMETHEUS_ADDR''\<rparr> else cfg)
      in if getenv ''PROMETHEUS_QUERY_TIMEOUT'' \<noteq> []
         then (case time_ParseDuration (getenv ''PROMETHEUS_QUERY_TIMEOUT'') of Inr timeout \<Rightarrow> cfg\<lparr>qc_Timeout := timeout\<rparr> | Inl _ \<Rightarrow> cfg)
         else cfg)"

record TenantLabel =
  tl_Name :: string
  tl_Value :: string

text \<open>\<open>strings.ReplaceAll\<close> of a single byte.\<close>

definition ReplaceAll_byte :: "char \<Rightarrow> string \<Rightarrow> string \<Rightarrow> string" where
  "ReplaceAll_byte old new s = concat (map (\<lambda>c. if c = old then new else [c]) s)"

text \<open>The backslash is the character with code 92, the double quote the one with code 34.\<close>

definition escapePromQLString :: "string \<Rightarrow> string" where
  "escapePromQLString v = ReplaceAll_byte (CHR 0x22) [CHR 0x5C, CHR 0x22] (ReplaceAll_byte (CHR 0x5C) [CHR 0x5C, CHR 0x5C] v)"

definition matcher :: "TenantLabel \<Rightarrow> string" where
  "matcher label = escapePromQLString (tl_Name label) @ [CHR ''='', CHR 0x22] @ escapePromQLString (tl_Value label) @ [CHR 0x22]"

definition selector_query :: "string \<Rightarrow> TenantLabel \<Rightarrow> string" where
  "selector_query metric label = metric @ ''{'' @ matcher label @ ''}''"

definition latency_query :: "TenantLabel \<Rightarrow> string" where
  "latency_query label = ''histogram_quantile(0.99, sum(rate('' @ selector_query ''processor_transaction_duration_seconds_bucket'' label @ ''[5m])) by (le))''"

section \<open>Reading a result\<close>

datatype prom_value = Vector "f64 list" | OtherValue

text \<open>\<open>queryAPI.Query\<close> with the context, the query and the time; \<open>now\<close> is the clock.\<close>

record 'w promClient =
  qc_queryAPI :: "ctx \<Rightarrow> string \<Rightarrow> time \<Rightarrow> 'w \<Rightarrow> prom_value result \<times> 'w"
  qc_timeout :: duration
  qc_now :: "'w \<Rightarrow> time"

definition NewClient ::
    "(string \<Rightarrow> (ctx \<Rightarrow> string \<Rightarrow> time \<Rightarrow> 'w \<Rightarrow> prom_value result \<times> 'w) result) \<Rightarrow> ('w \<Rightarrow> time) \<Rightarrow> promConfig \<Rightarrow> 'w promClient result" where
  "NewClient newAPI now cfg =
     bind_res (wrap_res ''promquery: building prometheus api client'' (newAPI (qc_Address cfg))) (\<lambda>api.
       Inr \<lparr>qc_queryAPI = api, qc_timeout = (if sint (qc_Timeout cfg) \<le> 0 then defaultTimeout else qc_Timeout cfg), qc_now = now\<rparr>)"

definition queryScalar :: "'w promClient \<Rightarrow> ctx \<Rightarrow> string \<Rightarrow> 'w \<Rightarrow> f64 result \<times> 'w" where
  "queryScalar client ctx query w =
     (let queryCtx = (if ctx = None then context_WithTimeout (qc_now client w) ctx (qc_timeout client) else ctx)
      in (case qc_queryAPI client queryCtx query (qc_now client w) w of
            (Inl err, w') \<Rightarrow> (Inl (Wrap ''querying prometheus'' err), w')
          | (Inr OtherValue, w') \<Rightarrow> (Inl (Msg ''querying prometheus: unexpected result type''), w')
          | (Inr (Vector []), w') \<Rightarrow> (Inl (Msg ''querying prometheus: no series matched''), w')
          | (Inr (Vector [v]), w') \<Rightarrow> (Inr v, w')
          | (Inr (Vector (v # v' # vs)), w') \<Rightarrow> (Inl (Msg ''querying prometheus: expected a single series''), w')))"

text \<open>\<open>math.Round\<close>: half away from zero.\<close>

definition round_away :: "rat \<Rightarrow> int" where
  "round_away x = (if 0 \<le> x then \<lfloor>x + 1 / 2\<rfloor> else - \<lfloor>- x + 1 / 2\<rfloor>)"

fun math_Round :: "f64 \<Rightarrow> f64" where
  "math_Round (Fin x) = Fin (of_int (round_away x))"
| "math_Round v = v"

text \<open>Conversion to a signed integer of \<open>bits\<close> bits: truncation in range, \<open>unspec\<close> otherwise.\<close>

definition int_of_f64 :: "(f64 \<Rightarrow> int) \<Rightarrow> nat \<Rightarrow> f64 \<Rightarrow> int" where
  "int_of_f64 unspec bits v =
     (case v of
        Fin x \<Rightarrow> let k = (if 0 \<le> x then \<lfloor>x\<rfloor> else - \<lfloor>- x\<rfloor>) in if - (2 ^ (bits - 1)) \<le> k \<and> k < 2 ^ (bits - 1) then k else unspec v
      | _ \<Rightarrow> unspec v)"

text \<open>
  The range checks compare with the constants as \<open>float64\<close>: \<open>math.MaxInt64\<close> becomes \<open>2 ^ 63\<close>, the other
  three are exact.
\<close>

definition observed_int64 :: "(f64 \<Rightarrow> int) \<Rightarrow> string \<Rightarrow> f64 result \<Rightarrow> int64 result" where
  "observed_int64 unspec what r =
     bind_res (wrap_res what r) (\<lambda>v.
       let rounded = math_Round v
       in if f64_less (Fin (2 ^ 63)) rounded \<or> f64_less rounded (Fin (- (2 ^ 63))) then Inl (Msg what)
          else Inr (word_of_int (int_of_f64 unspec 64 rounded)))"

definition observed_int32 :: "(f64 \<Rightarrow> int) \<Rightarrow> string \<Rightarrow> f64 result \<Rightarrow> int32 result" where
  "observed_int32 unspec what r =
     bind_res (wrap_res what r) (\<lambda>v.
       let rounded = math_Round v
       in if f64_less (Fin (2 ^ 31 - 1)) rounded \<or> f64_less rounded (Fin (- (2 ^ 31))) then Inl (Msg what)
          else Inr (word_of_int (int_of_f64 unspec 32 rounded)))"

definition ObservedKafkaLag :: "(f64 \<Rightarrow> int) \<Rightarrow> 'w promClient \<Rightarrow> ctx \<Rightarrow> TenantLabel \<Rightarrow> 'w \<Rightarrow> int64 result \<times> 'w" where
  "ObservedKafkaLag unspec client ctx label w =
     (let query = selector_query ''processor_kafka_consumer_lag_messages'' label
      in case queryScalar client ctx query w of (r, w') \<Rightarrow> (observed_int64 unspec ''promquery: observed kafka lag'' r, w'))"

definition ObservedP99Ms :: "(f64 \<Rightarrow> int) \<Rightarrow> 'w promClient \<Rightarrow> ctx \<Rightarrow> TenantLabel \<Rightarrow> 'w \<Rightarrow> int32 result \<times> 'w" where
  "ObservedP99Ms unspec client ctx label w =
     (case queryScalar client ctx (latency_query label) w of
        (r, w') \<Rightarrow> (observed_int32 unspec ''promquery: observed p99 latency'' (map_sum id (\<lambda>v. f64_mul v (Fin 1000)) r), w'))"

definition ObservedPartitionCount :: "(f64 \<Rightarrow> int) \<Rightarrow> 'w promClient \<Rightarrow> ctx \<Rightarrow> TenantLabel \<Rightarrow> 'w \<Rightarrow> int32 result \<times> 'w" where
  "ObservedPartitionCount unspec client ctx label w =
     (let query = selector_query ''ingestion_kafka_tenant_partition_count'' label
      in case queryScalar client ctx query w of (r, w') \<Rightarrow> (observed_int32 unspec ''promquery: observed partition count'' r, w'))"

definition ObservedPartitionStart :: "(f64 \<Rightarrow> int) \<Rightarrow> 'w promClient \<Rightarrow> ctx \<Rightarrow> TenantLabel \<Rightarrow> 'w \<Rightarrow> int32 result \<times> 'w" where
  "ObservedPartitionStart unspec client ctx label w =
     (let query = selector_query ''ingestion_kafka_tenant_partition_start_count'' label
      in case queryScalar client ctx query w of (r, w') \<Rightarrow> (observed_int32 unspec ''promquery: observed partition start'' r, w'))"

section \<open>A label cannot leave its literal\<close>

lemma escape_concat:
  "escapePromQLString v = concat (map (\<lambda>c. if c = CHR 0x5C then [CHR 0x5C, CHR 0x5C] else if c = CHR 0x22 then [CHR 0x5C, CHR 0x22] else [c]) v)"
  by (induction v) (simp_all add: escapePromQLString_def ReplaceAll_byte_def)

text \<open>A double-quoted literal: a backslash takes the next character as it is, a quote ends it.\<close>

fun read_literal :: "string \<Rightarrow> (string \<times> string) option" where
  "read_literal [] = None"
| "read_literal (c # s) =
     (if c = CHR 0x22 then Some ([], s)
      else if c = CHR 0x5C then (case s of [] \<Rightarrow> None | d # s' \<Rightarrow> map_option (apfst (Cons d)) (read_literal s'))
      else map_option (apfst (Cons c)) (read_literal s))"

text \<open>
  C37: no tenant id can change the query it is put into. Whatever bytes the label's value holds,
  reading the string literal that \<open>matcher\<close> opens ends at the quote \<open>matcher\<close> writes last and
  yields the value itself.
\<close>

theorem matcher_literal:
  "\<exists>lit. matcher label @ rest = escapePromQLString (tl_Name label) @ [CHR ''='', CHR 0x22] @ lit @ rest
    \<and> read_literal (lit @ rest) = Some (tl_Value label, rest)"
proof -
  have "read_literal (escapePromQLString v @ CHR 0x22 # rest) = Some (v, rest)" for v
    by (induction v) (simp_all add: escape_concat)
  then show ?thesis by (intro exI [of _ "escapePromQLString (tl_Value label) @ [CHR 0x22]"]) (simp add: matcher_def)
qed

section \<open>Observed values\<close>

lemma round_away_near: "\<bar>of_int (round_away x) - x\<bar> \<le> 1 / 2"
proof -
  have "of_int \<lfloor>y + 1 / 2\<rfloor> \<le> y + 1 / 2" "y - 1 / 2 < of_int \<lfloor>y + 1 / 2\<rfloor>" for y :: rat
    using of_int_floor_le [of "y + 1 / 2"] real_of_int_floor_add_one_gt floor_correct [of "y + 1 / 2"] by linarith+
  note f = this [of x] this [of "- x"]
  show ?thesis
  proof (cases "0 \<le> x")
    case True
    then have "round_away x = \<lfloor>x + 1 / 2\<rfloor>" by (simp only: round_away_def if_True)
    then show ?thesis using f by linarith
  next
    case False
    then have "of_int (round_away x) = - rat_of_int \<lfloor>- x + 1 / 2\<rfloor>" by (simp only: round_away_def if_False of_int_minus)
    then show ?thesis using f by linarith
  qed
qed

lemma int_of_f64_int:
  "- (2 ^ (bits - 1)) \<le> k \<Longrightarrow> k < 2 ^ (bits - 1) \<Longrightarrow> int_of_f64 unspec bits (Fin (of_int k)) = k"
  by (auto simp: int_of_f64_def Let_def simp flip: of_int_minus)

text \<open>The single series a query of the client answers with.\<close>

definition answers :: "'w promClient \<Rightarrow> f64 \<Rightarrow> bool" where
  "answers client v \<longleftrightarrow> (\<forall>ctx query t w. fst (qc_queryAPI client ctx query t w) = Inr (Vector [v]))"

lemma queryScalar_answers: "answers client v \<Longrightarrow> fst (queryScalar client ctx query w) = Inr v"
  unfolding answers_def queryScalar_def Let_def
  by (auto simp: split_beta split: sum.splits prom_value.splits list.splits)

text \<open>
  A lag in range is read exactly. If the query answers one series with a finite value whose
  nearest integer is below \<open>2 ^ 63\<close> in absolute value, the reading is that integer, within one half of
  the value; if it is above \<open>2 ^ 63\<close>, the reading is an error.
\<close>

theorem ObservedKafkaLag_exact:
  assumes "answers client (Fin x)"
  shows "(\<bar>round_away x\<bar> < 2 ^ 63 \<longrightarrow> (\<exists>lag. fst (ObservedKafkaLag unspec client ctx label w) = Inr lag
        \<and> sint lag = round_away x \<and> \<bar>of_int (round_away x) - x\<bar> \<le> 1 / 2))
    \<and> (2 ^ 63 < \<bar>round_away x\<bar> \<longrightarrow> (\<exists>e. fst (ObservedKafkaLag unspec client ctx label w) = Inl e))"
proof -
  have q: "fst (queryScalar client ctx query w) = Inr (Fin x)" for query using assms by (rule queryScalar_answers)
  have less: "(2 ^ 63 < (of_int k :: rat)) = (2 ^ 63 < k)" "((of_int k :: rat) < - (2 ^ 63)) = (k < - (2 ^ 63))" for k :: int
    by (metis of_int_less_iff of_int_numeral of_int_power) (metis of_int_less_iff of_int_minus of_int_numeral of_int_power)
  have "sint (word_of_int (int_of_f64 unspec 64 (Fin (of_int (round_away x)))) :: int64) = round_away x" if "\<bar>round_away x\<bar> < 2 ^ 63"
    using that by (subst int_of_f64_int) (auto simp: abs_less_iff is_int64_iff intro!: sint64_of_int)
  then show ?thesis using q less round_away_near [of x]
    by (auto simp: ObservedKafkaLag_def observed_int64_def split_beta Let_def abs_if split: if_splits)
qed

definition fixed_client :: "f64 \<Rightarrow> unit promClient" where
  "fixed_client v = \<lparr>qc_queryAPI = (\<lambda>_ _ _ w. (Inr (Vector [v]), w)), qc_timeout = defaultTimeout, qc_now = (\<lambda>_. 0)\<rparr>"

theorem ObservedKafkaLag_exact_witness:
  "answers (fixed_client (Fin (5 / 2))) (Fin (5 / 2)) \<and> round_away (5 / 2) = 3
   \<and> (\<exists>lag. fst (ObservedKafkaLag (\<lambda>_. 0) (fixed_client (Fin (5 / 2))) None \<lparr>tl_Name = ''tenant'', tl_Value = ''acme''\<rparr> ()) = Inr lag \<and> sint lag = 3)"
proof -
  have a: "answers (fixed_client (Fin (5 / 2))) (Fin (5 / 2))" by (simp add: answers_def fixed_client_def)
  have r: "round_away (5 / 2) = 3" by (simp add: round_away_def)
  show ?thesis using ObservedKafkaLag_exact [OF a, of "\<lambda>_. 0" None "\<lparr>tl_Name = ''tenant'', tl_Value = ''acme''\<rparr>" "()"] a r by auto
qed

text \<open>
  The range checks let through values that no integer represents. A latency quantile over a window
  without observations is NaN; both comparisons with it are false, so \<open>ObservedP99Ms\<close> returns, without
  an error, whatever the platform converts NaN to. \<open>ObservedKafkaLag\<close> does the same for NaN and
  for a lag of exactly \<open>2 ^ 63\<close>, which the constant it is compared with is rounded to.
\<close>

theorem observed_out_of_range_accepted:
  "fst (ObservedP99Ms unspec (fixed_client NaN) ctx label ()) = Inr (word_of_int (unspec NaN))
   \<and> fst (ObservedKafkaLag unspec (fixed_client NaN) ctx label ()) = Inr (word_of_int (unspec NaN))
   \<and> fst (ObservedKafkaLag unspec (fixed_client (Fin (2 ^ 63))) ctx label ()) = Inr (word_of_int (unspec (Fin (2 ^ 63))))"
proof -
  have "\<lfloor>2 ^ 63 + 1 / 2 :: rat\<rfloor> = 2 ^ 63" by (subst floor_eq_iff) simp
  then have "round_away (2 ^ 63) = 2 ^ 63" by (simp add: round_away_def)
  then show ?thesis
    by (simp add: ObservedP99Ms_def ObservedKafkaLag_def queryScalar_def fixed_client_def observed_int32_def observed_int64_def int_of_f64_def f64_mul_def Let_def)
qed

end
