(* ===== verification/Operator.thy ===== *)
theory Operator
  imports Promquery Metrics PartitionMap
begin

text \<open>
  The \<open>TradingTenant\<close> resource (\<open>src/operator/api/v1alpha1/tradingtenant_types.go\<close>), the Kubernetes objects and
  the API client the reconciler works with, the decision table \<open>classify\<close> of
  \<open>src/operator/internal/controller/tradingtenant_controller.go\<close>, and the instruments of \<open>metrics.go\<close>. The
  API server and \<open>controllerutil\<close> are not part of the repository: their operations are the fields of a
  record, over the state \<open>'w\<close> of the cluster.
\<close>

section \<open>TradingTenant\<close>

text \<open>\<open>TradingTenantState\<close> is a string type; a tenant never reconciled has the empty state.\<close>

type_synonym TradingTenantState = string

definition TradingTenantStateStable :: TradingTenantState where "TradingTenantStateStable = ''Stable''"
definition TradingTenantStateScaling :: TradingTenantState where "TradingTenantStateScaling = ''Scaling''"
definition TradingTenantStateIsolated :: TradingTenantState where "TradingTenantStateIsolated = ''Isolated''"
definition TradingTenantStateDegraded :: TradingTenantState where "TradingTenantStateDegraded = ''Degraded''"

lemmas state_defs =
  TradingTenantStateStable_def TradingTenantStateScaling_def TradingTenantStateIsolated_def TradingTenantStateDegraded_def

text \<open>Resource quantities are opaque to the reconciler.\<close>

record ResourceRequirements =
  rr_CPURequest :: string
  rr_MemoryRequest :: string

record ScalingPolicy =
  sp_KafkaLagThreshold :: int64
  sp_P99LatencyThresholdMs :: int32

record IsolationPolicy =
  ip_DedicatedNodePool :: bool

record TradingTenantSpec =
  ts_TenantID :: string
  ts_MinReplicas :: int32
  ts_MaxReplicas :: int32
  ts_Resources :: ResourceRequirements
  ts_Scaling :: ScalingPolicy
  ts_Isolation :: IsolationPolicy

record TradingTenantStatus =
  tu_CurrentReplicas :: int32
  tu_State :: TradingTenantState
  tu_ObservedKafkaLag :: int64
  tu_ObservedP99Ms :: int32
  tu_ObservedPartitionCount :: int32
  tu_LastReconcileTime :: time

record TradingTenant =
  tt_Namespace :: string
  tt_Name :: string
  tt_Spec :: TradingTenantSpec
  tt_Status :: TradingTenantStatus

text \<open>The isolation flag, and the update of it.\<close>

abbreviation dedicated :: "TradingTenant \<Rightarrow> bool" where
  "dedicated tenant \<equiv> ip_DedicatedNodePool (ts_Isolation (tt_Spec tenant))"

definition set_dedicated :: "TradingTenant \<Rightarrow> TradingTenant" where
  "set_dedicated tenant = tenant\<lparr>tt_Spec := (tt_Spec tenant)\<lparr>ts_Isolation := \<lparr>ip_DedicatedNodePool = True\<rparr>\<rparr>\<rparr>"

text \<open>The validation rules of the resource that the API server enforces.\<close>

definition spec_valid :: "TradingTenantSpec \<Rightarrow> bool" where
  "spec_valid spec \<longleftrightarrow> 1 \<le> sint (ts_MinReplicas spec) \<and> 1 \<le> sint (ts_MaxReplicas spec)
     \<and> sint (ts_MinReplicas spec) \<le> sint (ts_MaxReplicas spec)
     \<and> 1 \<le> sint (sp_KafkaLagThreshold (ts_Scaling spec)) \<and> 1 \<le> sint (sp_P99LatencyThresholdMs (ts_Scaling spec))"

section \<open>Kubernetes objects\<close>

text \<open>
  Of each object, the fields the reconciler writes; \<open>dp_Rest\<close> stands for those of a Deployment that it
  leaves to the API server's defaulting. Owners are named by the owning resource; nil maps and
  slices are None where the code tells them apart.
\<close>

type_synonym labels = "(string \<times> string) list"

record ConfigMap =
  cm_Namespace :: string
  cm_Name :: string
  cm_Owner :: "string option"
  cm_Labels :: labels
  cm_Data :: "(string \<times> string) list option"

record Volume =
  vo_Name :: string
  vo_ConfigMap :: string
  vo_Optional :: bool

record VolumeMount =
  vm_Name :: string
  vm_MountPath :: string
  vm_ReadOnly :: bool

datatype EnvFromSource = ConfigMapRef string

record Container =
  ct_Name :: string
  ct_Image :: string
  ct_EnvFrom :: "EnvFromSource list"
  ct_Env :: "(string \<times> string) list"
  ct_VolumeMounts :: "VolumeMount list"
  ct_Ports :: "(string \<times> int32) list"

record Toleration =
  to_Key :: string
  to_Operator :: string
  to_Value :: string
  to_Effect :: string

record Deployment =
  dp_Namespace :: string
  dp_Name :: string
  dp_Owner :: "string option"
  dp_Labels :: labels
  dp_Selector :: "labels option"
  dp_Replicas :: "int32 option"
  dp_TemplateLabels :: labels
  dp_NodeSelector :: "labels option"
  dp_Tolerations :: "Toleration list"
  dp_Volumes :: "Volume list"
  dp_Containers :: "Container list"
  dp_Rest :: string

record ServicePort =
  sv_PortName :: string
  sv_Port :: int32
  sv_TargetPort :: int32

record Service =
  sv_Namespace :: string
  sv_Name :: string
  sv_Owner :: "string option"
  sv_Labels :: labels
  sv_Selector :: labels
  sv_Ports :: "ServicePort list"

datatype object_ref = DeploymentRef string string | ServiceRef string string | ConfigMapObject string string

text \<open>API errors by the reason \<open>apierrors.IsNotFound\<close> and \<open>apierrors.IsAlreadyExists\<close> read.\<close>

datatype api_error = NotFound | AlreadyExists | ApiErr goerror

fun api_goerror :: "api_error \<Rightarrow> goerror" where
  "api_goerror NotFound = Sentinel ''NotFound''"
| "api_goerror AlreadyExists = Sentinel ''AlreadyExists''"
| "api_goerror (ApiErr err) = err"

datatype OperationResult = OperationResultNone | OperationResultCreated | OperationResultUpdated

text \<open>
  The operations of the client. \<open>Update\<close> and \<open>Status().Update\<close> return the object as stored, which the
  client writes back into its argument; the three \<open>Apply\<close> are \<open>controllerutil.CreateOrUpdate\<close> with its
  mutate function, at the three types it is used at.
\<close>

record 'w kube_client =
  k_GetTenant :: "ctx \<Rightarrow> string \<times> string \<Rightarrow> 'w \<Rightarrow> (api_error + TradingTenant) \<times> 'w"
  k_UpdateTenant :: "ctx \<Rightarrow> TradingTenant \<Rightarrow> 'w \<Rightarrow> (api_error + TradingTenant) \<times> 'w"
  k_UpdateStatus :: "ctx \<Rightarrow> TradingTenant \<Rightarrow> 'w \<Rightarrow> (api_error + TradingTenant) \<times> 'w"
  k_GetConfigMap :: "ctx \<Rightarrow> string \<times> string \<Rightarrow> 'w \<Rightarrow> (api_error + ConfigMap) \<times> 'w"
  k_CreateConfigMap :: "ctx \<Rightarrow> ConfigMap \<Rightarrow> 'w \<Rightarrow> api_error option \<times> 'w"
  k_UpdateConfigMap :: "ctx \<Rightarrow> ConfigMap \<Rightarrow> 'w \<Rightarrow> api_error option \<times> 'w"
  k_ApplyConfigMap :: "ctx \<Rightarrow> ConfigMap \<Rightarrow> (ConfigMap \<Rightarrow> ConfigMap result) \<Rightarrow> 'w \<Rightarrow> OperationResult result \<times> 'w"
  k_ApplyDeployment :: "ctx \<Rightarrow> Deployment \<Rightarrow> (Deployment \<Rightarrow> Deployment result) \<Rightarrow> 'w \<Rightarrow> OperationResult result \<times> 'w"
  k_ApplyService :: "ctx \<Rightarrow> Service \<Rightarrow> (Service \<Rightarrow> Service result) \<Rightarrow> 'w \<Rightarrow> OperationResult result \<times> 'w"
  k_Delete :: "ctx \<Rightarrow> object_ref \<Rightarrow> 'w \<Rightarrow> api_error option \<times> 'w"
  k_SetControllerReference :: "TradingTenant \<Rightarrow> string option \<Rightarrow> string option result"

section \<open>The reconciler\<close>

record 'w TenantObserver =
  ob_KafkaLag :: "ctx \<Rightarrow> TenantLabel \<Rightarrow> 'w \<Rightarrow> int64 result \<times> 'w"
  ob_P99Ms :: "ctx \<Rightarrow> TenantLabel \<Rightarrow> 'w \<Rightarrow> int32 result \<times> 'w"
  ob_PartitionCount :: "ctx \<Rightarrow> TenantLabel \<Rightarrow> 'w \<Rightarrow> int32 result \<times> 'w"
  ob_PartitionStart :: "ctx \<Rightarrow> TenantLabel \<Rightarrow> 'w \<Rightarrow> int32 result \<times> 'w"

text \<open>An Event has a type, a reason and a message; nil metrics and a nil recorder are None. \<open>rc_now\<close> is the clock.\<close>

record 'w TradingTenantReconciler =
  rc_Client :: "'w kube_client"
  rc_Observer :: "'w TenantObserver"
  rc_TenantLabelName :: string
  rc_ReconcileTimeout :: duration
  rc_RequeueInterval :: duration
  rc_Metrics :: "'w meter option"
  rc_Recorder :: "(TradingTenant \<Rightarrow> string \<Rightarrow> string \<Rightarrow> string \<Rightarrow> 'w \<Rightarrow> 'w) option"
  rc_IngestionImage :: string
  rc_ProcessorImage :: string
  rc_IngestionEnvFrom :: "EnvFromSource list"
  rc_ProcessorEnvFrom :: "EnvFromSource list"
  rc_DedicatedNodeSelector :: "labels option"
  rc_DedicatedTolerations :: "Toleration list"
  rc_now :: "'w \<Rightarrow> time"

text \<open>\<open>promquery.Client\<close> as a \<open>TenantObserver\<close>, which is how \<open>main.go\<close> sets it.\<close>

definition prom_observer :: "(f64 \<Rightarrow> int) \<Rightarrow> 'w promClient \<Rightarrow> 'w TenantObserver" where
  "prom_observer unspec client =
     \<lparr>ob_KafkaLag = ObservedKafkaLag unspec client, ob_P99Ms = ObservedP99Ms unspec client,
      ob_PartitionCount = ObservedPartitionCount unspec client, ob_PartitionStart = ObservedPartitionStart unspec client\<rparr>"

section \<open>Instruments\<close>

definition reasonDedicatedPoolCreated :: string where "reasonDedicatedPoolCreated = ''DedicatedPoolCreated''"
definition reasonDedicatedPoolProvisioned :: string where "reasonDedicatedPoolProvisioned = ''DedicatedPoolProvisioned''"
definition reasonDedicatedPoolTornDown :: string where "reasonDedicatedPoolTornDown = ''DedicatedPoolTornDown''"

lemmas reason_defs = reasonDedicatedPoolCreated_def reasonDedicatedPoolProvisioned_def reasonDedicatedPoolTornDown_def

definition isolationTransitionReasons :: "string list" where
  "isolationTransitionReasons =
     [TradingTenantStateStable, TradingTenantStateScaling, TradingTenantStateIsolated, TradingTenantStateDegraded,
      reasonDedicatedPoolCreated, reasonDedicatedPoolProvisioned, reasonDedicatedPoolTornDown]"

text \<open>The operator registers its two vectors directly, without the naming checks of the services.\<close>

definition operator_NewMetrics :: "'w Registerer \<Rightarrow> 'w \<Rightarrow> metric_vec list result \<times> 'w" where
  "operator_NewMetrics reg w = construct_all ''new operator metrics''
     [register_vec ''register reconcile duration histogram'' reg
        \<lparr>mv_kind = HistogramVec, mv_name = ''tradingtenant_reconcile_duration_seconds'', mv_labels = [''result'']\<rparr>,
      register_vec ''register isolation transitions counter'' reg
        \<lparr>mv_kind = CounterVec, mv_name = ''tradingtenant_isolation_transitions_total'', mv_labels = [''transition'']\<rparr>] w"

definition observeDuration :: "'w meter \<Rightarrow> string \<Rightarrow> f64 \<Rightarrow> 'w \<Rightarrow> 'w" where
  "observeDuration meter outcome elapsedSeconds w =
     (if outcome \<in> {''success'', ''error''} then meter (Observe ''tradingtenant_reconcile_duration_seconds'' [outcome] elapsedSeconds) w else w)"

definition observeIsolationTransition :: "'w meter \<Rightarrow> string \<Rightarrow> 'w \<Rightarrow> 'w" where
  "observeIsolationTransition meter reason w =
     (if reason \<in> set isolationTransitionReasons then meter (Inc ''tradingtenant_isolation_transitions_total'' [reason]) w else w)"

definition recordTransition :: "'w TradingTenantReconciler \<Rightarrow> TradingTenant \<Rightarrow> string \<Rightarrow> string \<Rightarrow> string \<Rightarrow> 'w \<Rightarrow> 'w" where
  "recordTransition r tenant reason eventType message w =
     (let w1 = (case rc_Recorder r of None \<Rightarrow> w | Some event \<Rightarrow> event tenant eventType reason message w)
      in (case rc_Metrics r of None \<Rightarrow> w1 | Some meter \<Rightarrow> observeIsolationTransition meter reason w1))"

definition eventTypeForState :: "TradingTenantState \<Rightarrow> string" where
  "eventTypeForState st = (if st = TradingTenantStateIsolated \<or> st = TradingTenantStateDegraded then ''Warning'' else ''Normal'')"

section \<open>The decision table\<close>

record reconcileDecision =
  rd_state :: TradingTenantState
  rd_replicas :: int32
  rd_setDedicatedNodePool :: bool

definition clampReplicas :: "int32 \<Rightarrow> int32 \<Rightarrow> int32 \<Rightarrow> int32" where
  "clampReplicas v minimum maximum = (if sint v < sint minimum then minimum else if sint v > sint maximum then maximum else v)"

definition classify :: "TradingTenantSpec \<Rightarrow> int32 \<Rightarrow> bool \<Rightarrow> int64 \<Rightarrow> int32 \<Rightarrow> int32 \<Rightarrow> reconcileDecision" where
  "classify spec baseline alreadyIsolated lag p99Ms partitionCount =
     (let lagHigh = sint lag > sint (sp_KafkaLagThreshold (ts_Scaling spec));
          latencyHigh = sint p99Ms > sint (sp_P99LatencyThresholdMs (ts_Scaling spec))
      in if lagHigh \<and> latencyHigh then
           \<lparr>rd_state = TradingTenantStateScaling, rd_replicas = ts_MaxReplicas spec, rd_setDedicatedNodePool = False\<rparr>
         else if lagHigh \<and> \<not> latencyHigh \<and> sint baseline < sint partitionCount then
           (let target = (if sint partitionCount < sint (ts_MaxReplicas spec) then partitionCount else ts_MaxReplicas spec)
            in \<lparr>rd_state = TradingTenantStateScaling, rd_replicas = clampReplicas target (ts_MinReplicas spec) (ts_MaxReplicas spec),
                rd_setDedicatedNodePool = False\<rparr>)
         else if lagHigh \<and> \<not> latencyHigh then
           \<lparr>rd_state = TradingTenantStateIsolated, rd_replicas = baseline, rd_setDedicatedNodePool = True\<rparr>
         else if \<not> lagHigh \<and> latencyHigh then
           \<lparr>rd_state = TradingTenantStateDegraded, rd_replicas = baseline, rd_setDedicatedNodePool = False\<rparr>
         else \<lparr>rd_state = (if alreadyIsolated then TradingTenantStateIsolated else TradingTenantStateStable), rd_replicas = baseline,
               rd_setDedicatedNodePool = False\<rparr>)"

text \<open>The replica count \<open>Reconcile\<close> starts from.\<close>

definition baseline_replicas :: "TradingTenantSpec \<Rightarrow> int32 \<Rightarrow> int32" where
  "baseline_replicas spec current = (if sint current < sint (ts_MinReplicas spec) then ts_MinReplicas spec else current)"


definition demo_spec :: TradingTenantSpec where
  "demo_spec = \<lparr>ts_TenantID = ''acme'', ts_MinReplicas = 2, ts_MaxReplicas = 8, ts_Resources = \<lparr>rr_CPURequest = ''500m'', rr_MemoryRequest = ''512Mi''\<rparr>,
     ts_Scaling = \<lparr>sp_KafkaLagThreshold = 1000, sp_P99LatencyThresholdMs = 50\<rparr>, ts_Isolation = \<lparr>ip_DedicatedNodePool = False\<rparr>\<rparr>"

lemma demo_spec_valid: "spec_valid demo_spec"
  by (simp add: spec_valid_def demo_spec_def)


text \<open>A pass of the decision on the replica count and the isolation flag.\<close>

definition decide :: "TradingTenantSpec \<Rightarrow> int64 \<Rightarrow> int32 \<Rightarrow> int32 \<Rightarrow> int32 \<times> bool \<Rightarrow> TradingTenantState \<times> int32 \<times> bool" where
  "decide spec lag p99Ms partitionCount s =
     (case s of (current, isolated) \<Rightarrow>
        let d = classify spec (baseline_replicas spec current) isolated lag p99Ms partitionCount
        in (rd_state d, rd_replicas d, isolated \<or> rd_setDedicatedNodePool d))"

abbreviation headroom :: "TradingTenantSpec \<Rightarrow> int32 \<Rightarrow> int32" where
  "headroom spec partitionCount \<equiv>
     clampReplicas (if sint partitionCount < sint (ts_MaxReplicas spec) then partitionCount else ts_MaxReplicas spec) (ts_MinReplicas spec) (ts_MaxReplicas spec)"

lemma pass_cases:
  fixes spec lag p99Ms partitionCount current isolated
  defines "b \<equiv> baseline_replicas spec current"
  defines "pass \<equiv> snd (decide spec lag p99Ms partitionCount (current, isolated))"
  defines "lagHigh \<equiv> sint lag > sint (sp_KafkaLagThreshold (ts_Scaling spec))"
    and "latencyHigh \<equiv> sint p99Ms > sint (sp_P99LatencyThresholdMs (ts_Scaling spec))"
  shows "lagHigh \<Longrightarrow> latencyHigh \<Longrightarrow> pass = (ts_MaxReplicas spec, isolated)"
    and "lagHigh \<Longrightarrow> \<not> latencyHigh \<Longrightarrow> sint b < sint partitionCount \<Longrightarrow> pass = (headroom spec partitionCount, isolated)"
    and "lagHigh \<Longrightarrow> \<not> latencyHigh \<Longrightarrow> \<not> sint b < sint partitionCount \<Longrightarrow> pass = (b, True)"
    and "\<not> lagHigh \<Longrightarrow> pass = (b, isolated)"
  by (simp_all add: assms decide_def classify_def Let_def)

lemma baseline_simps:
  "sint (ts_MinReplicas spec) \<le> sint r \<Longrightarrow> baseline_replicas spec r = r"
  "sint (ts_MinReplicas spec) \<le> sint (baseline_replicas spec r)"
  by (simp_all add: baseline_replicas_def)

lemma headroom_min: "spec_valid spec \<Longrightarrow> sint (ts_MinReplicas spec) \<le> sint (headroom spec partitionCount)"
  by (simp add: clampReplicas_def spec_valid_def)



text \<open>
  The reported state of an isolated tenant does revert, while the isolation does not. The resource's
  documentation says that the state \<open>Isolated\<close> does not auto-revert; for a tenant already isolated the
  table returns \<open>Scaling\<close> or \<open>Degraded\<close> as soon as latency is high.
\<close>

theorem isolated_state_reverts:
  "rd_state (classify demo_spec 4 True 5000 60 4) = TradingTenantStateScaling
   \<and> rd_state (classify demo_spec 4 True 10 60 4) = TradingTenantStateDegraded"
  by (simp add: classify_def demo_spec_def)

end
