(* ===== verification/TenantMap.thy ===== *)
theory TenantMap
  imports Operator Partitioner
begin

text \<open>
  The shared tenant-partition-map ConfigMap, \<open>src/operator/internal/controller/tenant_partition_map.go\<close>: reading the
  map, changing one tenant's entry and writing it back. A mapping is an association list without
  repeated keys, None being Go's nil map; assigning to an entry of the nil map is a run-time panic,
  here the error \<open>nil_map_panic\<close>. The retry after a lost create race recurses, so the function is partial.
\<close>

section \<open>Model of tenant\_partition\_map.go\<close>

definition tenantPartitionMapName :: string where "tenantPartitionMapName = ''tenant-partition-map''"
definition tenantPartitionMapDataKey :: string where "tenantPartitionMapDataKey = ''mapping.json''"

type_synonym mapping = "(string \<times> tenantPartitionMapEntry) list"

definition decodeTenantPartitionMap :: "string \<Rightarrow> mapping option result" where
  "decodeTenantPartitionMap raw =
     (if raw = [] then Inr (Some [])
      else case unmarshal_entries raw of None \<Rightarrow> Inl (Msg ''invalid mapping'') | Some mapping \<Rightarrow> Inr mapping)"

definition encode_mapping :: "mapping option \<Rightarrow> string" where
  "encode_mapping m = (case m of None \<Rightarrow> ''null'' | Some es \<Rightarrow> marshal_entries (sort_key fst es))"

definition nil_map_panic :: goerror where
  "nil_map_panic = Sentinel ''panic: assignment to entry in nil map''"

definition data_value :: "ConfigMap \<Rightarrow> string \<Rightarrow> string" where
  "data_value cm k = (case cm_Data cm of None \<Rightarrow> [] | Some d \<Rightarrow> (case map_of d k of None \<Rightarrow> [] | Some v \<Rightarrow> v))"

definition set_data :: "string \<Rightarrow> string \<Rightarrow> ConfigMap \<Rightarrow> ConfigMap" where
  "set_data k v cm = cm\<lparr>cm_Data := Some (AList.update k v (case cm_Data cm of None \<Rightarrow> [] | Some d \<Rightarrow> d))\<rparr>"

definition new_map :: "string \<Rightarrow> ConfigMap" where
  "new_map namespace = \<lparr>cm_Namespace = namespace, cm_Name = tenantPartitionMapName, cm_Owner = None, cm_Labels = [], cm_Data = None\<rparr>"

text \<open>What is to be written for the ConfigMap as read: an error, nothing, or the new object.\<close>

definition map_write :: "bool \<Rightarrow> ConfigMap \<Rightarrow> (mapping option \<Rightarrow> mapping option result) \<Rightarrow> ConfigMap option result" where
  "map_write notFound configMap mutate =
     bind_res (wrap_res ''decode tenant partition map'' (decodeTenantPartitionMap (data_value configMap tenantPartitionMapDataKey))) (\<lambda>old.
     bind_res (mutate old) (\<lambda>mapping.
     let encoded = encode_mapping mapping
     in if notFound \<and> entries_of mapping = [] then Inr None
        else if \<not> notFound \<and> data_value configMap tenantPartitionMapDataKey = encoded then Inr None
        else Inr (Some (set_data tenantPartitionMapDataKey encoded configMap))))"

partial_function (option) mutateTenantPartitionMap ::
    "'w kube_client \<Rightarrow> ctx \<Rightarrow> string \<Rightarrow> (mapping option \<Rightarrow> mapping option result) \<Rightarrow> 'w \<Rightarrow> (error \<times> 'w) option" where
  "mutateTenantPartitionMap client ctx namespace mutate w =
     (case k_GetConfigMap client ctx (namespace, tenantPartitionMapName) w of
        (Inl NotFound, w1) \<Rightarrow>
          (case map_write True (new_map namespace) mutate of
             Inl err \<Rightarrow> Some (Some err, w1)
           | Inr None \<Rightarrow> Some (None, w1)
           | Inr (Some configMap) \<Rightarrow>
               (case k_CreateConfigMap client ctx configMap w1 of
                  (None, w2) \<Rightarrow> Some (None, w2)
                | (Some AlreadyExists, w2) \<Rightarrow> mutateTenantPartitionMap client ctx namespace mutate w2
                | (Some err, w2) \<Rightarrow> Some (Some (Wrap ''create tenant partition map'' (api_goerror err)), w2)))
      | (Inl err, w1) \<Rightarrow> Some (Some (Wrap ''get tenant partition map'' (api_goerror err)), w1)
      | (Inr configMap, w1) \<Rightarrow>
          (case map_write False configMap mutate of
             Inl err \<Rightarrow> Some (Some err, w1)
           | Inr None \<Rightarrow> Some (None, w1)
           | Inr (Some configMap) \<Rightarrow>
               (case k_UpdateConfigMap client ctx configMap w1 of
                  (None, w2) \<Rightarrow> Some (None, w2)
                | (Some err, w2) \<Rightarrow> Some (Some (Wrap ''update tenant partition map'' (api_goerror err)), w2))))"

definition put_entry :: "string \<Rightarrow> tenantPartitionMapEntry \<Rightarrow> mapping option \<Rightarrow> mapping option result" where
  "put_entry tenantID entry m = (case m of None \<Rightarrow> Inl nil_map_panic | Some es \<Rightarrow> Inr (Some (AList.update tenantID entry es)))"

definition delete_entry :: "string \<Rightarrow> mapping option \<Rightarrow> mapping option result" where
  "delete_entry tenantID m = Inr (map_option (AList.delete tenantID) m)"

definition ensureTenantPartitionMapEntry ::
    "'w kube_client \<Rightarrow> ctx \<Rightarrow> TradingTenant \<Rightarrow> int32 \<Rightarrow> int32 \<Rightarrow> 'w \<Rightarrow> (error \<times> 'w) option" where
  "ensureTenantPartitionMapEntry client ctx tenant start cnt =
     mutateTenantPartitionMap client ctx (tt_Namespace tenant) (put_entry (ts_TenantID (tt_Spec tenant)) \<lparr>pe_Start = start, pe_Count = cnt\<rparr>)"

definition removeTenantPartitionMapEntry :: "'w kube_client \<Rightarrow> ctx \<Rightarrow> TradingTenant \<Rightarrow> 'w \<Rightarrow> (error \<times> 'w) option" where
  "removeTenantPartitionMapEntry client ctx tenant =
     mutateTenantPartitionMap client ctx (tt_Namespace tenant) (delete_entry (ts_TenantID (tt_Spec tenant)))"

section \<open>Encoding and decoding\<close>

definition text_keys :: "mapping \<Rightarrow> bool" where
  "text_keys es \<longleftrightarrow> distinct (map fst es) \<and> list_all valid_utf8 (map fst es)"

lemma text_keys_sort: "text_keys es \<Longrightarrow> text_keys (sort_key fst es)"
  by (simp add: text_keys_def list_all_iff distinct_map)

lemma map_of_sort: "distinct (map fst es) \<Longrightarrow> map_of (sort_key fst es) = map_of es"
  by (rule map_of_eqI) (auto simp: distinct_map)

lemma decode_encode:
  "text_keys es \<Longrightarrow> decodeTenantPartitionMap (encode_mapping (Some es)) = Inr (Some (sort_key fst es))"
  using text_keys_sort unmarshal_marshal_entries [of "sort_key fst es"]
  by (auto simp: decodeTenantPartitionMap_def encode_mapping_def text_keys_def marshal_entries_def json_object_def)

lemma data_value_set [simp]: "data_value (set_data k v cm) k = v"
  by (simp add: data_value_def set_data_def update_conv')

section \<open>The effect on the cluster\<close>

text \<open>The ConfigMaps in the cluster, and what the API server promises about them when nobody else writes.\<close>

type_synonym config_maps = "string \<times> string \<Rightarrow> ConfigMap option"

definition cm_key :: "ConfigMap \<Rightarrow> string \<times> string" where
  "cm_key cm = (cm_Namespace cm, cm_Name cm)"

definition get_laws :: "'w kube_client \<Rightarrow> ('w \<Rightarrow> config_maps) \<Rightarrow> bool" where
  "get_laws client view \<longleftrightarrow>
     (\<forall>ctx k w. case k_GetConfigMap client ctx k w of
        (Inr cm, w') \<Rightarrow> view w' = view w \<and> view w k = Some cm \<and> cm_key cm = k
      | (Inl e, w') \<Rightarrow> view w' = view w \<and> (e = NotFound \<longrightarrow> view w k = None))"

definition create_laws :: "'w kube_client \<Rightarrow> ('w \<Rightarrow> config_maps) \<Rightarrow> bool" where
  "create_laws client view \<longleftrightarrow>
     (\<forall>ctx cm w. case k_CreateConfigMap client ctx cm w of
        (None, w') \<Rightarrow> view w' = (view w)(cm_key cm \<mapsto> cm)
      | (Some e, w') \<Rightarrow> view w' = view w \<and> (e = AlreadyExists \<longrightarrow> view w (cm_key cm) \<noteq> None))"

definition update_laws :: "'w kube_client \<Rightarrow> ('w \<Rightarrow> config_maps) \<Rightarrow> bool" where
  "update_laws client view \<longleftrightarrow>
     (\<forall>ctx cm w. case k_UpdateConfigMap client ctx cm w of
        (None, w') \<Rightarrow> view w' = (view w)(cm_key cm \<mapsto> cm)
      | (Some e, w') \<Rightarrow> view w' = view w)"

definition stores_maps :: "'w kube_client \<Rightarrow> ('w \<Rightarrow> config_maps) \<Rightarrow> bool" where
  "stores_maps client view \<longleftrightarrow> get_laws client view \<and> create_laws client view \<and> update_laws client view"

lemma get_found:
  "get_laws client view \<Longrightarrow> k_GetConfigMap client ctx k w = (Inr cm, w') \<Longrightarrow> view w' = view w \<and> view w k = Some cm \<and> cm_key cm = k"
  unfolding get_laws_def by (drule spec [of _ ctx], drule spec [of _ k], drule spec [of _ w]) simp

lemma get_missing:
  "get_laws client view \<Longrightarrow> k_GetConfigMap client ctx k w = (Inl e, w') \<Longrightarrow> view w' = view w \<and> (e = NotFound \<longrightarrow> view w k = None)"
  unfolding get_laws_def by (drule spec [of _ ctx], drule spec [of _ k], drule spec [of _ w]) simp

lemma create_result:
  "create_laws client view \<Longrightarrow> k_CreateConfigMap client ctx cm w = (e, w')
    \<Longrightarrow> view w' = (if e = None then (view w)(cm_key cm \<mapsto> cm) else view w) \<and> (e = Some AlreadyExists \<longrightarrow> view w (cm_key cm) \<noteq> None)"
  unfolding create_laws_def by (drule spec [of _ ctx], drule spec [of _ cm], drule spec [of _ w]) (cases e; simp)

lemma update_result:
  "update_laws client view \<Longrightarrow> k_UpdateConfigMap client ctx cm w = (e, w')
    \<Longrightarrow> view w' = (if e = None then (view w)(cm_key cm \<mapsto> cm) else view w)"
  unfolding update_laws_def by (drule spec [of _ ctx], drule spec [of _ cm], drule spec [of _ w]) (cases e; simp)

text \<open>The mapping a namespace has; without the ConfigMap it is empty.\<close>

definition tenant_map :: "config_maps \<Rightarrow> string \<Rightarrow> mapping option result" where
  "tenant_map cms namespace =
     (case cms (namespace, tenantPartitionMapName) of None \<Rightarrow> Inr (Some [])
      | Some cm \<Rightarrow> decodeTenantPartitionMap (data_value cm tenantPartitionMapDataKey))"

lemma map_write_cases:
  fixes notFound cm mutate
  defines "r \<equiv> map_write notFound cm mutate"
  assumes "decodeTenantPartitionMap (data_value cm tenantPartitionMapDataKey) = Inr (Some es)" "mutate (Some es) = Inr (Some es')" "text_keys es'"
  shows "r = Inr None \<and> notFound \<and> es' = [] \<or> r = Inr None \<and> \<not> notFound \<and> es = sort_key fst es'
    \<or> r = Inr (Some (set_data tenantPartitionMapDataKey (encode_mapping (Some es')) cm))"
proof -
  have r: "r = (if notFound \<and> es' = [] then Inr None
      else if \<not> notFound \<and> data_value cm tenantPartitionMapDataKey = encode_mapping (Some es') then Inr None
      else Inr (Some (set_data tenantPartitionMapDataKey (encode_mapping (Some es')) cm)))"
    unfolding r_def by (simp add: map_write_def assms(2,3) entries_of_def Let_def)
  have "es = sort_key fst es'" if "data_value cm tenantPartitionMapDataKey = encode_mapping (Some es')"
    using that assms(2) decode_encode [OF assms(4)] by simp
  then show ?thesis unfolding r by (simp split: if_splits)
qed

lemma new_map_simps [simp]:
  "data_value (new_map namespace) k = []" "cm_key (new_map namespace) = (namespace, tenantPartitionMapName)"
  "cm_key (set_data k v cm) = cm_key cm"
  by (simp_all add: new_map_def data_value_def cm_key_def set_data_def)

text \<open>The outcome of a change: the new mapping is stored, or nothing changed.\<close>

definition map_changed :: "string \<Rightarrow> mapping \<Rightarrow> config_maps \<Rightarrow> error \<times> config_maps \<Rightarrow> bool" where
  "map_changed namespace es' cms r \<longleftrightarrow>
     (\<forall>k. k \<noteq> (namespace, tenantPartitionMapName) \<longrightarrow> snd r k = cms k)
     \<and> (if fst r = None then \<exists>es''. tenant_map (snd r) namespace = Inr (Some es'') \<and> map_of es'' = map_of es' \<and> text_keys es''
        else snd r = cms)"

lemma map_changed_error: "map_changed namespace es' cms (Some err, cms)"
  by (simp add: map_changed_def)

lemma map_changed_same: "tenant_map cms namespace = Inr (Some es'') \<Longrightarrow> map_of es'' = map_of es' \<Longrightarrow> text_keys es'' \<Longrightarrow> map_changed namespace es' cms (None, cms)"
  by (simp add: map_changed_def)

lemma map_changed_put:
  assumes "text_keys es'"
  shows "map_changed namespace es' cms (None, cms((namespace, tenantPartitionMapName) \<mapsto> set_data tenantPartitionMapDataKey (encode_mapping (Some es')) cm))"
  using assms decode_encode [OF assms] map_of_sort [of es'] text_keys_sort [OF assms]
  by (simp add: map_changed_def tenant_map_def text_keys_def)

definition mutate_ok :: "'w kube_client \<Rightarrow> ctx \<Rightarrow> string \<Rightarrow> (mapping option \<Rightarrow> mapping option result) \<Rightarrow> ('w \<Rightarrow> config_maps) \<Rightarrow> mapping \<Rightarrow> 'w \<Rightarrow> bool" where
  "mutate_ok client ctx namespace mutate view es' w \<longleftrightarrow>
     (case mutateTenantPartitionMap client ctx namespace mutate w of None \<Rightarrow> False | Some (err, w') \<Rightarrow> map_changed namespace es' (view w) (err, view w'))"

lemma mutate_found:
  assumes laws: "stores_maps client view" and g: "k_GetConfigMap client ctx (namespace, tenantPartitionMapName) w = (Inr cm, w1)"
    and old: "tenant_map (view w) namespace = Inr (Some es)" and "mutate (Some es) = Inr (Some es')" "text_keys es'"
  shows "mutate_ok client ctx namespace mutate view es' w"
proof -
  let ?k = "(namespace, tenantPartitionMapName)" and ?cm = "set_data tenantPartitionMapDataKey (encode_mapping (Some es')) cm"
  have v: "view w1 = view w" "view w ?k = Some cm" "cm_key cm = ?k" using get_found [OF _ g] laws by (auto simp: stores_maps_def)
  then have d: "decodeTenantPartitionMap (data_value cm tenantPartitionMapDataKey) = Inr (Some es)" using old by (simp add: tenant_map_def)
  obtain e w2 where u: "k_UpdateConfigMap client ctx ?cm w1 = (e, w2)" by fastforce
  then have v2: "view w2 = (if e = None then (view w)(?k \<mapsto> ?cm) else view w)"
    using update_result [OF _ u, of view] laws v by (simp add: stores_maps_def)
  consider "map_write False cm mutate = Inr None" "es = sort_key fst es'" | "map_write False cm mutate = Inr (Some ?cm)"
    using map_write_cases [where notFound = False and mutate = mutate, OF d assms(4,5)] by blast
  then show ?thesis
  proof cases
    case 1
    then have "map_of es = map_of es'" "text_keys es" using assms(5) map_of_sort text_keys_sort by (auto simp: text_keys_def)
    then show ?thesis using 1 g v(1) map_changed_same [OF old] by (simp add: mutate_ok_def mutateTenantPartitionMap.simps [of client ctx namespace])
  next
    case 2
    then show ?thesis using g u v2 map_changed_put [OF assms(5)] map_changed_error
      by (cases e) (simp_all add: mutate_ok_def mutateTenantPartitionMap.simps [of client ctx namespace])
  qed
qed

lemma mutate_missing:
  assumes laws: "stores_maps client view" and g: "k_GetConfigMap client ctx (namespace, tenantPartitionMapName) w = (Inl NotFound, w1)"
    and old: "tenant_map (view w) namespace = Inr (Some es)" and "mutate (Some es) = Inr (Some es')" "text_keys es'"
  shows "mutate_ok client ctx namespace mutate view es' w"
proof -
  let ?k = "(namespace, tenantPartitionMapName)" and ?cm = "set_data tenantPartitionMapDataKey (encode_mapping (Some es')) (new_map namespace)"
  have v: "view w1 = view w" "view w ?k = None" using get_missing [OF _ g] laws by (auto simp: stores_maps_def)
  then have es: "es = []" using old by (simp add: tenant_map_def)
  then have d: "decodeTenantPartitionMap (data_value (new_map namespace) tenantPartitionMapDataKey) = Inr (Some es)"
    by (simp add: decodeTenantPartitionMap_def)
  obtain e w2 where u: "k_CreateConfigMap client ctx ?cm w1 = (e, w2)" by fastforce
  then have v2: "view w2 = (if e = None then (view w)(?k \<mapsto> ?cm) else view w)" "e \<noteq> Some AlreadyExists"
    using create_result [OF _ u, of view] laws v by (auto simp: stores_maps_def)
  consider "map_write True (new_map namespace) mutate = Inr None" "es' = []" | "map_write True (new_map namespace) mutate = Inr (Some ?cm)"
    using map_write_cases [where notFound = True and mutate = mutate, OF d assms(4,5)] by blast
  then show ?thesis
  proof cases
    case 1
    then show ?thesis using g v(1) es assms(5) map_changed_same [OF old] by (simp add: mutate_ok_def mutateTenantPartitionMap.simps [of client ctx namespace])
  next
    case 2
    then show ?thesis using g u v2 map_changed_put [OF assms(5)] map_changed_error
      by (cases e) (auto simp: mutate_ok_def mutateTenantPartitionMap.simps [of client ctx namespace] split: api_error.splits)
  qed
qed

lemma mutate_effect:
  assumes "stores_maps client view" "tenant_map (view w) namespace = Inr (Some es)" "mutate (Some es) = Inr (Some es')" "text_keys es'"
  shows "mutate_ok client ctx namespace mutate view es' w"
proof -
  obtain r w1 where g: "k_GetConfigMap client ctx (namespace, tenantPartitionMapName) w = (r, w1)" by fastforce
  consider cm where "r = Inr cm" | "r = Inl NotFound" | e where "r = Inl e" "e \<noteq> NotFound" by (cases r) auto
  then show ?thesis
  proof cases
    case 1
    then show ?thesis using mutate_found [where mutate = mutate, OF assms(1) _ assms(2-4)] g by auto
  next
    case 2
    then show ?thesis using mutate_missing [where mutate = mutate, OF assms(1) _ assms(2-4)] g by auto
  next
    case 3
    then have "view w1 = view w" using get_missing [of client view ctx] assms(1) g by (auto simp: stores_maps_def)
    then show ?thesis using 3 g map_changed_error
      by (cases e) (simp_all add: mutate_ok_def mutateTenantPartitionMap.simps [of client ctx namespace])
  qed
qed

lemma text_keys_update: "text_keys es \<Longrightarrow> valid_utf8 k \<Longrightarrow> text_keys (AList.update k v es)"
  using dom_update [of k v es] by (auto simp: text_keys_def distinct_update list_all_iff)

lemma text_keys_delete: "text_keys es \<Longrightarrow> text_keys (AList.delete k es)"
  by (auto simp: text_keys_def list_all_iff delete_keys distinct_removeAll)

text \<open>
  C20: publishing and removing an entry change exactly that entry. When nobody else writes and the map can
  be decoded, \<open>ensureTenantPartitionMapEntry\<close> returns; if it returns no error the stored map is the old one
  with the tenant's range set, every other tenant's entry and every other ConfigMap kept; if it returns an error
  nothing changed. The same holds for \<open>removeTenantPartitionMapEntry\<close> and the map without the entry.
\<close>

theorem partition_map_entry:
  assumes "stores_maps client view" "tenant_map (view w) (tt_Namespace tenant) = Inr (Some es)" "text_keys es"
    and "valid_utf8 (ts_TenantID (tt_Spec tenant))"
  shows "(case ensureTenantPartitionMapEntry client ctx tenant start cnt w of None \<Rightarrow> False
      | Some (err, w') \<Rightarrow> map_changed (tt_Namespace tenant) (AList.update (ts_TenantID (tt_Spec tenant)) \<lparr>pe_Start = start, pe_Count = cnt\<rparr> es)
                            (view w) (err, view w'))
    \<and> (case removeTenantPartitionMapEntry client ctx tenant w of None \<Rightarrow> False
      | Some (err, w') \<Rightarrow> map_changed (tt_Namespace tenant) (AList.delete (ts_TenantID (tt_Spec tenant)) es) (view w) (err, view w'))"
  using mutate_effect [where mutate = "put_entry (ts_TenantID (tt_Spec tenant)) \<lparr>pe_Start = start, pe_Count = cnt\<rparr>",
      OF assms(1,2) _ text_keys_update [OF assms(3,4)]]
    mutate_effect [where mutate = "delete_entry (ts_TenantID (tt_Spec tenant))", OF assms(1,2) _ text_keys_delete [OF assms(3)]]
  by (simp add: ensureTenantPartitionMapEntry_def removeTenantPartitionMapEntry_def put_entry_def delete_entry_def mutate_ok_def)

text \<open>A cluster that is nothing but its ConfigMaps; the other operations fail.\<close>

definition map_client :: "config_maps kube_client" where
  "map_client =
     \<lparr>k_GetTenant = (\<lambda>_ _ w. (Inl NotFound, w)), k_UpdateTenant = (\<lambda>_ _ w. (Inl NotFound, w)), k_UpdateStatus = (\<lambda>_ _ w. (Inl NotFound, w)),
      k_GetConfigMap = (\<lambda>_ k w. (case w k of None \<Rightarrow> Inl NotFound | Some cm \<Rightarrow> if cm_key cm = k then Inr cm else Inl (ApiErr (Msg ''corrupt'')), w)),
      k_CreateConfigMap = (\<lambda>_ cm w. if w (cm_key cm) = None then (None, w(cm_key cm \<mapsto> cm)) else (Some AlreadyExists, w)),
      k_UpdateConfigMap = (\<lambda>_ cm w. if w (cm_key cm) = None then (Some NotFound, w) else (None, w(cm_key cm \<mapsto> cm))),
      k_ApplyConfigMap = (\<lambda>_ _ _ w. (Inr OperationResultNone, w)), k_ApplyDeployment = (\<lambda>_ _ _ w. (Inr OperationResultNone, w)),
      k_ApplyService = (\<lambda>_ _ _ w. (Inr OperationResultNone, w)), k_Delete = (\<lambda>_ _ w. (Some NotFound, w)), k_SetControllerReference = (\<lambda>_. Inr)\<rparr>"

lemma map_client_stores: "stores_maps map_client (\<lambda>w. w)"
  by (auto simp: stores_maps_def get_laws_def create_laws_def update_laws_def map_client_def split: option.splits)

definition demo_tenant :: TradingTenant where
  "demo_tenant = \<lparr>tt_Namespace = ''default'', tt_Name = ''acme-tenant'', tt_Spec = demo_spec,
     tt_Status = \<lparr>tu_CurrentReplicas = 2, tu_State = [], tu_ObservedKafkaLag = 0, tu_ObservedP99Ms = 0, tu_ObservedPartitionCount = 0, tu_LastReconcileTime = 0\<rparr>\<rparr>"

lemma demo_tenant_text: "valid_utf8 (ts_TenantID (tt_Spec demo_tenant))"
  by (simp add: demo_tenant_def demo_spec_def valid_utf8_ascii is_ascii_def)

theorem partition_map_entry_witness:
  "stores_maps map_client (\<lambda>w. w) \<and> tenant_map Map.empty ''default'' = Inr (Some [])
   \<and> (\<exists>err w'. ensureTenantPartitionMapEntry map_client None demo_tenant 4 2 Map.empty = Some (err, w')
       \<and> (err = None \<longrightarrow> (\<exists>es. tenant_map w' ''default'' = Inr (Some es) \<and> map_of es ''acme'' = Some \<lparr>pe_Start = 4, pe_Count = 2\<rparr>)))"
proof -
  have empty: "tenant_map Map.empty (tt_Namespace demo_tenant) = Inr (Some [])" "text_keys []" by (simp_all add: tenant_map_def text_keys_def)
  show ?thesis
    using partition_map_entry [where client = map_client and view = "\<lambda>w. w" and w = Map.empty and tenant = demo_tenant and es = "[]" and ctx = None
        and start = 4 and cnt = 2] map_client_stores empty demo_tenant_text
    by (auto simp: map_changed_def demo_tenant_def demo_spec_def split: option.splits)
qed

text \<open>
  A stored mapping of \<open>null\<close> is accepted when it is read and makes every isolation pass panic. JSON's \<open>null\<close>
  leaves the nil map in place of the one \<open>decodeTenantPartitionMap\<close> makes, against its promise of a
  mapping ready to mutate; removing an entry then succeeds, setting one assigns to the nil map.
\<close>

theorem null_mapping_panics:
  "decodeTenantPartitionMap ''null'' = Inr None
   \<and> put_entry tenantID entry None = Inl nil_map_panic \<and> delete_entry tenantID None = Inr None
   \<and> (\<exists>w'. ensureTenantPartitionMapEntry map_client ctx demo_tenant start cnt
            [(''default'', tenantPartitionMapName) \<mapsto> set_data tenantPartitionMapDataKey ''null'' (new_map ''default'')] = Some (Some nil_map_panic, w'))"
proof -
  have null: "decodeTenantPartitionMap ''null'' = Inr None" by code_simp
  then show ?thesis
    by (simp add: ensureTenantPartitionMapEntry_def mutateTenantPartitionMap.simps map_client_def demo_tenant_def map_write_def put_entry_def delete_entry_def)
qed

end
