(* ===== verification/DedicatedPool.thy ===== *)
theory DedicatedPool
  imports TenantMap
begin

text \<open>
  The dedicated resources of an isolated tenant, \<open>src/operator/internal/controller/dedicated_pool.go\<close>: names and labels,
  the partition list in the ConfigMap, the four get-or-create steps, and the teardown. What the code does to
  an object is the mutate function handed to \<open>controllerutil.CreateOrUpdate\<close>.
\<close>

section \<open>Names, labels and the partition list\<close>

definition componentIngestion :: string where "componentIngestion = ''ingestion''"
definition componentProcessor :: string where "componentProcessor = ''processor''"
definition labelTenant :: string where "labelTenant = ''controlplane.anwinsenp.dev/tenant''"
definition labelDedicated :: string where "labelDedicated = ''controlplane.anwinsenp.dev/dedicated''"
definition labelComponent :: string where "labelComponent = ''controlplane.anwinsenp.dev/component''"
definition ingestionHTTPPort :: int32 where "ingestionHTTPPort = 8080"
definition ingestionGRPCPort :: int32 where "ingestionGRPCPort = 9090"
definition tenantPartitionMapVolumeName :: string where "tenantPartitionMapVolumeName = ''tenant-partition-map''"
definition tenantPartitionMapMountDir :: string where "tenantPartitionMapMountDir = ''/etc/tenant-partition-map''"
definition tenantPartitionMapMountPath :: string where
  "tenantPartitionMapMountPath = tenantPartitionMapMountDir @ ''/'' @ tenantPartitionMapDataKey"

definition tenantPartitionMapVolume :: Volume where
  "tenantPartitionMapVolume = \<lparr>vo_Name = tenantPartitionMapVolumeName, vo_ConfigMap = tenantPartitionMapName, vo_Optional = True\<rparr>"

definition tenantPartitionMapVolumeMount :: VolumeMount where
  "tenantPartitionMapVolumeMount = \<lparr>vm_Name = tenantPartitionMapVolumeName, vm_MountPath = tenantPartitionMapMountDir, vm_ReadOnly = True\<rparr>"

definition dedicatedIngestionName :: "TradingTenant \<Rightarrow> string" where
  "dedicatedIngestionName tenant = tt_Name tenant @ ''-dedicated-ingestion''"

definition dedicatedProcessorName :: "TradingTenant \<Rightarrow> string" where
  "dedicatedProcessorName tenant = tt_Name tenant @ ''-dedicated-processor''"

definition dedicatedServiceName :: "TradingTenant \<Rightarrow> string" where
  "dedicatedServiceName tenant = tt_Name tenant @ ''-dedicated''"

definition dedicatedConfigMapName :: "TradingTenant \<Rightarrow> string" where
  "dedicatedConfigMapName tenant = tt_Name tenant @ ''-dedicated-partitions''"

definition dedicatedLabels :: "TradingTenant \<Rightarrow> string \<Rightarrow> labels" where
  "dedicatedLabels tenant component =
     [(labelTenant, ts_TenantID (tt_Spec tenant)), (labelDedicated, ''true'')] @ (if component \<noteq> [] then [(labelComponent, component)] else [])"

text \<open>\<open>start + index\<close> is a 32-bit addition.\<close>

definition partitionListString :: "int32 \<Rightarrow> int32 \<Rightarrow> string" where
  "partitionListString start cnt =
     (if sint cnt \<le> 0 then []
      else strings_Join (map (\<lambda>index. Itoa (sint (start + of_nat index))) [0..<nat (sint cnt)]) (CHR '',''))"

section \<open>Get or create\<close>

definition new_ConfigMap :: "string \<Rightarrow> string \<Rightarrow> ConfigMap" where
  "new_ConfigMap ns name = \<lparr>cm_Namespace = ns, cm_Name = name, cm_Owner = None, cm_Labels = [], cm_Data = None\<rparr>"

definition new_Deployment :: "string \<Rightarrow> string \<Rightarrow> Deployment" where
  "new_Deployment ns name =
     \<lparr>dp_Namespace = ns, dp_Name = name, dp_Owner = None, dp_Labels = [], dp_Selector = None, dp_Replicas = None, dp_TemplateLabels = [],
      dp_NodeSelector = None, dp_Tolerations = [], dp_Volumes = [], dp_Containers = [], dp_Rest = []\<rparr>"

definition new_Service :: "string \<Rightarrow> string \<Rightarrow> Service" where
  "new_Service ns name = \<lparr>sv_Namespace = ns, sv_Name = name, sv_Owner = None, sv_Labels = [], sv_Selector = [], sv_Ports = []\<rparr>"

definition set_owner :: "'w TradingTenantReconciler \<Rightarrow> TradingTenant \<Rightarrow> string option \<Rightarrow> string option result" where
  "set_owner r tenant owner = wrap_res ''set controller reference'' (k_SetControllerReference (rc_Client r) tenant owner)"

definition mutate_ConfigMap :: "'w TradingTenantReconciler \<Rightarrow> TradingTenant \<Rightarrow> int32 \<Rightarrow> int32 \<Rightarrow> ConfigMap \<Rightarrow> ConfigMap result" where
  "mutate_ConfigMap r tenant partitionStart partitionCount configMap =
     bind_res (set_owner r tenant (cm_Owner configMap)) (\<lambda>owner.
       Inr (configMap\<lparr>cm_Owner := owner, cm_Labels := dedicatedLabels tenant [],
         cm_Data := Some [(''TENANT_ID'', ts_TenantID (tt_Spec tenant)), (''KAFKA_MANUAL_PARTITIONS'', partitionListString partitionStart partitionCount)]\<rparr>))"

definition ensureDedicatedConfigMap ::
    "'w TradingTenantReconciler \<Rightarrow> ctx \<Rightarrow> TradingTenant \<Rightarrow> int32 \<Rightarrow> int32 \<Rightarrow> 'w \<Rightarrow> OperationResult result \<times> 'w" where
  "ensureDedicatedConfigMap r ctx tenant partitionStart partitionCount =
     k_ApplyConfigMap (rc_Client r) ctx (new_ConfigMap (tt_Namespace tenant) (dedicatedConfigMapName tenant))
       (mutate_ConfigMap r tenant partitionStart partitionCount)"

definition mutate_Deployment ::
    "'w TradingTenantReconciler \<Rightarrow> TradingTenant \<Rightarrow> labels \<Rightarrow> int32 \<Rightarrow> Container \<Rightarrow> Deployment \<Rightarrow> Deployment result" where
  "mutate_Deployment r tenant labels replicas container deployment =
     bind_res (set_owner r tenant (dp_Owner deployment)) (\<lambda>owner.
       Inr (deployment\<lparr>dp_Owner := owner, dp_Labels := labels,
         dp_Selector := (case dp_Selector deployment of None \<Rightarrow> Some labels | Some sel \<Rightarrow> Some sel),
         dp_Replicas := Some replicas, dp_TemplateLabels := labels, dp_NodeSelector := rc_DedicatedNodeSelector r,
         dp_Tolerations := rc_DedicatedTolerations r, dp_Volumes := [tenantPartitionMapVolume], dp_Containers := [container]\<rparr>))"

definition ingestion_container :: "'w TradingTenantReconciler \<Rightarrow> Container" where
  "ingestion_container r =
     \<lparr>ct_Name = ''ingestion'', ct_Image = rc_IngestionImage r, ct_EnvFrom = rc_IngestionEnvFrom r,
      ct_Env = [(''TENANT_PARTITION_MAP_PATH'', tenantPartitionMapMountPath)], ct_VolumeMounts = [tenantPartitionMapVolumeMount],
      ct_Ports = [(''http'', ingestionHTTPPort), (''grpc'', ingestionGRPCPort)]\<rparr>"

definition ensureDedicatedIngestionDeployment ::
    "'w TradingTenantReconciler \<Rightarrow> ctx \<Rightarrow> TradingTenant \<Rightarrow> int32 \<Rightarrow> 'w \<Rightarrow> OperationResult result \<times> 'w" where
  "ensureDedicatedIngestionDeployment r ctx tenant replicas =
     k_ApplyDeployment (rc_Client r) ctx (new_Deployment (tt_Namespace tenant) (dedicatedIngestionName tenant))
       (mutate_Deployment r tenant (dedicatedLabels tenant componentIngestion) replicas (ingestion_container r))"

text \<open>The dedicated ConfigMap is appended to the processor's configured sources.\<close>

definition processor_container :: "'w TradingTenantReconciler \<Rightarrow> TradingTenant \<Rightarrow> Container" where
  "processor_container r tenant =
     \<lparr>ct_Name = ''processor'', ct_Image = rc_ProcessorImage r,
      ct_EnvFrom = rc_ProcessorEnvFrom r @ [ConfigMapRef (dedicatedConfigMapName tenant)],
      ct_Env = [(''TENANT_PARTITION_MAP_PATH'', tenantPartitionMapMountPath)], ct_VolumeMounts = [tenantPartitionMapVolumeMount], ct_Ports = []\<rparr>"

definition ensureDedicatedProcessorDeployment ::
    "'w TradingTenantReconciler \<Rightarrow> ctx \<Rightarrow> TradingTenant \<Rightarrow> int32 \<Rightarrow> 'w \<Rightarrow> OperationResult result \<times> 'w" where
  "ensureDedicatedProcessorDeployment r ctx tenant replicas =
     k_ApplyDeployment (rc_Client r) ctx (new_Deployment (tt_Namespace tenant) (dedicatedProcessorName tenant))
       (mutate_Deployment r tenant (dedicatedLabels tenant componentProcessor) replicas (processor_container r tenant))"

definition mutate_Service :: "'w TradingTenantReconciler \<Rightarrow> TradingTenant \<Rightarrow> Service \<Rightarrow> Service result" where
  "mutate_Service r tenant service =
     bind_res (set_owner r tenant (sv_Owner service)) (\<lambda>owner.
       Inr (service\<lparr>sv_Owner := owner, sv_Labels := dedicatedLabels tenant [], sv_Selector := dedicatedLabels tenant componentIngestion,
         sv_Ports := [\<lparr>sv_PortName = ''http'', sv_Port = ingestionHTTPPort, sv_TargetPort = ingestionHTTPPort\<rparr>,
                      \<lparr>sv_PortName = ''grpc'', sv_Port = ingestionGRPCPort, sv_TargetPort = ingestionGRPCPort\<rparr>]\<rparr>))"

definition ensureDedicatedService :: "'w TradingTenantReconciler \<Rightarrow> ctx \<Rightarrow> TradingTenant \<Rightarrow> 'w \<Rightarrow> OperationResult result \<times> 'w" where
  "ensureDedicatedService r ctx tenant =
     k_ApplyService (rc_Client r) ctx (new_Service (tt_Namespace tenant) (dedicatedServiceName tenant)) (mutate_Service r tenant)"

definition ensureDedicatedPool ::
    "'w TradingTenantReconciler \<Rightarrow> ctx \<Rightarrow> TradingTenant \<Rightarrow> int32 \<Rightarrow> int32 \<Rightarrow> int32 \<Rightarrow> 'w \<Rightarrow> bool result \<times> 'w" where
  "ensureDedicatedPool r ctx tenant partitionStart partitionCount replicas w =
     (case ensureDedicatedConfigMap r ctx tenant partitionStart partitionCount w of
        (Inl err, w1) \<Rightarrow> (Inl (Wrap ''dedicated configmap'' err), w1)
      | (Inr configMapResult, w1) \<Rightarrow>
      (case ensureDedicatedIngestionDeployment r ctx tenant replicas w1 of
        (Inl err, w2) \<Rightarrow> (Inl (Wrap ''dedicated ingestion deployment'' err), w2)
      | (Inr ingestionResult, w2) \<Rightarrow>
      (case ensureDedicatedProcessorDeployment r ctx tenant replicas w2 of
        (Inl err, w3) \<Rightarrow> (Inl (Wrap ''dedicated processor deployment'' err), w3)
      | (Inr processorResult, w3) \<Rightarrow>
      (case ensureDedicatedService r ctx tenant w3 of
        (Inl err, w4) \<Rightarrow> (Inl (Wrap ''dedicated service'' err), w4)
      | (Inr serviceResult, w4) \<Rightarrow>
          (Inr (configMapResult = OperationResultCreated \<or> ingestionResult = OperationResultCreated
                \<or> processorResult = OperationResultCreated \<or> serviceResult = OperationResultCreated), w4)))))"

section \<open>Teardown\<close>

definition dedicated_objects :: "TradingTenant \<Rightarrow> object_ref list" where
  "dedicated_objects tenant =
     [DeploymentRef (tt_Namespace tenant) (dedicatedIngestionName tenant), DeploymentRef (tt_Namespace tenant) (dedicatedProcessorName tenant),
      ServiceRef (tt_Namespace tenant) (dedicatedServiceName tenant), ConfigMapObject (tt_Namespace tenant) (dedicatedConfigMapName tenant)]"

fun delete_objects :: "'w kube_client \<Rightarrow> ctx \<Rightarrow> object_ref list \<Rightarrow> bool \<Rightarrow> 'w \<Rightarrow> bool result \<times> 'w" where
  "delete_objects client ctx [] anyDeleted w = (Inr anyDeleted, w)"
| "delete_objects client ctx (obj # objs) anyDeleted w =
     (case k_Delete client ctx obj w of
        (None, w1) \<Rightarrow> delete_objects client ctx objs True w1
      | (Some NotFound, w1) \<Rightarrow> delete_objects client ctx objs anyDeleted w1
      | (Some err, w1) \<Rightarrow> (Inl (Wrap ''delete'' (api_goerror err)), w1))"

definition tearDownDedicatedPool :: "'w TradingTenantReconciler \<Rightarrow> ctx \<Rightarrow> TradingTenant \<Rightarrow> 'w \<Rightarrow> bool result \<times> 'w" where
  "tearDownDedicatedPool r ctx tenant = delete_objects (rc_Client r) ctx (dedicated_objects tenant) False"

section \<open>The cluster\<close>

record cluster =
  cl_ConfigMaps :: config_maps
  cl_Deployments :: "string \<times> string \<Rightarrow> Deployment option"
  cl_Services :: "string \<times> string \<Rightarrow> Service option"

definition dp_key :: "Deployment \<Rightarrow> string \<times> string" where "dp_key d = (dp_Namespace d, dp_Name d)"
definition sv_key :: "Service \<Rightarrow> string \<times> string" where "sv_key s = (sv_Namespace s, sv_Name s)"

text \<open>
  What \<open>CreateOrUpdate\<close> documents, for the objects at one field of the cluster: the mutate function is applied to
  the stored object, or to the given one if there is none; the result is stored, and reported as
  created, updated or unchanged. An error leaves the cluster as it was.
\<close>

definition applies ::
    "('o \<Rightarrow> string \<times> string) \<Rightarrow> ('w \<Rightarrow> cluster) \<Rightarrow> (cluster \<Rightarrow> string \<times> string \<Rightarrow> 'o option)
      \<Rightarrow> ((string \<times> string \<Rightarrow> 'o option) \<Rightarrow> cluster \<Rightarrow> cluster)
      \<Rightarrow> (ctx \<Rightarrow> 'o \<Rightarrow> ('o \<Rightarrow> 'o result) \<Rightarrow> 'w \<Rightarrow> OperationResult result \<times> 'w) \<Rightarrow> bool" where
  "applies key view get put apply \<longleftrightarrow>
     (\<forall>ctx obj mutate w. case apply ctx obj mutate w of
        (Inl err, w') \<Rightarrow> view w' = view w
      | (Inr res, w') \<Rightarrow>
          (\<exists>new. mutate (case get (view w) (key obj) of None \<Rightarrow> obj | Some old \<Rightarrow> old) = Inr new
             \<and> view w' = put ((get (view w))(key obj \<mapsto> new)) (view w)
             \<and> res = (case get (view w) (key obj) of None \<Rightarrow> OperationResultCreated
                      | Some old \<Rightarrow> if new = old then OperationResultNone else OperationResultUpdated)))"

abbreviation put_cm :: "config_maps \<Rightarrow> cluster \<Rightarrow> cluster" where "put_cm m v \<equiv> v\<lparr>cl_ConfigMaps := m\<rparr>"
abbreviation put_dp :: "(string \<times> string \<Rightarrow> Deployment option) \<Rightarrow> cluster \<Rightarrow> cluster" where "put_dp m v \<equiv> v\<lparr>cl_Deployments := m\<rparr>"
abbreviation put_sv :: "(string \<times> string \<Rightarrow> Service option) \<Rightarrow> cluster \<Rightarrow> cluster" where "put_sv m v \<equiv> v\<lparr>cl_Services := m\<rparr>"

definition apply_laws :: "'w TradingTenantReconciler \<Rightarrow> ('w \<Rightarrow> cluster) \<Rightarrow> bool" where
  "apply_laws r view \<longleftrightarrow>
     applies cm_key view cl_ConfigMaps put_cm (k_ApplyConfigMap (rc_Client r))
     \<and> applies dp_key view cl_Deployments put_dp (k_ApplyDeployment (rc_Client r))
     \<and> applies sv_key view cl_Services put_sv (k_ApplyService (rc_Client r))
     \<and> (\<forall>tenant owner owner'. k_SetControllerReference (rc_Client r) tenant owner = Inr owner'
          \<longrightarrow> k_SetControllerReference (rc_Client r) tenant owner' = Inr owner')"

definition idem :: "('o \<Rightarrow> 'o result) \<Rightarrow> bool" where
  "idem mutate \<longleftrightarrow> (\<forall>x y. mutate x = Inr y \<longrightarrow> mutate y = Inr y)"

lemma applies_law:
  assumes "applies key view get put app" "app ctx obj mutate w = (r, w')"
  shows "case r of Inl err \<Rightarrow> view w' = view w
    | Inr res \<Rightarrow> (\<exists>new. mutate (case get (view w) (key obj) of None \<Rightarrow> obj | Some old \<Rightarrow> old) = Inr new
        \<and> view w' = put ((get (view w))(key obj \<mapsto> new)) (view w)
        \<and> res = (case get (view w) (key obj) of None \<Rightarrow> OperationResultCreated
                 | Some old \<Rightarrow> if new = old then OperationResultNone else OperationResultUpdated))"
proof -
  have "case app ctx obj mutate w of (Inl err, w') \<Rightarrow> view w' = view w
    | (Inr res, w') \<Rightarrow> (\<exists>new. mutate (case get (view w) (key obj) of None \<Rightarrow> obj | Some old \<Rightarrow> old) = Inr new
        \<and> view w' = put ((get (view w))(key obj \<mapsto> new)) (view w)
        \<and> res = (case get (view w) (key obj) of None \<Rightarrow> OperationResultCreated
                 | Some old \<Rightarrow> if new = old then OperationResultNone else OperationResultUpdated))"
    using assms(1) unfolding applies_def by - (drule spec [of _ ctx], drule spec [of _ obj], drule spec [of _ mutate], drule spec [of _ w], assumption)
  then show ?thesis unfolding assms(2) by (simp split: sum.splits)
qed

lemma applies_done:
  assumes "applies key view get put app" "app ctx obj mutate w = (Inr res, w')" "idem mutate"
  shows "\<exists>new. mutate new = Inr new \<and> view w' = put ((get (view w))(key obj \<mapsto> new)) (view w)"
  using applies_law [OF assms(1,2)] assms(3) unfolding idem_def by (simp split: sum.splits) blast

lemma applies_again:
  assumes "applies key view get put app" "app ctx obj mutate w = (r, w')" "get (view w) (key obj) = Some old" "mutate old = Inr old"
    and "put (get (view w)) (view w) = view w"
  shows "view w' = view w \<and> (\<forall>res. r = Inr res \<longrightarrow> res = OperationResultNone)"
proof -
  have upd: "(get (view w))(key obj \<mapsto> old) = get (view w)" using assms(3) by auto
  show ?thesis using applies_law [OF assms(1,2)] assms(3-5) upd by (auto split: sum.splits)
qed

section \<open>Provisioning is idempotent\<close>

lemma mutate_idempotent:
  assumes "apply_laws r view"
  shows "idem (mutate_ConfigMap r tenant a b)" "idem (mutate_Deployment r tenant ls n c)" "idem (mutate_Service r tenant)"
  using assms
  by (auto simp: idem_def mutate_ConfigMap_def mutate_Deployment_def mutate_Service_def set_owner_def apply_laws_def bind_res_Inr_iff split: option.splits)

text \<open>The four objects exist and are as the reconciler wants them.\<close>

definition pool_ready :: "'w TradingTenantReconciler \<Rightarrow> TradingTenant \<Rightarrow> int32 \<Rightarrow> int32 \<Rightarrow> int32 \<Rightarrow> cluster \<Rightarrow> bool" where
  "pool_ready r tenant partitionStart partitionCount replicas v \<longleftrightarrow>
     (\<exists>cm ing prc svc.
        cl_ConfigMaps v (tt_Namespace tenant, dedicatedConfigMapName tenant) = Some cm \<and> mutate_ConfigMap r tenant partitionStart partitionCount cm = Inr cm
      \<and> cl_Deployments v (tt_Namespace tenant, dedicatedIngestionName tenant) = Some ing
      \<and> mutate_Deployment r tenant (dedicatedLabels tenant componentIngestion) replicas (ingestion_container r) ing = Inr ing
      \<and> cl_Deployments v (tt_Namespace tenant, dedicatedProcessorName tenant) = Some prc
      \<and> mutate_Deployment r tenant (dedicatedLabels tenant componentProcessor) replicas (processor_container r tenant) prc = Inr prc
      \<and> cl_Services v (tt_Namespace tenant, dedicatedServiceName tenant) = Some svc \<and> mutate_Service r tenant svc = Inr svc)"

lemma new_keys [simp]:
  "cm_key (new_ConfigMap ns name) = (ns, name)" "dp_key (new_Deployment ns name) = (ns, name)" "sv_key (new_Service ns name) = (ns, name)"
  by (simp_all add: cm_key_def dp_key_def sv_key_def new_ConfigMap_def new_Deployment_def new_Service_def)

lemma pool_names_distinct: "dedicatedIngestionName tenant \<noteq> dedicatedProcessorName tenant"
  by (simp add: dedicatedIngestionName_def dedicatedProcessorName_def)

lemmas ensure_defs = ensureDedicatedConfigMap_def ensureDedicatedIngestionDeployment_def ensureDedicatedProcessorDeployment_def ensureDedicatedService_def

lemma ensureDedicatedPool_ready:
  assumes laws: "apply_laws r view" and run: "ensureDedicatedPool r ctx tenant a b n w = (Inr created, w')"
  shows "pool_ready r tenant a b n (view w')
    \<and> (\<forall>k. k \<noteq> (tt_Namespace tenant, dedicatedConfigMapName tenant) \<longrightarrow> cl_ConfigMaps (view w') k = cl_ConfigMaps (view w) k)"
proof -
  note law = laws [unfolded apply_laws_def, THEN conjunct1] laws [unfolded apply_laws_def, THEN conjunct2, THEN conjunct1]
    laws [unfolded apply_laws_def, THEN conjunct2, THEN conjunct2, THEN conjunct1]
  obtain x1 w1 x2 w2 x3 w3 x4 where s: "ensureDedicatedConfigMap r ctx tenant a b w = (Inr x1, w1)" "ensureDedicatedIngestionDeployment r ctx tenant n w1 = (Inr x2, w2)"
      "ensureDedicatedProcessorDeployment r ctx tenant n w2 = (Inr x3, w3)" "ensureDedicatedService r ctx tenant w3 = (Inr x4, w')"
    using run by (auto simp: ensureDedicatedPool_def split: prod.splits sum.splits)
  obtain cm where cm: "mutate_ConfigMap r tenant a b cm = Inr cm"
      "view w1 = put_cm ((cl_ConfigMaps (view w))((tt_Namespace tenant, dedicatedConfigMapName tenant) \<mapsto> cm)) (view w)"
    using applies_done [OF law(1) s(1) [unfolded ensure_defs] mutate_idempotent(1) [OF laws]] by auto
  obtain ing where ing: "mutate_Deployment r tenant (dedicatedLabels tenant componentIngestion) n (ingestion_container r) ing = Inr ing"
      "view w2 = put_dp ((cl_Deployments (view w1))((tt_Namespace tenant, dedicatedIngestionName tenant) \<mapsto> ing)) (view w1)"
    using applies_done [OF law(2) s(2) [unfolded ensure_defs] mutate_idempotent(2) [OF laws]] by auto
  obtain prc where prc: "mutate_Deployment r tenant (dedicatedLabels tenant componentProcessor) n (processor_container r tenant) prc = Inr prc"
      "view w3 = put_dp ((cl_Deployments (view w2))((tt_Namespace tenant, dedicatedProcessorName tenant) \<mapsto> prc)) (view w2)"
    using applies_done [OF law(2) s(3) [unfolded ensure_defs] mutate_idempotent(2) [OF laws]] by auto
  obtain svc where svc: "mutate_Service r tenant svc = Inr svc"
      "view w' = put_sv ((cl_Services (view w3))((tt_Namespace tenant, dedicatedServiceName tenant) \<mapsto> svc)) (view w3)"
    using applies_done [OF law(3) s(4) [unfolded ensure_defs] mutate_idempotent(3) [OF laws]] by auto
  show ?thesis using cm ing prc svc pool_names_distinct unfolding pool_ready_def by auto
qed

lemma ensureDedicatedPool_again:
  assumes laws: "apply_laws r view" and ready: "pool_ready r tenant a b n (view w)" and run: "ensureDedicatedPool r ctx tenant a b n w = (res, w')"
  shows "view w' = view w \<and> (\<forall>created. res = Inr created \<longrightarrow> \<not> created)"
proof -
  note law = laws [unfolded apply_laws_def, THEN conjunct1] laws [unfolded apply_laws_def, THEN conjunct2, THEN conjunct1]
    laws [unfolded apply_laws_def, THEN conjunct2, THEN conjunct2, THEN conjunct1]
  have cm: "view w1 = view v \<and> (\<forall>x. r1 = Inr x \<longrightarrow> x = OperationResultNone)"
    if "ensureDedicatedConfigMap r ctx tenant a b v = (r1, w1)" "pool_ready r tenant a b n (view v)" for v r1 w1
    using applies_again [OF law(1) that(1) [unfolded ensure_defs]] that(2) by (auto simp: pool_ready_def)
  have ing: "view w1 = view v \<and> (\<forall>x. r1 = Inr x \<longrightarrow> x = OperationResultNone)"
    if "ensureDedicatedIngestionDeployment r ctx tenant n v = (r1, w1)" "pool_ready r tenant a b n (view v)" for v r1 w1
    using applies_again [OF law(2) that(1) [unfolded ensure_defs]] that(2) by (auto simp: pool_ready_def)
  have prc: "view w1 = view v \<and> (\<forall>x. r1 = Inr x \<longrightarrow> x = OperationResultNone)"
    if "ensureDedicatedProcessorDeployment r ctx tenant n v = (r1, w1)" "pool_ready r tenant a b n (view v)" for v r1 w1
    using applies_again [OF law(2) that(1) [unfolded ensure_defs]] that(2) by (auto simp: pool_ready_def)
  have svc: "view w1 = view v \<and> (\<forall>x. r1 = Inr x \<longrightarrow> x = OperationResultNone)"
    if "ensureDedicatedService r ctx tenant v = (r1, w1)" "pool_ready r tenant a b n (view v)" for v r1 w1
    using applies_again [OF law(3) that(1) [unfolded ensure_defs]] that(2) by (auto simp: pool_ready_def)
  obtain r1 w1 where s1: "ensureDedicatedConfigMap r ctx tenant a b w = (r1, w1)" by fastforce
  obtain r2 w2 where s2: "ensureDedicatedIngestionDeployment r ctx tenant n w1 = (r2, w2)" by fastforce
  obtain r3 w3 where s3: "ensureDedicatedProcessorDeployment r ctx tenant n w2 = (r3, w3)" by fastforce
  obtain r4 w4 where s4: "ensureDedicatedService r ctx tenant w3 = (r4, w4)" by fastforce
  have v1: "view w1 = view w" "\<forall>x. r1 = Inr x \<longrightarrow> x = OperationResultNone" using cm [OF s1 ready] by auto
  have v2: "view w2 = view w" "\<forall>x. r2 = Inr x \<longrightarrow> x = OperationResultNone" using ing [OF s2] ready v1 by auto
  have v3: "view w3 = view w" "\<forall>x. r3 = Inr x \<longrightarrow> x = OperationResultNone" using prc [OF s3] ready v2 by auto
  have v4: "view w4 = view w" "\<forall>x. r4 = Inr x \<longrightarrow> x = OperationResultNone" using svc [OF s4] ready v3 by auto
  show ?thesis using run s1 s2 s3 s4 v1 v2 v3 v4 by (auto simp: ensureDedicatedPool_def split: sum.splits)
qed


text \<open>What \<open>Delete\<close> documents.\<close>

fun cluster_has :: "cluster \<Rightarrow> object_ref \<Rightarrow> bool" where
  "cluster_has v (DeploymentRef ns name) = (cl_Deployments v (ns, name) \<noteq> None)"
| "cluster_has v (ServiceRef ns name) = (cl_Services v (ns, name) \<noteq> None)"
| "cluster_has v (ConfigMapObject ns name) = (cl_ConfigMaps v (ns, name) \<noteq> None)"

fun remove_object :: "object_ref \<Rightarrow> cluster \<Rightarrow> cluster" where
  "remove_object (DeploymentRef ns name) v = v\<lparr>cl_Deployments := (cl_Deployments v)((ns, name) := None)\<rparr>"
| "remove_object (ServiceRef ns name) v = v\<lparr>cl_Services := (cl_Services v)((ns, name) := None)\<rparr>"
| "remove_object (ConfigMapObject ns name) v = v\<lparr>cl_ConfigMaps := (cl_ConfigMaps v)((ns, name) := None)\<rparr>"

definition delete_laws :: "'w kube_client \<Rightarrow> ('w \<Rightarrow> cluster) \<Rightarrow> bool" where
  "delete_laws client view \<longleftrightarrow>
     (\<forall>ctx obj w e w'. k_Delete client ctx obj w = (e, w') \<longrightarrow>
        (case e of None \<Rightarrow> cluster_has (view w) obj \<and> view w' = remove_object obj (view w)
         | Some err \<Rightarrow> view w' = view w \<and> (err = NotFound \<longrightarrow> \<not> cluster_has (view w) obj)))"

lemma remove_object_has: "cluster_has (remove_object obj v) x \<longleftrightarrow> cluster_has v x \<and> x \<noteq> obj"
  by (cases obj; cases x) auto

lemma remove_object_maps: "ConfigMapObject ns name \<noteq> obj \<Longrightarrow> cl_ConfigMaps (remove_object obj v) (ns, name) = cl_ConfigMaps v (ns, name)"
  by (cases obj) auto

lemma delete_objects_done:
  assumes "delete_laws client view" "delete_objects client ctx objs any w = (Inr deleted, w')"
  shows "(\<forall>x. cluster_has (view w') x \<longleftrightarrow> cluster_has (view w) x \<and> x \<notin> set objs)
    \<and> (deleted \<longleftrightarrow> any \<or> (\<exists>x \<in> set objs. cluster_has (view w) x))
    \<and> (\<forall>ns name. ConfigMapObject ns name \<notin> set objs \<longrightarrow> cl_ConfigMaps (view w') (ns, name) = cl_ConfigMaps (view w) (ns, name))"
  using assms(2)
proof (induction objs arbitrary: any w)
  case (Cons obj objs)
  obtain e w1 where d: "k_Delete client ctx obj w = (e, w1)" by fastforce
  have law: "case e of None \<Rightarrow> cluster_has (view w) obj \<and> view w1 = remove_object obj (view w)
      | Some err \<Rightarrow> view w1 = view w \<and> (err = NotFound \<longrightarrow> \<not> cluster_has (view w) obj)"
    using assms(1) d unfolding delete_laws_def by blast
  consider "e = None" "delete_objects client ctx objs True w1 = (Inr deleted, w')"
    | "e = Some NotFound" "delete_objects client ctx objs any w1 = (Inr deleted, w')"
    using Cons.prems d by (auto split: option.splits api_error.splits)
  then show ?case
  proof cases
    case 1
    then show ?thesis using Cons.IH [OF 1(2)] law remove_object_maps by (auto simp: remove_object_has)
  next
    case 2
    then show ?thesis using Cons.IH [OF 2(2)] law by auto
  qed
qed simp


section \<open>A cluster in memory\<close>

text \<open>A state that satisfies the laws: maps of objects, with the tenants.\<close>

record kube =
  kb_cluster :: cluster
  kb_tenants :: "string \<times> string \<Rightarrow> TradingTenant option"

definition tt_key :: "TradingTenant \<Rightarrow> string \<times> string" where "tt_key t = (tt_Namespace t, tt_Name t)"

definition store_apply ::
    "('o \<Rightarrow> string \<times> string) \<Rightarrow> (cluster \<Rightarrow> string \<times> string \<Rightarrow> 'o option) \<Rightarrow> ((string \<times> string \<Rightarrow> 'o option) \<Rightarrow> cluster \<Rightarrow> cluster)
      \<Rightarrow> ctx \<Rightarrow> 'o \<Rightarrow> ('o \<Rightarrow> 'o result) \<Rightarrow> kube \<Rightarrow> OperationResult result \<times> kube" where
  "store_apply key get put ctx obj mutate w =
     (let v = kb_cluster w
      in (case mutate (case get v (key obj) of None \<Rightarrow> obj | Some old \<Rightarrow> old) of
            Inl err \<Rightarrow> (Inl err, w)
          | Inr new \<Rightarrow> (Inr (case get v (key obj) of None \<Rightarrow> OperationResultCreated
                             | Some old \<Rightarrow> if new = old then OperationResultNone else OperationResultUpdated),
                        w\<lparr>kb_cluster := put ((get v)(key obj \<mapsto> new)) v\<rparr>)))"

definition kube_api :: "kube kube_client" where
  "kube_api =
     \<lparr>k_GetTenant = (\<lambda>_ k w. (case kb_tenants w k of None \<Rightarrow> Inl NotFound | Some t \<Rightarrow> if tt_key t = k then Inr t else Inl (ApiErr (Msg ''corrupt'')), w)),
      k_UpdateTenant = (\<lambda>_ t w. case kb_tenants w (tt_key t) of None \<Rightarrow> (Inl NotFound, w)
         | Some old \<Rightarrow> let stored = t\<lparr>tt_Status := tt_Status old\<rparr> in (Inr stored, w\<lparr>kb_tenants := (kb_tenants w)(tt_key t \<mapsto> stored)\<rparr>)),
      k_UpdateStatus = (\<lambda>_ t w. case kb_tenants w (tt_key t) of None \<Rightarrow> (Inl NotFound, w)
         | Some old \<Rightarrow> let stored = old\<lparr>tt_Status := tt_Status t\<rparr> in (Inr stored, w\<lparr>kb_tenants := (kb_tenants w)(tt_key t \<mapsto> stored)\<rparr>)),
      k_GetConfigMap = (\<lambda>_ k w. (case cl_ConfigMaps (kb_cluster w) k of None \<Rightarrow> Inl NotFound
         | Some cm \<Rightarrow> if cm_key cm = k then Inr cm else Inl (ApiErr (Msg ''corrupt'')), w)),
      k_CreateConfigMap = (\<lambda>_ cm w. if cl_ConfigMaps (kb_cluster w) (cm_key cm) = None
         then (None, w\<lparr>kb_cluster := put_cm ((cl_ConfigMaps (kb_cluster w))(cm_key cm \<mapsto> cm)) (kb_cluster w)\<rparr>) else (Some AlreadyExists, w)),
      k_UpdateConfigMap = (\<lambda>_ cm w. if cl_ConfigMaps (kb_cluster w) (cm_key cm) = None
         then (Some NotFound, w) else (None, w\<lparr>kb_cluster := put_cm ((cl_ConfigMaps (kb_cluster w))(cm_key cm \<mapsto> cm)) (kb_cluster w)\<rparr>)),
      k_ApplyConfigMap = store_apply cm_key cl_ConfigMaps put_cm, k_ApplyDeployment = store_apply dp_key cl_Deployments put_dp,
      k_ApplyService = store_apply sv_key cl_Services put_sv,
      k_Delete = (\<lambda>_ obj w. if cluster_has (kb_cluster w) obj then (None, w\<lparr>kb_cluster := remove_object obj (kb_cluster w)\<rparr>) else (Some NotFound, w)),
      k_SetControllerReference = (\<lambda>t _. Inr (Some (tt_Name t)))\<rparr>"

lemma store_apply_applies: "applies key kb_cluster get put (store_apply key get put)"
  by (auto simp: applies_def store_apply_def Let_def split: sum.splits)

lemma kube_api_apply: "rc_Client r = kube_api \<Longrightarrow> apply_laws r kb_cluster"
  by (simp add: apply_laws_def kube_api_def store_apply_applies)

lemma kube_api_delete: "delete_laws kube_api kb_cluster"
  by (auto simp: delete_laws_def kube_api_def remove_object_has split: if_splits option.splits)

lemma kube_api_maps: "stores_maps kube_api (\<lambda>w. cl_ConfigMaps (kb_cluster w))"
  by (auto simp: stores_maps_def get_laws_def create_laws_def update_laws_def kube_api_def split: option.splits)

definition empty_kube :: kube where
  "empty_kube = \<lparr>kb_cluster = \<lparr>cl_ConfigMaps = Map.empty, cl_Deployments = Map.empty, cl_Services = Map.empty\<rparr>, kb_tenants = Map.empty\<rparr>"

definition demo_reconciler :: "kube TradingTenantReconciler" where
  "demo_reconciler =
     \<lparr>rc_Client = kube_api,
      rc_Observer = \<lparr>ob_KafkaLag = (\<lambda>_ _ w. (Inr 5000, w)), ob_P99Ms = (\<lambda>_ _ w. (Inr 10, w)), ob_PartitionCount = (\<lambda>_ _ w. (Inr 2, w)),
        ob_PartitionStart = (\<lambda>_ _ w. (Inr 4, w))\<rparr>,
      rc_TenantLabelName = [], rc_ReconcileTimeout = 0, rc_RequeueInterval = 0, rc_Metrics = None, rc_Recorder = None,
      rc_IngestionImage = ''ingestion:1'', rc_ProcessorImage = ''processor:1'', rc_IngestionEnvFrom = [], rc_ProcessorEnvFrom = [],
      rc_DedicatedNodeSelector = None, rc_DedicatedTolerations = [], rc_now = (\<lambda>_. 0)\<rparr>"

lemma demo_reconciler_client: "rc_Client demo_reconciler = kube_api"
  by (simp add: demo_reconciler_def)



end
