(* ===== verification/Controller.thy ===== *)
theory Controller
  imports DedicatedPool
begin

text \<open>
  The reconcile loop of \<open>src/operator/internal/controller/tradingtenant_controller.go\<close>: one pass reads the tenant and its
  signals, decides, writes the isolation flag, provisions or tears down the dedicated resources, keeps the
  shared partition map current, and writes the status. A pass is a partial function, since the partition
  map is written by a retry loop. The result is the delay until the next pass, 0 being none.
\<close>

section \<open>One pass\<close>

text \<open>\<open>%q\<close> of a state name.\<close>

definition quoted :: "string \<Rightarrow> string" where
  "quoted s = [CHR 0x22] @ s @ [CHR 0x22]"

definition tenant_label :: "'w TradingTenantReconciler \<Rightarrow> TradingTenant \<Rightarrow> TenantLabel" where
  "tenant_label r tenant =
     \<lparr>tl_Name = (if rc_TenantLabelName r = [] then ''tenant'' else rc_TenantLabelName r), tl_Value = ts_TenantID (tt_Spec tenant)\<rparr>"

text \<open>The lag, the latency and the partition count, in this order.\<close>

definition observe_signals ::
    "'w TradingTenantReconciler \<Rightarrow> ctx \<Rightarrow> TenantLabel \<Rightarrow> 'w \<Rightarrow> (int64 \<times> int32 \<times> int32) result \<times> 'w" where
  "observe_signals r ctx label w =
     (case ob_KafkaLag (rc_Observer r) ctx label w of
        (Inl err, w1) \<Rightarrow> (Inl (Wrap ''reconciling tradingtenant: observed kafka lag'' err), w1)
      | (Inr lag, w1) \<Rightarrow>
      (case ob_P99Ms (rc_Observer r) ctx label w1 of
        (Inl err, w2) \<Rightarrow> (Inl (Wrap ''reconciling tradingtenant: observed p99 latency'' err), w2)
      | (Inr p99Ms, w2) \<Rightarrow>
      (case ob_PartitionCount (rc_Observer r) ctx label w2 of
        (Inl err, w3) \<Rightarrow> (Inl (Wrap ''reconciling tradingtenant: observed partition count'' err), w3)
      | (Inr partitionCount, w3) \<Rightarrow> (Inr (lag, p99Ms, partitionCount), w3))))"

text \<open>The isolation flag, the only field of the spec the reconciler writes.\<close>

definition isolate ::
    "'w TradingTenantReconciler \<Rightarrow> ctx \<Rightarrow> reconcileDecision \<Rightarrow> TradingTenant \<Rightarrow> 'w \<Rightarrow> TradingTenant result \<times> 'w" where
  "isolate r ctx decision tenant w =
     (if rd_setDedicatedNodePool decision \<and> \<not> dedicated tenant then
        (case k_UpdateTenant (rc_Client r) ctx (set_dedicated tenant) w of
           (Inl err, w1) \<Rightarrow> (Inl (Wrap ''reconciling tradingtenant: updating isolation spec'' (api_goerror err)), w1)
         | (Inr stored, w1) \<Rightarrow>
             (Inr stored, recordTransition r stored reasonDedicatedPoolCreated ''Normal''
                (''Tenant '' @ ts_TenantID (tt_Spec stored) @ '' moved to a dedicated node pool'') w1))
      else (Inr tenant, w))"

definition provision ::
    "'w TradingTenantReconciler \<Rightarrow> ctx \<Rightarrow> TenantLabel \<Rightarrow> TradingTenant \<Rightarrow> int32 \<Rightarrow> int32 \<Rightarrow> 'w \<Rightarrow> (error \<times> 'w) option" where
  "provision r ctx label tenant partitionCount replicas w =
     (case ob_PartitionStart (rc_Observer r) ctx label w of
        (Inl err, w1) \<Rightarrow> Some (Some (Wrap ''reconciling tradingtenant: observed partition start'' err), w1)
      | (Inr partitionStart, w1) \<Rightarrow>
      (case ensureDedicatedPool r ctx tenant partitionStart partitionCount replicas w1 of
        (Inl err, w2) \<Rightarrow> Some (Some (Wrap ''reconciling tradingtenant: ensuring dedicated pool'' err), w2)
      | (Inr created, w2) \<Rightarrow>
          let w3 = (if created then recordTransition r tenant reasonDedicatedPoolProvisioned ''Normal''
                      (''Dedicated node pool resources provisioned for tenant '' @ ts_TenantID (tt_Spec tenant)) w2 else w2)
          in map_option (map_prod (map_option (Wrap ''reconciling tradingtenant: publishing tenant partition map entry'')) id)
               (ensureTenantPartitionMapEntry (rc_Client r) ctx tenant partitionStart partitionCount w3)))"

definition deprovision :: "'w TradingTenantReconciler \<Rightarrow> ctx \<Rightarrow> TradingTenant \<Rightarrow> 'w \<Rightarrow> (error \<times> 'w) option" where
  "deprovision r ctx tenant w =
     (case tearDownDedicatedPool r ctx tenant w of
        (Inl err, w1) \<Rightarrow> Some (Some (Wrap ''reconciling tradingtenant: tearing down dedicated pool'' err), w1)
      | (Inr tornDown, w1) \<Rightarrow>
          let w2 = (if tornDown then recordTransition r tenant reasonDedicatedPoolTornDown ''Normal''
                      (''Dedicated node pool resources torn down for tenant '' @ ts_TenantID (tt_Spec tenant)) w1 else w1)
          in map_option (map_prod (map_option (Wrap ''reconciling tradingtenant: removing tenant partition map entry'')) id)
               (removeTenantPartitionMapEntry (rc_Client r) ctx tenant w2))"

definition new_status :: "'w TradingTenantReconciler \<Rightarrow> reconcileDecision \<Rightarrow> int64 \<Rightarrow> int32 \<Rightarrow> int32 \<Rightarrow> 'w \<Rightarrow> TradingTenantStatus" where
  "new_status r decision lag p99Ms partitionCount w =
     \<lparr>tu_CurrentReplicas = rd_replicas decision, tu_State = rd_state decision, tu_ObservedKafkaLag = lag, tu_ObservedP99Ms = p99Ms,
      tu_ObservedPartitionCount = partitionCount, tu_LastReconcileTime = rc_now r w\<rparr>"

definition write_status ::
    "'w TradingTenantReconciler \<Rightarrow> ctx \<Rightarrow> TradingTenantState \<Rightarrow> TradingTenant \<Rightarrow> TradingTenantStatus \<Rightarrow> 'w \<Rightarrow> duration result \<times> 'w" where
  "write_status r ctx oldState tenant status w =
     (case k_UpdateStatus (rc_Client r) ctx (tenant\<lparr>tt_Status := status\<rparr>) w of
        (Inl err, w1) \<Rightarrow> (Inl (Wrap ''reconciling tradingtenant: updating status'' (api_goerror err)), w1)
      | (Inr stored, w1) \<Rightarrow>
          let w2 = (if tu_State status \<noteq> oldState then recordTransition r stored (tu_State status) (eventTypeForState (tu_State status))
                      (''Tenant '' @ ts_TenantID (tt_Spec stored) @ '' transitioned from '' @ quoted oldState @ '' to '' @ quoted (tu_State status)) w1
                    else w1)
          in (Inr (if sint (rc_RequeueInterval r) \<le> 0 then 30000000000 else rc_RequeueInterval r), w2))"

definition reconcile_tenant :: "'w TradingTenantReconciler \<Rightarrow> ctx \<Rightarrow> TradingTenant \<Rightarrow> 'w \<Rightarrow> (duration result \<times> 'w) option" where
  "reconcile_tenant r ctx tenant w =
     (let label = tenant_label r tenant in
      case observe_signals r ctx label w of
        (Inl err, w1) \<Rightarrow> Some (Inl err, w1)
      | (Inr (lag, p99Ms, partitionCount), w1) \<Rightarrow>
          let baseline = baseline_replicas (tt_Spec tenant) (tu_CurrentReplicas (tt_Status tenant));
              oldState = tu_State (tt_Status tenant);
              decision = classify (tt_Spec tenant) baseline (dedicated tenant) lag p99Ms partitionCount
          in (case isolate r ctx decision tenant w1 of
                (Inl err, w2) \<Rightarrow> Some (Inl err, w2)
              | (Inr tenant, w2) \<Rightarrow>
                  (case (if dedicated tenant then provision r ctx label tenant partitionCount (rd_replicas decision) w2 else deprovision r ctx tenant w2) of
                     None \<Rightarrow> None
                   | Some (Some err, w3) \<Rightarrow> Some (Inl err, w3)
                   | Some (None, w3) \<Rightarrow> Some (write_status r ctx oldState tenant (new_status r decision lag p99Ms partitionCount w3) w3))))"

definition reconcile_ctx :: "'w TradingTenantReconciler \<Rightarrow> ctx \<Rightarrow> 'w \<Rightarrow> ctx" where
  "reconcile_ctx r ctx w = context_WithTimeout (rc_now r w) ctx (if sint (rc_ReconcileTimeout r) \<le> 0 then 5000000000 else rc_ReconcileTimeout r)"

definition reconcile_pass :: "'w TradingTenantReconciler \<Rightarrow> ctx \<Rightarrow> string \<times> string \<Rightarrow> 'w \<Rightarrow> (duration result \<times> 'w) option" where
  "reconcile_pass r ctx req w =
     (let reconcileCtx = reconcile_ctx r ctx w
      in (case k_GetTenant (rc_Client r) reconcileCtx req w of
            (Inl NotFound, w1) \<Rightarrow> Some (Inr 0, w1)
          | (Inl err, w1) \<Rightarrow> Some (Inl (api_goerror err), w1)
          | (Inr tenant, w1) \<Rightarrow> reconcile_tenant r reconcileCtx tenant w1))"

text \<open>\<open>Reconcile\<close> with the deferred observation of its duration.\<close>

definition TradingTenant_Reconcile :: "'w TradingTenantReconciler \<Rightarrow> ctx \<Rightarrow> string \<times> string \<Rightarrow> 'w \<Rightarrow> (duration result \<times> 'w) option" where
  "TradingTenant_Reconcile r ctx req w =
     (case reconcile_pass r ctx req w of
        None \<Rightarrow> None
      | Some (res, w') \<Rightarrow>
          Some (res, case rc_Metrics r of None \<Rightarrow> w'
                | Some meter \<Rightarrow> observeDuration meter (case res of Inl _ \<Rightarrow> ''error'' | Inr _ \<Rightarrow> ''success'')
                    (duration_Seconds (time_Sub (rc_now r w') (rc_now r w))) w'))"

section \<open>What the parts leave alone\<close>

text \<open>A view of the state that observers and reports, the tenant operations, or the operations on objects do not change.\<close>

definition observers_keep :: "'w TradingTenantReconciler \<Rightarrow> ('w \<Rightarrow> 'v) \<Rightarrow> bool" where
  "observers_keep r view \<longleftrightarrow>
     (\<forall>ctx l w. view (snd (ob_KafkaLag (rc_Observer r) ctx l w)) = view w \<and> view (snd (ob_P99Ms (rc_Observer r) ctx l w)) = view w
        \<and> view (snd (ob_PartitionCount (rc_Observer r) ctx l w)) = view w \<and> view (snd (ob_PartitionStart (rc_Observer r) ctx l w)) = view w)
     \<and> (\<forall>meter c w. rc_Metrics r = Some meter \<longrightarrow> view (meter c w) = view w)
     \<and> (\<forall>event t a b m w. rc_Recorder r = Some event \<longrightarrow> view (event t a b m w) = view w)"

definition tenants_keep :: "'w TradingTenantReconciler \<Rightarrow> ('w \<Rightarrow> 'v) \<Rightarrow> bool" where
  "tenants_keep r view \<longleftrightarrow>
     (\<forall>ctx k t w. view (snd (k_GetTenant (rc_Client r) ctx k w)) = view w \<and> view (snd (k_UpdateTenant (rc_Client r) ctx t w)) = view w
        \<and> view (snd (k_UpdateStatus (rc_Client r) ctx t w)) = view w)"

definition maps_keep :: "'w kube_client \<Rightarrow> ('w \<Rightarrow> 'v) \<Rightarrow> bool" where
  "maps_keep client view \<longleftrightarrow>
     (\<forall>ctx k cm w. view (snd (k_GetConfigMap client ctx k w)) = view w \<and> view (snd (k_CreateConfigMap client ctx cm w)) = view w
        \<and> view (snd (k_UpdateConfigMap client ctx cm w)) = view w)"

definition pool_keep :: "'w kube_client \<Rightarrow> ('w \<Rightarrow> 'v) \<Rightarrow> bool" where
  "pool_keep client view \<longleftrightarrow>
     (\<forall>ctx cm f w. view (snd (k_ApplyConfigMap client ctx cm f w)) = view w)
     \<and> (\<forall>ctx d f w. view (snd (k_ApplyDeployment client ctx d f w)) = view w)
     \<and> (\<forall>ctx s f w. view (snd (k_ApplyService client ctx s f w)) = view w)
     \<and> (\<forall>ctx obj w. view (snd (k_Delete client ctx obj w)) = view w)"

lemma recordTransition_keep: "observers_keep r view \<Longrightarrow> view (recordTransition r t reason e m w) = view w"
  by (auto simp: observers_keep_def recordTransition_def observeIsolationTransition_def Let_def split: option.splits)

lemma observer_results:
  assumes "observers_keep r view"
  shows "ob_KafkaLag (rc_Observer r) ctx l w = (x1, w') \<Longrightarrow> view w' = view w" "ob_P99Ms (rc_Observer r) ctx l w = (x2, w') \<Longrightarrow> view w' = view w"
    "ob_PartitionCount (rc_Observer r) ctx l w = (x3, w') \<Longrightarrow> view w' = view w" "ob_PartitionStart (rc_Observer r) ctx l w = (x4, w') \<Longrightarrow> view w' = view w"
  using assms unfolding observers_keep_def by (metis snd_conv)+

lemma observe_signals_keep:
  assumes "observers_keep r view" "observe_signals r ctx l w = (res, w')" shows "view w' = view w"
  using assms(2) observer_results [OF assms(1)] by (auto simp: observe_signals_def split: prod.splits sum.splits)

lemma tenant_results:
  assumes "tenants_keep r view"
  shows "k_GetTenant (rc_Client r) ctx k w = (x, w') \<Longrightarrow> view w' = view w" "k_UpdateTenant (rc_Client r) ctx t w = (x, w') \<Longrightarrow> view w' = view w"
    "k_UpdateStatus (rc_Client r) ctx t w = (y, w') \<Longrightarrow> view w' = view w"
  using assms unfolding tenants_keep_def by (metis snd_conv)+

lemma map_results:
  assumes "maps_keep client view"
  shows "k_GetConfigMap client ctx k w = (x1, w') \<Longrightarrow> view w' = view w" "k_CreateConfigMap client ctx cm w = (x2, w') \<Longrightarrow> view w' = view w"
    "k_UpdateConfigMap client ctx cm w = (x3, w') \<Longrightarrow> view w' = view w"
  using assms unfolding maps_keep_def by (metis snd_conv)+

lemma pool_results:
  assumes "pool_keep client view"
  shows "k_ApplyConfigMap client ctx cm f w = (x4, w') \<Longrightarrow> view w' = view w"
    "k_ApplyDeployment client ctx d g w = (x5, w') \<Longrightarrow> view w' = view w" "k_ApplyService client ctx s h w = (x6, w') \<Longrightarrow> view w' = view w"
    "k_Delete client ctx obj w = (x7, w') \<Longrightarrow> view w' = view w"
  using assms unfolding pool_keep_def by (metis snd_conv)+

lemma ensureDedicatedPool_keep:
  assumes "pool_keep (rc_Client r) view" "ensureDedicatedPool r ctx tenant a b n w = (res, w')" shows "view w' = view w"
  using assms(2) pool_results(1-3) [OF assms(1)]
  by (auto simp: ensureDedicatedPool_def ensure_defs split: prod.splits sum.splits)

lemma delete_objects_keep:
  assumes "pool_keep client view" "delete_objects client ctx objs any w = (res, w')" shows "view w' = view w"
  using assms(2)
proof (induction objs arbitrary: any w)
  case (Cons obj objs)
  obtain e w1 where d: "k_Delete client ctx obj w = (e, w1)" by fastforce
  then have "view w1 = view w" by (rule pool_results(4) [OF assms(1)])
  then show ?case using Cons d by (auto split: option.splits api_error.splits)
qed simp

definition map_keeps :: "('w \<Rightarrow> 'v) \<Rightarrow> 'w kube_client \<Rightarrow> 'w \<Rightarrow> error \<times> 'w \<Rightarrow> bool" where
  "map_keeps view client w res \<longleftrightarrow> (maps_keep client view \<longrightarrow> view (snd res) = view w)"

lemma mutateTenantPartitionMap_keeps:
  assumes "mutateTenantPartitionMap client ctx ns mutate w = Some res" shows "map_keeps view client w res"
proof (rule mutateTenantPartitionMap.raw_induct [where P = "\<lambda>client ctx ns mutate w res. map_keeps view client w res", OF _ assms])
  fix run :: "'a kube_client \<Rightarrow> ctx \<Rightarrow> string \<Rightarrow> (mapping option \<Rightarrow> mapping option result) \<Rightarrow> 'a \<Rightarrow> (error \<times> 'a) option"
  fix client ctx ns mutate w res
  assume IH: "\<And>client ctx ns mutate w res. run client ctx ns mutate w = Some res \<Longrightarrow> map_keeps view client w res"
  assume body: "(case k_GetConfigMap client ctx (ns, tenantPartitionMapName) w of
        (Inl NotFound, w1) \<Rightarrow>
          (case map_write True (new_map ns) mutate of
             Inl err \<Rightarrow> Some (Some err, w1)
           | Inr None \<Rightarrow> Some (None, w1)
           | Inr (Some configMap) \<Rightarrow>
               (case k_CreateConfigMap client ctx configMap w1 of
                  (None, w2) \<Rightarrow> Some (None, w2)
                | (Some AlreadyExists, w2) \<Rightarrow> run client ctx ns mutate w2
                | (Some err, w2) \<Rightarrow> Some (Some (Wrap ''create tenant partition map'' (api_goerror err)), w2)))
      | (Inl err, w1) \<Rightarrow> Some (Some (Wrap ''get tenant partition map'' (api_goerror err)), w1)
      | (Inr configMap, w1) \<Rightarrow>
          (case map_write False configMap mutate of
             Inl err \<Rightarrow> Some (Some err, w1)
           | Inr None \<Rightarrow> Some (None, w1)
           | Inr (Some configMap) \<Rightarrow>
               (case k_UpdateConfigMap client ctx configMap w1 of
                  (None, w2) \<Rightarrow> Some (None, w2)
                | (Some err, w2) \<Rightarrow> Some (Some (Wrap ''update tenant partition map'' (api_goerror err)), w2)))) = Some res"
  have "view (snd res) = view w" if keep: "maps_keep client view"
  proof -
    obtain g w1 where g: "k_GetConfigMap client ctx (ns, tenantPartitionMapName) w = (g, w1)" by fastforce
    have again: "view (snd res) = view w2" if "run client ctx ns mutate w2 = Some res" for w2
      using IH [OF that] keep by (simp add: map_keeps_def)
    have "view w1 = view w" using map_results(1) [OF keep g] .
    then show ?thesis using body g again map_results(2,3) [OF keep]
      by (auto split: sum.splits api_error.splits option.splits prod.splits)
  qed
  then show "map_keeps view client w res" by (simp add: map_keeps_def)
qed

lemma map_entry_keep:
  assumes "maps_keep client view"
  shows "ensureTenantPartitionMapEntry client ctx tenant a b w = Some (err, w') \<Longrightarrow> view w' = view w"
    and "removeTenantPartitionMapEntry client ctx tenant w = Some (err, w') \<Longrightarrow> view w' = view w"
  using assms mutateTenantPartitionMap_keeps [where view = view and res = "(err, w')"]
  by (auto simp: ensureTenantPartitionMapEntry_def removeTenantPartitionMapEntry_def map_keeps_def)

lemma provision_keep:
  assumes "observers_keep r view" "pool_keep (rc_Client r) view" "maps_keep (rc_Client r) view"
  shows "provision r ctx label tenant cnt n w = Some (err, w') \<Longrightarrow> view w' = view w"
    and "deprovision r ctx tenant w = Some (err, w') \<Longrightarrow> view w' = view w"
proof -
  note keeps = ensureDedicatedPool_keep [OF assms(2)] delete_objects_keep [OF assms(2)] map_entry_keep [OF assms(3)]
    recordTransition_keep [OF assms(1)] observer_results [OF assms(1)]
  show "provision r ctx label tenant cnt n w = Some (err, w') \<Longrightarrow> view w' = view w"
    using keeps by (auto simp: provision_def Let_def split: prod.splits sum.splits if_splits)
  show "deprovision r ctx tenant w = Some (err, w') \<Longrightarrow> view w' = view w"
    using keeps by (auto simp: deprovision_def tearDownDedicatedPool_def Let_def split: prod.splits sum.splits if_splits)
qed

section \<open>The spec of a tenant\<close>

type_synonym tenants = "string \<times> string \<Rightarrow> TradingTenant option"

text \<open>
  What the API server promises about the tenants when nobody else writes: an update of the resource stores the
  given object with the status it had, an update of the status stores the status and keeps the rest.
\<close>

definition tenant_laws :: "'w kube_client \<Rightarrow> ('w \<Rightarrow> tenants) \<Rightarrow> bool" where
  "tenant_laws client tenants \<longleftrightarrow>
     (\<forall>ctx k w x w'. k_GetTenant client ctx k w = (x, w') \<longrightarrow> tenants w' = tenants w
        \<and> (case x of Inr t \<Rightarrow> tenants w k = Some t \<and> tt_key t = k | Inl e \<Rightarrow> e = NotFound \<longrightarrow> tenants w k = None))
     \<and> (\<forall>ctx t w x w'. k_UpdateTenant client ctx t w = (x, w') \<longrightarrow>
          (case x of Inl _ \<Rightarrow> tenants w' = tenants w
           | Inr stored \<Rightarrow> \<exists>old. tenants w (tt_key t) = Some old \<and> stored = t\<lparr>tt_Status := tt_Status old\<rparr> \<and> tenants w' = (tenants w)(tt_key t \<mapsto> stored)))
     \<and> (\<forall>ctx t w x w'. k_UpdateStatus client ctx t w = (x, w') \<longrightarrow>
          (case x of Inl _ \<Rightarrow> tenants w' = tenants w
           | Inr stored \<Rightarrow> \<exists>old. tenants w (tt_key t) = Some old \<and> stored = old\<lparr>tt_Status := tt_Status t\<rparr> \<and> tenants w' = (tenants w)(tt_key t \<mapsto> stored)))"

lemma tenant_law:
  assumes "tenant_laws client tenants"
  shows "k_GetTenant client ctx k w = (x, w') \<Longrightarrow> tenants w' = tenants w
      \<and> (case x of Inr t \<Rightarrow> tenants w k = Some t \<and> tt_key t = k | Inl e \<Rightarrow> e = NotFound \<longrightarrow> tenants w k = None)"
    and "k_UpdateTenant client ctx t w = (x, w') \<Longrightarrow> (case x of Inl _ \<Rightarrow> tenants w' = tenants w
      | Inr stored \<Rightarrow> \<exists>old. tenants w (tt_key t) = Some old \<and> stored = t\<lparr>tt_Status := tt_Status old\<rparr> \<and> tenants w' = (tenants w)(tt_key t \<mapsto> stored))"
    and "k_UpdateStatus client ctx t w = (x, w') \<Longrightarrow> (case x of Inl _ \<Rightarrow> tenants w' = tenants w
      | Inr stored \<Rightarrow> \<exists>old. tenants w (tt_key t) = Some old \<and> stored = old\<lparr>tt_Status := tt_Status t\<rparr> \<and> tenants w' = (tenants w)(tt_key t \<mapsto> stored))"
  using assms unfolding tenant_laws_def by blast+

lemma set_dedicated_simps [simp]:
  "tt_key (set_dedicated t) = tt_key t" "dedicated (set_dedicated t)" "tt_Status (set_dedicated t) = tt_Status t"
  "tt_Namespace (set_dedicated t) = tt_Namespace t" "tt_Name (set_dedicated t) = tt_Name t" "ts_TenantID (tt_Spec (set_dedicated t)) = ts_TenantID (tt_Spec t)"
  "tt_key (t\<lparr>tt_Status := st\<rparr>) = tt_key t" "(set_dedicated t)\<lparr>tt_Status := tt_Status t\<rparr> = set_dedicated t"
  by (simp_all add: set_dedicated_def tt_key_def)

lemma set_dedicated_id: "dedicated t \<Longrightarrow> set_dedicated t = t"
  by (cases t) (simp add: set_dedicated_def)

text \<open>The tenant after the decision.\<close>

definition decided :: "reconcileDecision \<Rightarrow> TradingTenant \<Rightarrow> TradingTenant" where
  "decided d t = (if rd_setDedicatedNodePool d then set_dedicated t else t)"

lemma decided_simps [simp]:
  "tt_key (decided d t) = tt_key t" "tt_Namespace (decided d t) = tt_Namespace t" "ts_TenantID (tt_Spec (decided d t)) = ts_TenantID (tt_Spec t)"
  "dedicated (decided d t) \<longleftrightarrow> dedicated t \<or> rd_setDedicatedNodePool d"
  by (simp_all add: decided_def)

lemma isolate_effect:
  assumes laws: "tenant_laws (rc_Client r) tenants" "observers_keep r tenants" and t: "tenants w (tt_key t) = Some t"
    and run: "isolate r ctx d t w = (res, w')"
  shows "case res of Inl e \<Rightarrow> tenants w' = tenants w | Inr t' \<Rightarrow> t' = decided d t \<and> tenants w' = (tenants w)(tt_key t \<mapsto> t')"
proof (cases "rd_setDedicatedNodePool d \<and> \<not> dedicated t")
  case True
  obtain x w1 where u: "k_UpdateTenant (rc_Client r) ctx (set_dedicated t) w = (x, w1)" by fastforce
  show ?thesis using True run u t tenant_law(2) [OF laws(1) u] recordTransition_keep [OF laws(2)]
    by (auto simp: isolate_def decided_def split: sum.splits)
next
  case False
  then have "decided d t = t" by (auto simp: decided_def set_dedicated_id)
  moreover have "(tenants w)(tt_key t \<mapsto> t) = tenants w" using t by auto
  ultimately show ?thesis using False run by (auto simp: isolate_def)
qed

lemma write_status_effect:
  assumes laws: "tenant_laws (rc_Client r) tenants" "observers_keep r tenants" and t: "tenants w (tt_key t) = Some t"
    and run: "write_status r ctx old t st w = (res, w')"
  shows "case res of Inl e \<Rightarrow> tenants w' = tenants w | Inr _ \<Rightarrow> tenants w' = (tenants w)(tt_key t \<mapsto> t\<lparr>tt_Status := st\<rparr>)"
proof -
  obtain x w1 where u: "k_UpdateStatus (rc_Client r) ctx (t\<lparr>tt_Status := st\<rparr>) w = (x, w1)" by fastforce
  show ?thesis using run u t tenant_law(3) [OF laws(1) u] recordTransition_keep [OF laws(2)]
    by (auto simp: write_status_def Let_def split: sum.splits)
qed

text \<open>The steps of a pass that gets past the observation.\<close>

lemma reconcile_tenant_cases:
  assumes "reconcile_tenant r ctx t w = Some (res, w')"
  obtains e where "observe_signals r ctx (tenant_label r t) w = (Inl e, w')" "res = Inl e"
  | lag p99Ms cnt w1 d e where "observe_signals r ctx (tenant_label r t) w = (Inr (lag, p99Ms, cnt), w1)"
      "d = classify (tt_Spec t) (baseline_replicas (tt_Spec t) (tu_CurrentReplicas (tt_Status t))) (dedicated t) lag p99Ms cnt"
      "isolate r ctx d t w1 = (Inl e, w')" "res = Inl e"
  | lag p99Ms cnt w1 d t' w2 e where "observe_signals r ctx (tenant_label r t) w = (Inr (lag, p99Ms, cnt), w1)"
      "d = classify (tt_Spec t) (baseline_replicas (tt_Spec t) (tu_CurrentReplicas (tt_Status t))) (dedicated t) lag p99Ms cnt"
      "isolate r ctx d t w1 = (Inr t', w2)"
      "(if dedicated t' then provision r ctx (tenant_label r t) t' cnt (rd_replicas d) w2 else deprovision r ctx t' w2) = Some (Some e, w')" "res = Inl e"
  | lag p99Ms cnt w1 d t' w2 w3 where "observe_signals r ctx (tenant_label r t) w = (Inr (lag, p99Ms, cnt), w1)"
      "d = classify (tt_Spec t) (baseline_replicas (tt_Spec t) (tu_CurrentReplicas (tt_Status t))) (dedicated t) lag p99Ms cnt"
      "isolate r ctx d t w1 = (Inr t', w2)"
      "(if dedicated t' then provision r ctx (tenant_label r t) t' cnt (rd_replicas d) w2 else deprovision r ctx t' w2) = Some (None, w3)"
      "write_status r ctx (tu_State (tt_Status t)) t' (new_status r d lag p99Ms cnt w3) w3 = (res, w')"
proof -
  obtain s w1 where s: "observe_signals r ctx (tenant_label r t) w = (s, w1)" by fastforce
  show thesis
  proof (cases s)
    case (Inl e)
    then show thesis using assms s that(1) by (simp add: reconcile_tenant_def)
  next
    case (Inr v)
    obtain lag p99Ms cnt where v: "v = (lag, p99Ms, cnt)" by (cases v) auto
    define d where "d = classify (tt_Spec t) (baseline_replicas (tt_Spec t) (tu_CurrentReplicas (tt_Status t))) (dedicated t) lag p99Ms cnt"
    obtain i w2 where i: "isolate r ctx d t w1 = (i, w2)" by fastforce
    show thesis
    proof (cases i)
      case I: (Inl e)
      then show thesis using assms s Inr v i that(2) [of lag p99Ms cnt w1 d e] by (simp add: reconcile_tenant_def d_def)
    next
      case I: (Inr t')
      let ?p = "if dedicated t' then provision r ctx (tenant_label r t) t' cnt (rd_replicas d) w2 else deprovision r ctx t' w2"
      have body: "(case ?p of None \<Rightarrow> None | Some (Some err, w3) \<Rightarrow> Some (Inl err, w3)
          | Some (None, w3) \<Rightarrow> Some (write_status r ctx (tu_State (tt_Status t)) t' (new_status r d lag p99Ms cnt w3) w3)) = Some (res, w')"
        using assms s Inr v i I unfolding reconcile_tenant_def d_def Let_def by simp
      then obtain e w3 where p: "?p = Some (e, w3)" by (cases ?p) auto
      show thesis
      proof (cases e)
        case None
        then show thesis using body p s Inr v i I that(4) [OF _ d_def, of w1 t' w2 w3] by simp
      next
        case (Some err)
        then show thesis using body p s Inr v i I that(3) [OF _ d_def, of w1 t' w2 err] by simp
      qed
    qed
  qed
qed

section \<open>The spec changes only by isolation\<close>

lemma reconcile_tenant_spec:
  assumes laws: "tenant_laws (rc_Client r) tenants" "observers_keep r tenants" "pool_keep (rc_Client r) tenants" "maps_keep (rc_Client r) tenants"
    and t: "tenants w (tt_key t) = Some t" and run: "reconcile_tenant r ctx t w = Some (res, w')"
  shows "\<exists>t'. tenants w' = (tenants w)(tt_key t \<mapsto> t') \<and> (tt_Spec t' = tt_Spec t \<or> tt_Spec t' = tt_Spec (set_dedicated t))"
  using run
proof (cases rule: reconcile_tenant_cases)
  case (1 e)
  then show ?thesis using observe_signals_keep [OF laws(2)] t by (metis fun_upd_triv)
next
  case (2 lag p99Ms cnt w1 d e)
  have w1: "tenants w1 = tenants w" using observe_signals_keep [OF laws(2) 2(1)] .
  then have "tenants w' = tenants w" using isolate_effect [OF laws(1,2) _ 2(3)] t by simp
  then show ?thesis using t by (metis fun_upd_triv)
next
  case (3 lag p99Ms cnt w1 d t' w2 e)
  have w1: "tenants w1 = tenants w" using observe_signals_keep [OF laws(2) 3(1)] .
  then have i: "t' = decided d t" "tenants w2 = (tenants w)(tt_key t \<mapsto> t')" using isolate_effect [OF laws(1,2) _ 3(3)] t by auto
  moreover have "tenants w' = tenants w2" using 3(4) provision_keep [OF laws(2-4)] by (auto split: if_splits)
  ultimately show ?thesis by (auto simp: decided_def)
next
  case (4 lag p99Ms cnt w1 d t' w2 w3)
  have w1: "tenants w1 = tenants w" using observe_signals_keep [OF laws(2) 4(1)] .
  then have i: "t' = decided d t" "tenants w2 = (tenants w)(tt_key t \<mapsto> t')" using isolate_effect [OF laws(1,2) _ 4(3)] t by auto
  have w3: "tenants w3 = tenants w2" using 4(4) provision_keep [OF laws(2-4)] by (auto split: if_splits)
  have "tenants w3 (tt_key t') = Some t'" using i w3 by simp
  then show ?thesis using write_status_effect [OF laws(1,2) _ 4(5)] i w3 by (auto simp: decided_def split: sum.splits)
qed

definition spec_kept :: "tenants \<Rightarrow> tenants \<Rightarrow> bool" where
  "spec_kept ts ts' \<longleftrightarrow> (\<forall>k t. ts k = Some t \<longrightarrow> (\<exists>t'. ts' k = Some t' \<and> (tt_Spec t' = tt_Spec t \<or> tt_Spec t' = tt_Spec (set_dedicated t))))"

lemma spec_kept_refl [simp]: "spec_kept ts ts"
  by (auto simp: spec_kept_def)

lemma spec_kept_trans: "spec_kept ts ts' \<Longrightarrow> spec_kept ts' ts'' \<Longrightarrow> spec_kept ts ts''"
  unfolding spec_kept_def set_dedicated_def by fastforce

lemma Reconcile_spec_kept:
  assumes laws: "tenant_laws (rc_Client r) tenants" "observers_keep r tenants" "pool_keep (rc_Client r) tenants" "maps_keep (rc_Client r) tenants"
    and run: "TradingTenant_Reconcile r ctx req w = Some (res, w')"
  shows "spec_kept (tenants w) (tenants w')"
proof -
  obtain v where v: "reconcile_pass r ctx req w = Some (res, v)" "tenants w' = tenants v"
    using run laws(2) by (auto simp: TradingTenant_Reconcile_def observers_keep_def observeDuration_def split: option.splits)
  obtain g w1 where g: "k_GetTenant (rc_Client r) (reconcile_ctx r ctx w) req w = (g, w1)" by fastforce
  have w1: "tenants w1 = tenants w" using tenant_law(1) [OF laws(1) g] by blast
  show ?thesis
  proof (cases g)
    case (Inl e)
    then show ?thesis using v g w1 by (cases e) (auto simp: reconcile_pass_def Let_def)
  next
    case (Inr t)
    then have t: "tenants w1 (tt_key t) = Some t" using tenant_law(1) [OF laws(1) g] by auto
    have "reconcile_tenant r (reconcile_ctx r ctx w) t w1 = Some (res, v)" using v g Inr by (simp add: reconcile_pass_def Let_def)
    then obtain t' where "tenants v = (tenants w)(tt_key t \<mapsto> t')" "tt_Spec t' = tt_Spec t \<or> tt_Spec t' = tt_Spec (set_dedicated t)"
      using reconcile_tenant_spec [OF laws t] w1 by metis
    then show ?thesis using v(2) t w1 by (auto simp: spec_kept_def)
  qed
qed

text \<open>Passes for any tenants, in any order, successful or not.\<close>

inductive passes :: "'w TradingTenantReconciler \<Rightarrow> 'w \<Rightarrow> 'w \<Rightarrow> bool" for r where
  start: "passes r w w"
| pass: "passes r w w1 \<Longrightarrow> TradingTenant_Reconcile r ctx req w1 = Some (res, w2) \<Longrightarrow> passes r w w2"


section \<open>A successful pass\<close>

definition cluster_laws :: "'w TradingTenantReconciler \<Rightarrow> ('w \<Rightarrow> tenants) \<Rightarrow> ('w \<Rightarrow> cluster) \<Rightarrow> bool" where
  "cluster_laws r tenants view \<longleftrightarrow>
     tenant_laws (rc_Client r) tenants \<and> observers_keep r tenants \<and> pool_keep (rc_Client r) tenants \<and> maps_keep (rc_Client r) tenants
     \<and> observers_keep r view \<and> tenants_keep r view \<and> apply_laws r view \<and> delete_laws (rc_Client r) view
     \<and> stores_maps (rc_Client r) (\<lambda>w. cl_ConfigMaps (view w)) \<and> maps_keep (rc_Client r) (\<lambda>w. (cl_Deployments (view w), cl_Services (view w)))"

lemma map_name_distinct: "tenantPartitionMapName \<noteq> dedicatedConfigMapName t"
proof
  assume "tenantPartitionMapName = dedicatedConfigMapName t"
  then have "last tenantPartitionMapName = last (dedicatedConfigMapName t)" by simp
  then show False by (simp add: tenantPartitionMapName_def dedicatedConfigMapName_def)
qed

lemma pool_ready_frame:
  assumes "pool_ready r t a b n v" "cl_Deployments v' = cl_Deployments v" "cl_Services v' = cl_Services v"
    and "cl_ConfigMaps v' (tt_Namespace t, dedicatedConfigMapName t) = cl_ConfigMaps v (tt_Namespace t, dedicatedConfigMapName t)"
  shows "pool_ready r t a b n v'"
  using assms unfolding pool_ready_def by simp

lemma map_changed_other: "map_changed ns es cms (err, cms') \<Longrightarrow> name \<noteq> tenantPartitionMapName \<Longrightarrow> cms' (ns', name) = cms (ns', name)"
  by (simp add: map_changed_def)

lemma provision_effect:
  assumes laws: "cluster_laws r tenants view" and es: "tenant_map (cl_ConfigMaps (view w)) (tt_Namespace t) = Inr (Some es)" "text_keys es"
    and utf: "valid_utf8 (ts_TenantID (tt_Spec t))"
  shows "\<exists>err w'. provision r ctx label t cnt n w = Some (err, w')
    \<and> (err = None \<longrightarrow> (\<exists>start es'. pool_ready r t start cnt n (view w') \<and> tenant_map (cl_ConfigMaps (view w')) (tt_Namespace t) = Inr (Some es')
         \<and> map_of es' = (map_of es)(ts_TenantID (tt_Spec t) \<mapsto> \<lparr>pe_Start = start, pe_Count = cnt\<rparr>)))"
proof -
  note law = laws [unfolded cluster_laws_def]
  obtain p w1 where p: "ob_PartitionStart (rc_Observer r) ctx label w = (p, w1)" by fastforce
  have v1: "view w1 = view w" using observer_results(4) [OF _ p] law by blast
  show ?thesis
  proof (cases p)
    case (Inr start)
    obtain q w2 where q: "ensureDedicatedPool r ctx t start cnt n w1 = (q, w2)" by fastforce
    show ?thesis
    proof (cases q)
      case Q: (Inr created)
      define w3 where "w3 = (if created then recordTransition r t reasonDedicatedPoolProvisioned ''Normal''
                      (''Dedicated node pool resources provisioned for tenant '' @ ts_TenantID (tt_Spec t)) w2 else w2)"
      have v3: "view w3 = view w2" unfolding w3_def using recordTransition_keep [of r view] law by simp
      have ready: "pool_ready r t start cnt n (view w2)" "cl_ConfigMaps (view w2) (tt_Namespace t, tenantPartitionMapName) = cl_ConfigMaps (view w) (tt_Namespace t, tenantPartitionMapName)"
        using ensureDedicatedPool_ready [of r view ctx t start cnt n w1 created w2] law q Q v1 map_name_distinct [of t] by simp_all
      have es3: "tenant_map (cl_ConfigMaps (view w3)) (tt_Namespace t) = Inr (Some es)" unfolding v3 using es(1) ready(2) by (simp add: tenant_map_def)
      have ok: "mutate_ok (rc_Client r) ctx (tt_Namespace t) (put_entry (ts_TenantID (tt_Spec t)) \<lparr>pe_Start = start, pe_Count = cnt\<rparr>)
          (\<lambda>w. cl_ConfigMaps (view w)) (AList.update (ts_TenantID (tt_Spec t)) \<lparr>pe_Start = start, pe_Count = cnt\<rparr> es) w3"
        using law es3 text_keys_update [OF es(2) utf] by (intro mutate_effect [of _ _ _ _ es]) (simp_all add: put_entry_def)
      then obtain err w' where m: "ensureTenantPartitionMapEntry (rc_Client r) ctx t start cnt w3 = Some (err, w')"
          "map_changed (tt_Namespace t) (AList.update (ts_TenantID (tt_Spec t)) \<lparr>pe_Start = start, pe_Count = cnt\<rparr> es) (cl_ConfigMaps (view w3)) (err, cl_ConfigMaps (view w'))"
        by (auto simp: mutate_ok_def ensureTenantPartitionMapEntry_def split: option.splits)
      have keep: "cl_Deployments (view w') = cl_Deployments (view w3)" "cl_Services (view w') = cl_Services (view w3)"
        using map_entry_keep(1) [of "rc_Client r" "\<lambda>w. (cl_Deployments (view w), cl_Services (view w))", OF _ m(1)] law by auto
      have "provision r ctx label t cnt n w = Some (map_option (Wrap ''reconciling tradingtenant: publishing tenant partition map entry'') err, w')"
        using p Inr q Q m(1) by (simp add: provision_def w3_def)
      moreover have "pool_ready r t start cnt n (view w')"
        by (rule pool_ready_frame [OF ready(1) [folded v3] keep map_changed_other [OF m(2)]]) (use map_name_distinct [of t] in simp)
      moreover have "\<exists>es'. tenant_map (cl_ConfigMaps (view w')) (tt_Namespace t) = Inr (Some es')
          \<and> map_of es' = (map_of es)(ts_TenantID (tt_Spec t) \<mapsto> \<lparr>pe_Start = start, pe_Count = cnt\<rparr>)" if "err = None"
        using m(2) that unfolding map_changed_def update_conv' by auto
      ultimately show ?thesis by blast
    qed (use p Inr q in \<open>simp add: provision_def\<close>)
  qed (use p in \<open>simp add: provision_def\<close>)
qed

lemma deprovision_effect:
  assumes laws: "cluster_laws r tenants view" and es: "tenant_map (cl_ConfigMaps (view w)) (tt_Namespace t) = Inr (Some es)" "text_keys es"
  shows "\<exists>err w'. deprovision r ctx t w = Some (err, w')
    \<and> (err = None \<longrightarrow> (\<forall>x \<in> set (dedicated_objects t). \<not> cluster_has (view w') x)
         \<and> (\<exists>es'. tenant_map (cl_ConfigMaps (view w')) (tt_Namespace t) = Inr (Some es') \<and> map_of es' = (map_of es)(ts_TenantID (tt_Spec t) := None)))"
proof -
  note law = laws [unfolded cluster_laws_def]
  obtain q w1 where q: "delete_objects (rc_Client r) ctx (dedicated_objects t) False w = (q, w1)" by fastforce
  show ?thesis
  proof (cases q)
    case (Inr torn)
    define w2 where "w2 = (if torn then recordTransition r t reasonDedicatedPoolTornDown ''Normal''
                      (''Dedicated node pool resources torn down for tenant '' @ ts_TenantID (tt_Spec t)) w1 else w1)"
    have v2: "view w2 = view w1" unfolding w2_def using recordTransition_keep [of r view] law by simp
    have dl: "delete_laws (rc_Client r) view" using law by simp
    have del: "\<forall>x \<in> set (dedicated_objects t). \<not> cluster_has (view w1) x"
      "cl_ConfigMaps (view w1) (tt_Namespace t, tenantPartitionMapName) = cl_ConfigMaps (view w) (tt_Namespace t, tenantPartitionMapName)"
      using delete_objects_done [OF dl q [unfolded Inr]] map_name_distinct [of t] by (auto simp: dedicated_objects_def)
    have es2: "tenant_map (cl_ConfigMaps (view w2)) (tt_Namespace t) = Inr (Some es)" unfolding v2 using es(1) del(2) by (simp add: tenant_map_def)
    have "mutate_ok (rc_Client r) ctx (tt_Namespace t) (delete_entry (ts_TenantID (tt_Spec t))) (\<lambda>w. cl_ConfigMaps (view w)) (AList.delete (ts_TenantID (tt_Spec t)) es) w2"
      using law es2 text_keys_delete [OF es(2)] by (intro mutate_effect [of _ _ _ _ es]) (simp_all add: delete_entry_def)
    then obtain err w' where m: "removeTenantPartitionMapEntry (rc_Client r) ctx t w2 = Some (err, w')"
        "map_changed (tt_Namespace t) (AList.delete (ts_TenantID (tt_Spec t)) es) (cl_ConfigMaps (view w2)) (err, cl_ConfigMaps (view w'))"
      by (auto simp: mutate_ok_def removeTenantPartitionMapEntry_def split: option.splits)
    have keep: "cl_Deployments (view w') = cl_Deployments (view w2)" "cl_Services (view w') = cl_Services (view w2)"
      using map_entry_keep(2) [of "rc_Client r" "\<lambda>w. (cl_Deployments (view w), cl_Services (view w))", OF _ m(1)] law by auto
    have "deprovision r ctx t w = Some (map_option (Wrap ''reconciling tradingtenant: removing tenant partition map entry'') err, w')"
      using q Inr m(1) by (simp add: deprovision_def tearDownDedicatedPool_def w2_def)
    moreover have "\<forall>x \<in> set (dedicated_objects t). \<not> cluster_has (view w') x"
      using del(1) v2 keep map_changed_other [OF m(2), of "dedicatedConfigMapName t"] map_name_distinct [of t] by (auto simp: dedicated_objects_def)
    moreover have "\<exists>es'. tenant_map (cl_ConfigMaps (view w')) (tt_Namespace t) = Inr (Some es') \<and> map_of es' = (map_of es)(ts_TenantID (tt_Spec t) := None)"
      if "err = None" using m(2) that unfolding map_changed_def delete_conv' by auto
    ultimately show ?thesis by auto
  qed (use q in \<open>simp add: deprovision_def tearDownDedicatedPool_def\<close>)
qed

text \<open>What a successful pass leaves behind for a tenant, with the signals it saw.\<close>

definition reconciled_cluster ::
    "'w TradingTenantReconciler \<Rightarrow> TradingTenant \<Rightarrow> mapping \<Rightarrow> reconcileDecision \<Rightarrow> int32 \<Rightarrow> cluster \<Rightarrow> bool" where
  "reconciled_cluster r t es d cnt v \<longleftrightarrow>
     (\<exists>es'. tenant_map (cl_ConfigMaps v) (tt_Namespace t) = Inr (Some es')
        \<and> (if dedicated t \<or> rd_setDedicatedNodePool d
           then \<exists>start. map_of es' = (map_of es)(ts_TenantID (tt_Spec t) \<mapsto> \<lparr>pe_Start = start, pe_Count = cnt\<rparr>)
                  \<and> pool_ready r (decided d t) start cnt (rd_replicas d) v
           else map_of es' = (map_of es)(ts_TenantID (tt_Spec t) := None) \<and> (\<forall>x \<in> set (dedicated_objects t). \<not> cluster_has v x)))"

lemma dedicated_step:
  assumes laws: "cluster_laws r tenants view" and es: "tenant_map (cl_ConfigMaps (view w)) (tt_Namespace t) = Inr (Some es)" "text_keys es"
    and utf: "valid_utf8 (ts_TenantID (tt_Spec t))" and t': "t' = decided d t"
  shows "\<exists>err w'. (if dedicated t' then provision r ctx label t' cnt (rd_replicas d) w else deprovision r ctx t' w) = Some (err, w')
    \<and> (err = None \<longrightarrow> reconciled_cluster r t es d cnt (view w'))"
proof (cases "dedicated t'")
  case True
  obtain err w' where p: "provision r ctx label t' cnt (rd_replicas d) w = Some (err, w')"
    "err = None \<longrightarrow> (\<exists>start es'. pool_ready r t' start cnt (rd_replicas d) (view w') \<and> tenant_map (cl_ConfigMaps (view w')) (tt_Namespace t') = Inr (Some es')
         \<and> map_of es' = (map_of es)(ts_TenantID (tt_Spec t') \<mapsto> \<lparr>pe_Start = start, pe_Count = cnt\<rparr>))"
    using provision_effect [OF laws, of w t' es ctx label cnt "rd_replicas d"] es utf t' by auto
  show ?thesis by (rule exI [of _ err], rule exI [of _ w']) (use p True t' in \<open>auto simp: reconciled_cluster_def\<close>)
next
  case False
  then have eq: "t' = t" using t' by (auto simp: decided_def split: if_splits)
  obtain err w' where p: "deprovision r ctx t w = Some (err, w')"
    "err = None \<longrightarrow> (\<forall>x \<in> set (dedicated_objects t). \<not> cluster_has (view w') x)
       \<and> (\<exists>es'. tenant_map (cl_ConfigMaps (view w')) (tt_Namespace t) = Inr (Some es') \<and> map_of es' = (map_of es)(ts_TenantID (tt_Spec t) := None))"
    using deprovision_effect [OF laws es] by blast
  have "\<not> (dedicated t \<or> rd_setDedicatedNodePool d)" using False t' by simp
  then show ?thesis by (intro exI [of _ err] exI [of _ w']) (use p False eq in \<open>auto simp: reconciled_cluster_def\<close>)
qed

text \<open>A completed pass: the status stored is the decision on some signals, the flag and the cluster follow it.\<close>

definition pass_done ::
    "'w TradingTenantReconciler \<Rightarrow> ('w \<Rightarrow> tenants) \<Rightarrow> ('w \<Rightarrow> cluster) \<Rightarrow> TradingTenant \<Rightarrow> mapping \<Rightarrow> 'w \<Rightarrow> 'w \<Rightarrow> bool" where
  "pass_done r tenants view t es w w' \<longleftrightarrow>
     (\<exists>lag p99Ms cnt d status.
        d = classify (tt_Spec t) (baseline_replicas (tt_Spec t) (tu_CurrentReplicas (tt_Status t))) (dedicated t) lag p99Ms cnt
        \<and> tenants w' = (tenants w)(tt_key t \<mapsto> (decided d t)\<lparr>tt_Status := status\<rparr>)
        \<and> tu_CurrentReplicas status = rd_replicas d \<and> tu_State status = rd_state d
        \<and> tu_ObservedKafkaLag status = lag \<and> tu_ObservedP99Ms status = p99Ms \<and> tu_ObservedPartitionCount status = cnt
        \<and> reconciled_cluster r t es d cnt (view w'))"

lemma pass_doneI:
  assumes "d = classify (tt_Spec t) (baseline_replicas (tt_Spec t) (tu_CurrentReplicas (tt_Status t))) (dedicated t) lag p99Ms cnt"
    and "tenants w' = (tenants w)(tt_key t \<mapsto> (decided d t)\<lparr>tt_Status := new_status r d lag p99Ms cnt w3\<rparr>)" "reconciled_cluster r t es d cnt (view w')"
  shows "pass_done r tenants view t es w w'"
  unfolding pass_done_def
  by (rule exI [of _ lag], rule exI [of _ p99Ms], rule exI [of _ cnt], rule exI [of _ d], rule exI [of _ "new_status r d lag p99Ms cnt w3"])
    (use assms in \<open>simp add: new_status_def\<close>)

lemma write_status_view:
  assumes "observers_keep r view" "tenants_keep r view" "write_status r ctx old t st w = (res, w')" shows "view w' = view w"
  using assms(3) tenant_results(3) [OF assms(2)] recordTransition_keep [OF assms(1)]
  by (auto simp: write_status_def Let_def split: prod.splits sum.splits if_splits)

lemma isolate_view:
  assumes "observers_keep r view" "tenants_keep r view" "isolate r ctx d t w = (res, w')" shows "view w' = view w"
  using assms(3) tenant_results(2) [OF assms(2)] recordTransition_keep [OF assms(1)]
  by (auto simp: isolate_def split: prod.splits sum.splits if_splits)

lemma reconcile_tenant_done:
  assumes laws: "cluster_laws r tenants view" and t: "tenants w (tt_key t) = Some t"
    and es: "tenant_map (cl_ConfigMaps (view w)) (tt_Namespace t) = Inr (Some es)" "text_keys es" and utf: "valid_utf8 (ts_TenantID (tt_Spec t))"
  shows "\<exists>res w'. reconcile_tenant r ctx t w = Some (res, w') \<and> (\<forall>requeue. res = Inr requeue \<longrightarrow> pass_done r tenants view t es w w')"
proof -
  note law = laws [unfolded cluster_laws_def]
  obtain s w1 where s: "observe_signals r ctx (tenant_label r t) w = (s, w1)" by fastforce
  show ?thesis
  proof (cases s)
    case (Inr v)
    obtain lag p99Ms cnt where v: "v = (lag, p99Ms, cnt)" by (cases v) auto
    define d where "d = classify (tt_Spec t) (baseline_replicas (tt_Spec t) (tu_CurrentReplicas (tt_Status t))) (dedicated t) lag p99Ms cnt"
    have w1: "tenants w1 = tenants w" "view w1 = view w" using observe_signals_keep [OF _ s] law by blast+
    obtain i w2 where i: "isolate r ctx d t w1 = (i, w2)" by fastforce
    show ?thesis
    proof (cases i)
      case I: (Inr t')
      have t': "t' = decided d t" "tenants w2 = (tenants w)(tt_key t \<mapsto> t')"
        using isolate_effect [of r tenants w1 t ctx d i w2] law w1 t i I by auto
      have w2: "view w2 = view w" using isolate_view [of r view, OF _ _ i] law w1 by simp
      obtain err w3 where p: "(if dedicated t' then provision r ctx (tenant_label r t) t' cnt (rd_replicas d) w2 else deprovision r ctx t' w2) = Some (err, w3)"
          "err = None \<longrightarrow> reconciled_cluster r t es d cnt (view w3)"
        using dedicated_step [OF laws _ es(2) utf t'(1), of w2 ctx "tenant_label r t" cnt] es(1) w2 by auto
      have w3: "tenants w3 = tenants w2" using p(1) provision_keep [of r tenants] law by (auto split: if_splits)
      obtain res w' where ws: "write_status r ctx (tu_State (tt_Status t)) t' (new_status r d lag p99Ms cnt w3) w3 = (res, w')" by fastforce
      show ?thesis
      proof (cases err)
        case None
        have "view w' = view w3" using write_status_view [of r view, OF _ _ ws] law by blast
        moreover have "tenants w' = (tenants w)(tt_key t \<mapsto> t'\<lparr>tt_Status := new_status r d lag p99Ms cnt w3\<rparr>)" if "res = Inr requeue" for requeue
          using write_status_effect [of r tenants w3 t' ctx _ _ res w', OF _ _ _ ws] law w3 t' that by auto
        ultimately have "pass_done r tenants view t es w w'" if "res = Inr requeue" for requeue
          using that p(2) None t'(1) by (intro pass_doneI [OF d_def, of tenants w' w r w3]) auto
        moreover have "reconcile_tenant r ctx t w = Some (res, w')"
          using s Inr v i I p(1) None ws unfolding reconcile_tenant_def d_def Let_def by simp
        ultimately show ?thesis by blast
      next
        case (Some e)
        then have "reconcile_tenant r ctx t w = Some (Inl e, w3)" using s Inr v i I p(1) unfolding reconcile_tenant_def d_def Let_def by simp
        then show ?thesis by blast
      qed
    qed (use s Inr v i in \<open>unfold reconcile_tenant_def d_def Let_def, simp\<close>)
  qed (use s in \<open>unfold reconcile_tenant_def Let_def, simp\<close>)
qed

lemma Reconcile_done:
  assumes laws: "cluster_laws r tenants view" and t: "tenants w req = Some t" "tt_key t = req"
    and es: "tenant_map (cl_ConfigMaps (view w)) (tt_Namespace t) = Inr (Some es)" "text_keys es" and utf: "valid_utf8 (ts_TenantID (tt_Spec t))"
  shows "\<exists>res w'. TradingTenant_Reconcile r ctx req w = Some (res, w')
    \<and> (\<forall>requeue. res = Inr requeue \<longrightarrow> pass_done r tenants view t es w w')"
proof -
  note law = laws [unfolded cluster_laws_def]
  let ?ctx = "reconcile_ctx r ctx w"
  obtain g w1 where g: "k_GetTenant (rc_Client r) ?ctx req w = (g, w1)" by fastforce
  have gl: "tenants w1 = tenants w" "view w1 = view w"
    "case g of Inr t \<Rightarrow> tenants w req = Some t \<and> tt_key t = req | Inl e \<Rightarrow> e = NotFound \<longrightarrow> tenants w req = None"
    using tenant_law(1) [OF _ g, of tenants] tenant_results(1) [OF _ g, of view] law by auto
  have "\<exists>res v. reconcile_pass r ctx req w = Some (res, v) \<and> (\<forall>requeue. res = Inr requeue \<longrightarrow> pass_done r tenants view t es w v)"
  proof (cases g)
    case (Inl e)
    then show ?thesis using g gl(3) t(1) by (cases e) (auto simp: reconcile_pass_def Let_def)
  next
    case (Inr t0)
    then have "t0 = t" using gl(3) t by simp
    then show ?thesis using reconcile_tenant_done [OF laws, of w1 t es ?ctx] g Inr gl(1,2) t es utf
      by (auto simp: reconcile_pass_def Let_def pass_done_def)
  qed
  then obtain res v where v: "reconcile_pass r ctx req w = Some (res, v)" "\<forall>requeue. res = Inr requeue \<longrightarrow> pass_done r tenants view t es w v" by blast
  define w' where "w' = (case rc_Metrics r of None \<Rightarrow> v | Some meter \<Rightarrow> observeDuration meter (case res of Inl _ \<Rightarrow> ''error'' | Inr _ \<Rightarrow> ''success'')
      (duration_Seconds (time_Sub (rc_now r v) (rc_now r w))) v)"
  have keep: "tenants w' = tenants v" "view w' = view v"
    using law by (auto simp: w'_def observers_keep_def observeDuration_def split: option.splits)
  have "TradingTenant_Reconcile r ctx req w = Some (res, w')" using v(1) by (simp add: TradingTenant_Reconcile_def w'_def)
  then show ?thesis using v(2) keep by (auto simp: pass_done_def)
qed


section \<open>The cluster in memory satisfies the laws\<close>

lemma kube_api_tenants: "tenant_laws kube_api kb_tenants"
  by (auto simp: tenant_laws_def kube_api_def Let_def split: option.splits)

lemma demo_keeps:
  "observers_keep demo_reconciler kb_tenants" "observers_keep demo_reconciler kb_cluster"
  "tenants_keep demo_reconciler kb_cluster" "maps_keep kube_api kb_tenants"
  "maps_keep kube_api (\<lambda>w. (cl_Deployments (kb_cluster w), cl_Services (kb_cluster w)))"
  by (simp_all add: observers_keep_def demo_reconciler_def tenants_keep_def maps_keep_def kube_api_def Let_def split: option.splits)

lemma demo_pool_keep: "pool_keep kube_api kb_tenants"
  by (auto simp: pool_keep_def kube_api_def store_apply_def Let_def split: option.splits sum.splits)

lemma demo_cluster_laws: "cluster_laws demo_reconciler kb_tenants kb_cluster"
  using kube_api_tenants demo_keeps demo_pool_keep kube_api_apply [OF demo_reconciler_client] kube_api_delete kube_api_maps
  by (simp add: cluster_laws_def demo_reconciler_client)

text \<open>A tenant at partition parity with high lag and normal latency.\<close>

definition demo_kube :: kube where
  "demo_kube = empty_kube\<lparr>kb_tenants := [(''default'', ''acme-tenant'') \<mapsto> demo_tenant]\<rparr>"

lemma demo_kube_facts:
  "kb_tenants demo_kube (''default'', ''acme-tenant'') = Some demo_tenant" "tt_key demo_tenant = (''default'', ''acme-tenant'')"
  "tenant_map (cl_ConfigMaps (kb_cluster demo_kube)) (tt_Namespace demo_tenant) = Inr (Some [])" "text_keys []"
  by (simp_all add: demo_kube_def empty_kube_def tt_key_def demo_tenant_def tenant_map_def text_keys_def)



end
