(* ===== verification/ConsumerReload.thy ===== *)
theory ConsumerReload
  imports Consumer
begin

text \<open>
  Hot reload of a dedicated processor's partitions, \<open>src/internal/processor/kafka/reload.go\<close>: the map
  file is polled, the tenant's entry expanded to a set of partitions, and the client's assignment
  changed to it, additions before removals. The assignment is \<open>con.assignment\<close>, None being the nil
  map; what the client is assigned is read from the state by a function the laws of the client are
  stated with.
\<close>

section \<open>Model of reload.go\<close>

definition Consumer_Load :: "files \<Rightarrow> string \<Rightarrow> (string \<times> tenantPartitionMapEntry) list result" where
  "Consumer_Load readFile path =
     (case readFile path of Inl err \<Rightarrow> Inl (Wrap ''read tenant partition map'' err)
      | Inr raw \<Rightarrow> (case unmarshal_entries raw of None \<Rightarrow> Inl (Msg ''parse tenant partition map'') | Some m \<Rightarrow> Inr (entries_of m)))"

definition partitionsForEntry :: "tenantPartitionMapEntry \<Rightarrow> int32 set result" where
  "partitionsForEntry entry =
     (if sint (pe_Count entry) < 1 then Inl (Msg ''count must be >= 1'')
      else Inr (set (map (\<lambda>index. pe_Start entry + of_nat index) [0..<nat (sint (pe_Count entry))])))"

definition loadTarget :: "ConsumerReloader \<Rightarrow> files \<Rightarrow> int32 set result" where
  "loadTarget reloader readFile =
     bind_res (Consumer_Load readFile (cr_Source reloader)) (\<lambda>entries.
       case map_of entries (cr_TenantID reloader) of
         None \<Rightarrow> Inl (Msg ''tenant has no entry in tenant partition map'')
       | Some entry \<Rightarrow> wrap_res ''tenant'' (partitionsForEntry entry))"

text \<open>The calls \<open>applyAssignment\<close> makes on the client, in order, and their effect.\<close>

datatype assign_call = AddConsumePartitions string "int32 set" | RemoveConsumePartitions string "int32 set"

fun assign :: "'w kafkaClient \<Rightarrow> assign_call \<Rightarrow> 'w \<Rightarrow> 'w" where
  "assign client (AddConsumePartitions topic ps) w = kc_AddConsumePartitions client topic ps w"
| "assign client (RemoveConsumePartitions topic ps) w = kc_RemoveConsumePartitions client topic ps w"

definition assigned_set :: "int32 set option \<Rightarrow> int32 set" where
  "assigned_set assignment = (case assignment of None \<Rightarrow> {} | Some ps \<Rightarrow> ps)"

definition assignment_calls :: "string \<Rightarrow> int32 set \<Rightarrow> int32 set option \<Rightarrow> assign_call list" where
  "assignment_calls topic target assignment =
     (let added = target - assigned_set assignment;
          removed = assigned_set assignment - target
      in (if added \<noteq> {} then [AddConsumePartitions topic added] else [])
         @ (if removed \<noteq> {} then [RemoveConsumePartitions topic removed] else []))"

definition applyAssignment ::
    "'w kafkaClient \<Rightarrow> string \<Rightarrow> int32 set \<Rightarrow> int32 set option \<times> 'w \<Rightarrow> int32 set option \<times> 'w" where
  "applyAssignment client topic target s =
     (case assignment_calls topic target (fst s) of
        [] \<Rightarrow> s
      | calls \<Rightarrow> (Some target, foldl (\<lambda>w call. assign client call w) (snd s) calls))"

definition Consumer_reloadOnce ::
    "'w kafkaClient \<Rightarrow> 'w meter option \<Rightarrow> ConsumerReloader \<Rightarrow> files \<Rightarrow> int32 set option \<times> 'w \<Rightarrow> int32 set option \<times> 'w" where
  "Consumer_reloadOnce client metrics reloader readFile s =
     (case loadTarget reloader readFile of
        Inl err \<Rightarrow> (case metrics of None \<Rightarrow> s
                   | Some meter \<Rightarrow> (fst s, meter (Inc ''processor_kafka_tenant_partition_reload_errors_total'' []) (snd s)))
      | Inr target \<Rightarrow> applyAssignment client (cr_Topic reloader) target s)"

text \<open>\<open>Run\<close>: the ticks until the context is canceled, each with the files as they are at that time.\<close>

definition Consumer_DefaultTenantPartitionReloadInterval :: duration where
  "Consumer_DefaultTenantPartitionReloadInterval = 5000000000"

definition Consumer_reload_interval :: "ConsumerReloader \<Rightarrow> duration" where
  "Consumer_reload_interval reloader =
     (if sint (cr_Interval reloader) \<le> 0 then Consumer_DefaultTenantPartitionReloadInterval else cr_Interval reloader)"

definition Consumer_reload_Run ::
    "'w kafkaClient \<Rightarrow> 'w meter option \<Rightarrow> ConsumerReloader \<Rightarrow> files list \<Rightarrow> int32 set option \<times> 'w \<Rightarrow> int32 set option \<times> 'w" where
  "Consumer_reload_Run client metrics reloader ticks s = foldl (\<lambda>s readFile. Consumer_reloadOnce client metrics reloader readFile s) s ticks"

section \<open>The range of an entry\<close>

lemma partitionsForEntry_nonempty: "partitionsForEntry entry = Inr ps \<Longrightarrow> ps \<noteq> {}"
  by (auto simp: partitionsForEntry_def split: if_splits)

lemma loadTarget_nonempty:
  assumes "loadTarget reloader readFile = Inr ps" shows "ps \<noteq> {}"
proof -
  obtain entry where "wrap_res ''tenant'' (partitionsForEntry entry) = Inr ps"
    using assms by (auto simp: loadTarget_def bind_res_Inr_iff split: option.splits)
  then show ?thesis using partitionsForEntry_nonempty by (cases "partitionsForEntry entry") (auto simp: wrap_res_def)
qed

lemma partitionsForEntry_mem:
  assumes "partitionsForEntry \<lparr>pe_Start = start, pe_Count = n\<rparr> = Inr ps" "0 \<le> sint start" "sint start + sint n \<le> 2 ^ 31"
  shows "p \<in> ps \<longleftrightarrow> sint start \<le> sint p \<and> sint p < sint start + sint n"
proof -
  have bound: "sint (start + of_nat i) = sint start + int i" if "i < nat (sint n)" for i
  proof -
    have "int i \<le> max_int32" using that sint32_range(2) [of n] by simp
    then have "sint (of_nat i :: int32) = int i" using sint32_of_int [of "int i"] by (simp add: is_int32_def)
    then show ?thesis using that assms(2,3) by (subst sint32_add) (auto simp: is_int32_def)
  qed
  have ps: "ps = (\<lambda>i. start + of_nat i) ` {0..<nat (sint n)}" using assms(1) by (auto simp: partitionsForEntry_def split: if_splits)
  show ?thesis
  proof
    assume "p \<in> ps"
    then obtain i where "i < nat (sint n)" "p = start + of_nat i" unfolding ps by auto
    then show "sint start \<le> sint p \<and> sint p < sint start + sint n" using bound [of i] by simp
  next
    assume r: "sint start \<le> sint p \<and> sint p < sint start + sint n"
    define i where "i = nat (sint p - sint start)"
    have i: "i < nat (sint n)" "sint p = sint start + int i" using r by (auto simp: i_def)
    then have "p = start + of_nat i" using bound [OF i(1)] by (simp add: sint32_eq_iff)
    then show "p \<in> ps" unfolding ps using i(1) by auto
  qed
qed

section \<open>Changing the assignment\<close>

text \<open>What the client promises: an addition adds to the partitions it consumes, a removal takes away from them.\<close>

definition assigns :: "'w kafkaClient \<Rightarrow> ('w \<Rightarrow> string \<Rightarrow> int32 set) \<Rightarrow> bool" where
  "assigns client assigned \<longleftrightarrow>
     (\<forall>topic ps w. assigned (kc_AddConsumePartitions client topic ps w) topic = assigned w topic \<union> ps
        \<and> assigned (kc_RemoveConsumePartitions client topic ps w) topic = assigned w topic - ps)"

lemma assigns_simps:
  "assigns client assigned \<Longrightarrow> assigned (assign client (AddConsumePartitions topic ps) w) topic = assigned w topic \<union> ps"
  "assigns client assigned \<Longrightarrow> assigned (assign client (RemoveConsumePartitions topic ps) w) topic = assigned w topic - ps"
  by (simp_all add: assigns_def)

lemma applyAssignment_target:
  assumes "assigns client assigned" "assigned w topic = assigned_set assignment" "target \<noteq> {}"
    "applyAssignment client topic target (assignment, w) = (assignment', w')"
  shows "assignment' = Some target \<and> assigned w' topic = target"
  using assms(2-4) assigns_simps [OF assms(1)]
  by (cases assignment) (auto simp: applyAssignment_def assignment_calls_def assigned_set_def Let_def split: if_splits)

text \<open>
  C23: a reload never leaves a gap. Whatever the current and the new range, after every prefix of the
  calls \<open>applyAssignment\<close> makes, each partition in both ranges is still assigned, and a non-empty
  assignment never becomes empty on the way to a non-empty target; after all of them exactly the
  target is assigned, and the recorded assignment is what the client has.
\<close>

theorem applyAssignment_gapless:
  assumes "assigns client assigned" "assigned w topic = assigned_set assignment" "target \<noteq> {}"
  shows "applyAssignment client topic target (assignment, w)
      = (Some target, foldl (\<lambda>w call. assign client call w) w (assignment_calls topic target assignment))
    \<and> assigned (snd (applyAssignment client topic target (assignment, w))) topic = target
    \<and> (\<forall>n. let now = assigned (foldl (\<lambda>w call. assign client call w) w (take n (assignment_calls topic target assignment))) topic
           in assigned_set assignment \<inter> target \<subseteq> now \<and> (assigned_set assignment \<noteq> {} \<longrightarrow> now \<noteq> {}))"
proof -
  note laws = assigns_simps [OF assms(1)]
  obtain assignment' w' where run: "applyAssignment client topic target (assignment, w) = (assignment', w')" by fastforce
  have cur: "assigned w topic = assigned_set assignment" by (rule assms(2))
  have final: "assignment' = Some target" "assigned w' topic = target" using applyAssignment_target [OF assms run] by auto
  have "w' = foldl (\<lambda>w call. assign client call w) w (assignment_calls topic target assignment)"
    using run by (auto simp: applyAssignment_def split: list.splits)
  moreover have "assigned_set assignment \<inter> target \<subseteq> now \<and> (assigned_set assignment \<noteq> {} \<longrightarrow> now \<noteq> {})"
    if "now = assigned (foldl (\<lambda>w call. assign client call w) w (take n (assignment_calls topic target assignment))) topic" for n now
    using that assms(3) cur laws [of topic] by (cases n; cases "n - 1") (auto simp: assignment_calls_def Let_def split: if_splits)
  ultimately show ?thesis using run final by (simp add: Let_def)
qed

text \<open>The last poll whose map could be loaded.\<close>

definition target_after :: "ConsumerReloader \<Rightarrow> files list \<Rightarrow> int32 set \<Rightarrow> int32 set" where
  "target_after reloader ticks start =
     foldl (\<lambda>ps readFile. case loadTarget reloader readFile of Inl _ \<Rightarrow> ps | Inr target \<Rightarrow> target) start ticks"

lemma reloadOnce_step:
  assumes "assigns client assigned" "\<And>meter c v. metrics = Some meter \<Longrightarrow> assigned (meter c v) (cr_Topic reloader) = assigned v (cr_Topic reloader)"
    and "assigned w (cr_Topic reloader) = ps" "ps \<noteq> {}"
  shows "\<exists>w1. Consumer_reloadOnce client metrics reloader f (Some ps, w) = (Some (case loadTarget reloader f of Inl _ \<Rightarrow> ps | Inr target \<Rightarrow> target), w1)
    \<and> assigned w1 (cr_Topic reloader) = (case loadTarget reloader f of Inl _ \<Rightarrow> ps | Inr target \<Rightarrow> target)
    \<and> (case loadTarget reloader f of Inl _ \<Rightarrow> ps | Inr target \<Rightarrow> target) \<noteq> {}"
proof (cases "loadTarget reloader f")
  case (Inl err)
  then show ?thesis using assms(2-4) by (cases metrics) (simp_all add: Consumer_reloadOnce_def)
next
  case (Inr target)
  then have ne: "target \<noteq> {}" using loadTarget_nonempty by blast
  obtain a1 w1 where s: "applyAssignment client (cr_Topic reloader) target (Some ps, w) = (a1, w1)" by fastforce
  then have "a1 = Some target" "assigned w1 (cr_Topic reloader) = target"
    using applyAssignment_target [OF assms(1) _ ne s] assms(3) by (auto simp: assigned_set_def)
  then show ?thesis using Inr s ne by (simp add: Consumer_reloadOnce_def)
qed

text \<open>
  C24: a dedicated processor always consumes the last range it could load. Starting from a non-empty
  assignment, after any sequence of polls the client is assigned exactly the range of the last map
  that could be read, parsed and had a valid entry for the tenant (the initial range if none),
  and this is never empty; polls that fail change nothing.
\<close>

theorem consumer_reload_last_good:
  assumes "assigns client assigned" "\<And>meter c v. metrics = Some meter \<Longrightarrow> assigned (meter c v) (cr_Topic reloader) = assigned v (cr_Topic reloader)"
    and "assigned w (cr_Topic reloader) = ps" "ps \<noteq> {}"
    and "Consumer_reload_Run client metrics reloader ticks (Some ps, w) = (assignment', w')"
  shows "assigned w' (cr_Topic reloader) = target_after reloader ticks ps \<and> assignment' = Some (target_after reloader ticks ps)
    \<and> target_after reloader ticks ps \<noteq> {}"
  using assms(3-5)
proof (induction ticks arbitrary: ps w)
  case (Cons f ticks)
  let ?ps = "case loadTarget reloader f of Inl _ \<Rightarrow> ps | Inr target \<Rightarrow> target"
  obtain w1 where "Consumer_reloadOnce client metrics reloader f (Some ps, w) = (Some ?ps, w1)" "assigned w1 (cr_Topic reloader) = ?ps" "?ps \<noteq> {}"
    using reloadOnce_step [where metrics = metrics and reloader = reloader and assigned = assigned and f = f, OF assms(1) _ Cons.prems(1,2)] assms(2) by meson
  then show ?case using Cons.IH [of w1 ?ps] Cons.prems(3) by (simp add: Consumer_reload_Run_def target_after_def)
qed (simp add: Consumer_reload_Run_def target_after_def)

text \<open>A client whose state is the set of partitions it is assigned.\<close>

definition set_client :: "int32 set kafkaClient" where
  "set_client = \<lparr>kc_PollRecords = (\<lambda>_ w. (\<lparr>f_Errors = [], f_Partitions = []\<rparr>, w)), kc_ProduceSync = (\<lambda>_ w. (None, w)),
     kc_AddConsumePartitions = (\<lambda>_ ps w. w \<union> ps), kc_RemoveConsumePartitions = (\<lambda>_ ps w. w - ps), kc_Close = id\<rparr>"

lemma set_client_assigns: "assigns set_client (\<lambda>w topic. w)"
  by (simp add: assigns_def set_client_def)

theorem applyAssignment_gapless_witness:
  "assigns set_client (\<lambda>w topic. w) \<and> snd (applyAssignment set_client ''t'' {2, 3, 4, 5} (Some {0, 1, 2, 3}, {0, 1, 2, 3})) = {2, 3, 4, 5}
   \<and> assignment_calls ''t'' {2, 3, 4, 5} (Some {0, 1, 2, 3}) = [AddConsumePartitions ''t'' {4, 5}, RemoveConsumePartitions ''t'' {0, 1}]"
proof -
  have "snd (applyAssignment set_client ''t'' {2, 3, 4, 5} (Some {0, 1, 2, 3}, {0, 1, 2, 3})) = {2, 3, 4, 5}"
    by (rule applyAssignment_gapless [OF set_client_assigns, THEN conjunct2, THEN conjunct1]) (simp_all add: assigned_set_def)
  then show ?thesis using set_client_assigns by (simp add: assignment_calls_def assigned_set_def Let_def insert_Diff_if)
qed

theorem consumer_reload_last_good_witness:
  "snd (Consumer_reload_Run set_client None \<lparr>cr_Source = ''map'', cr_TenantID = ''acme'', cr_Topic = ''t'', cr_Interval = 0\<rparr>
     [\<lambda>_. Inl (Msg ''missing'')] (Some {0, 1}, {0, 1})) = {0, 1}"
proof -
  let ?r = "\<lparr>cr_Source = ''map'', cr_TenantID = ''acme'', cr_Topic = ''t'', cr_Interval = 0\<rparr> :: ConsumerReloader"
  obtain a w' where run: "Consumer_reload_Run set_client None ?r [\<lambda>_. Inl (Msg ''missing'')] (Some {0, 1}, {0, 1}) = (a, w')" by fastforce
  show ?thesis
    using consumer_reload_last_good [OF set_client_assigns _ _ _ run] run by (simp add: target_after_def loadTarget_def Consumer_Load_def)
qed

end
