(* ===== verification/Isolation.thy ===== *)
theory Isolation
  imports Partitioner ConsumerReload DedicatedPool
begin

text \<open>
  How a tenant's partitions reach its dedicated processor. The partitioner reports every range it establishes
  on two gauges (\<open>observePartitionRange\<close> of \<open>src/internal/ingestion/kafka/metrics.go\<close>), the operator reads them through
  Prometheus (\<open>Promquery\<close>), writes the range as a list into the pool's ConfigMap and as an entry
  into the shared partition map (\<open>DedicatedPool\<close>, \<open>TenantMap\<close>), and the processor reads it back from either (\<open>Consumer\<close>, \<open>ConsumerReload\<close>).
\<close>

section \<open>Model of observePartitionRange\<close>

definition partitionCountMetric :: string where "partitionCountMetric = ''ingestion_kafka_tenant_partition_count''"
definition partitionStartMetric :: string where "partitionStartMetric = ''ingestion_kafka_tenant_partition_start_count''"

definition observePartitionRange :: "KnownTenants \<Rightarrow> string \<Rightarrow> int32 \<Rightarrow> int32 \<Rightarrow> 'w meter \<Rightarrow> 'w \<Rightarrow> 'w" where
  "observePartitionRange known tenantID start cnt meter w =
     (let label = Metrics.TenantLabel known tenantID;
          w1 = meter (SetGauge partitionCountMetric [label] (float64_of_int (sint cnt))) w
      in meter (SetGauge partitionStartMetric [label] (float64_of_int (sint start))) w1)"

text \<open>The gauges of a registry, by name and label values: \<open>Set\<close> replaces the value.\<close>

type_synonym gauges = "string \<times> string list \<rightharpoonup> f64"

definition set_gauges :: "gauges meter" where
  "set_gauges c g = (case c of SetGauge n ls v \<Rightarrow> g((n, ls) \<mapsto> v) | _ \<Rightarrow> g)"

definition report_ranges :: "KnownTenants \<Rightarrow> (string \<times> partitionRange) list \<Rightarrow> gauges \<Rightarrow> gauges" where
  "report_ranges known observed g =
     foldl (\<lambda>g (tenantID, rng). observePartitionRange known tenantID (pr_start rng) (pr_size rng) set_gauges g) g observed"

lemma report_one:
  assumes "t \<in> known" "t \<noteq> UnknownTenantLabel"
  shows "report_ranges known [(u, r)] g (partitionCountMetric, [t]) = (if u = t then Some (float64_of_int (sint (pr_size r))) else g (partitionCountMetric, [t]))"
    "report_ranges known [(u, r)] g (partitionStartMetric, [t]) = (if u = t then Some (float64_of_int (sint (pr_start r))) else g (partitionStartMetric, [t]))"
  using assms by (auto simp: report_ranges_def observePartitionRange_def set_gauges_def Metrics.TenantLabel_def partitionCountMetric_def
      partitionStartMetric_def Let_def)

lemma report_append: "report_ranges known (obs @ [x]) g = report_ranges known [x] (report_ranges known obs g)"
  by (simp add: report_ranges_def)

text \<open>A known tenant's gauges hold the range reported last.\<close>

lemma report_last:
  assumes "t \<in> known" "t \<noteq> UnknownTenantLabel" "map_of (rev obs) t = Some r"
  shows "report_ranges known obs g (partitionCountMetric, [t]) = Some (float64_of_int (sint (pr_size r)))
    \<and> report_ranges known obs g (partitionStartMetric, [t]) = Some (float64_of_int (sint (pr_start r)))"
  using assms(3)
proof (induction obs rule: rev_induct)
  case (snoc x obs)
  then show ?case using report_one [OF assms(1,2), of "fst x" "snd x"] unfolding report_append by (cases x) (auto split: if_splits)
qed simp

section \<open>What is reported is what is used\<close>

definition own_range :: "reservationTable \<Rightarrow> string \<Rightarrow> partitionRange option" where
  "own_range tb t = (case rt_explicit tb t of Some r \<Rightarrow> Some r | None \<Rightarrow> rt_pool tb t)"

definition reports_own :: "reservationTable \<Rightarrow> bool" where
  "reports_own tb \<longleftrightarrow> (\<forall>t r. rt_explicit tb t = Some r \<longrightarrow> map_of (rev (rt_observed tb)) t = Some r)
     \<and> (\<forall>t r. rt_explicit tb t = None \<longrightarrow> rt_pool tb t = Some r \<longrightarrow> map_of (rev (rt_observed tb)) t = Some r)"

lemma reports_own_range: "reports_own tb \<Longrightarrow> own_range tb t = Some r \<Longrightarrow> map_of (rev (rt_observed tb)) t = Some r"
  by (auto simp: reports_own_def own_range_def split: option.splits)

lemma own_range_of: "own_range tb t = Some r \<Longrightarrow> range_of tb t = Some r"
  by (auto simp: own_range_def range_of_def split: option.splits)

lemma map_of_rev: "distinct (map fst xs) \<Longrightarrow> map_of (rev xs) = map_of xs"
  by (metis distinct_rev map_of_inject_set rev_map set_rev)

lemma carve_keys: "carve reserved cap ts cursor = (ex, cur, dr) \<Longrightarrow> ts = map fst ex @ dr"
proof (induction ts arbitrary: cursor ex)
  case (Cons t ts)
  then show ?case by (fastforce simp: carve_Cons Let_def split: if_splits prod.splits)
qed simp

lemma table_for_reports:
  assumes "distinct (map fst (ps_reserved shared))" shows "reports_own (table_for shared parts)"
proof -
  define tb where "tb = table_for shared parts"
  obtain ex cur dr where c: "carve (ps_reserved shared) (if 1 < sint (rt_totalPartitions tb) then rt_totalPartitions tb - 1 else rt_totalPartitions tb)
      (sort (map fst (ps_reserved shared))) 0 = (ex, cur, dr)" by (metis prod_cases3)
  then have tb: "rt_explicit tb = map_of ex" "rt_observed tb = ex" "rt_pool tb = Map.empty"
    by (auto simp: tb_def table_for_def newReservationTable_def Let_def split: prod.splits)
  have "distinct (sort (map fst (ps_reserved shared)))" using assms by simp
  then have "distinct (map fst ex)" unfolding carve_keys [OF c] by simp
  then show ?thesis unfolding tb_def [symmetric] reports_own_def tb by (simp add: map_of_rev)
qed

lemma poolRangeFor_reports:
  assumes "poolRangeFor tb t = Some (r, tb')" "reports_own tb" "rt_explicit tb t = None"
  shows "reports_own tb'"
  using assms by (auto simp: poolRangeFor_def reports_own_def Let_def split: option.splits if_splits)

lemma partitionFor_reports: "partitionFor tb t i = Some (p, tb') \<Longrightarrow> reports_own tb \<Longrightarrow> reports_own tb'"
  using poolRangeFor_reports by (fastforce simp: partitionFor_def split: option.splits)

lemma publish_all_reports:
  assumes "publish_all shared parts rs part = Some (ps, part')" "settled_on shared parts tb part" "table_live tb" "reports_own tb" "keys_ok rs"
  shows "\<exists>tb'. tp_table part' = Some tb' \<and> reports_own tb'"
  using assms
proof (induction rs arbitrary: ps part tb)
  case Nil
  then show ?case by (auto simp: settled_on_def)
next
  case (Cons x rs)
  obtain t i where x: "x = (t, i)" by fastforce
  have k: "CHR '':'' \<notin> set t" "keys_ok rs" using Cons.prems(5) by (simp_all add: keys_ok_def x)
  have re: "rebuild shared parts part = (tb, part)" using Cons.prems(2) by (simp add: settled_on_def rebuild_def)
  obtain p part1 where one: "Partition shared (partitionKey t i) parts part = Some (p, part1)"
    using Cons.prems(1) x by (auto split: option.splits)
  obtain q tb1 where pf: "partitionFor tb t i = Some (q, tb1)" "part1 = part\<lparr>tp_table := Some tb1\<rparr>"
    using one re k(1) by (auto simp: Partition_def splitPartitionKey_key)
  obtain tb2 where s: "settled_on shared parts tb2 part1" "table_live tb2"
    using Partition_settled [OF Cons.prems(2,3) k(1), of i] one by auto
  then have "tb2 = tb1" using pf(2) by (simp add: settled_on_def)
  moreover have "reports_own tb1" using partitionFor_reports [OF pf(1) Cons.prems(4)] .
  moreover obtain ps1 where "publish_all shared parts rs part1 = Some (ps1, part')" using Cons.prems(1) one x by auto
  ultimately show ?case using Cons.IH s k(2) by blast
qed

section \<open>Reading the gauges\<close>

text \<open>An instant query for a gauge of one tenant answers the one series whose value is the gauge's.\<close>

definition answers_query :: "'w promClient \<Rightarrow> string \<Rightarrow> f64 \<Rightarrow> bool" where
  "answers_query client query v \<longleftrightarrow> (\<forall>ctx t w. fst (qc_queryAPI client ctx query t w) = Inr (Vector [v]))"

definition scraped :: "'w promClient \<Rightarrow> gauges \<Rightarrow> Promquery.TenantLabel \<Rightarrow> bool" where
  "scraped client g label \<longleftrightarrow>
     (\<forall>v. g (partitionCountMetric, [tl_Value label]) = Some v \<longrightarrow> answers_query client (selector_query partitionCountMetric label) v)
     \<and> (\<forall>v. g (partitionStartMetric, [tl_Value label]) = Some v \<longrightarrow> answers_query client (selector_query partitionStartMetric label) v)"

lemma queryScalar_query: "answers_query client query v \<Longrightarrow> fst (queryScalar client ctx query w) = Inr v"
  unfolding answers_query_def queryScalar_def Let_def
  by (auto simp: split_beta split: sum.splits prom_value.splits list.splits)

lemma round_away_int [simp]: "round_away (of_int k) = k"
proof -
  have "\<lfloor>(of_int k :: rat) + 1 / 2\<rfloor> = k" "\<lfloor>- (of_int k :: rat) + 1 / 2\<rfloor> = - k" for k by (simp_all add: floor_eq_iff)
  then show ?thesis by (auto simp: round_away_def)
qed

lemma observed_int32_int:
  assumes "- (2 ^ 31) \<le> x" "x \<le> 2 ^ 31 - 1"
  shows "observed_int32 unspec what (Inr (float64_of_int x)) = Inr (word_of_int x)"
proof -
  have "float64_of_int x = Fin (of_int x)" unfolding float64_of_int_def using assms by (intro round64_int) (auto simp: abs_less_iff)
  moreover have "int_of_f64 unspec 32 (Fin (of_int x)) = x" using assms by (intro int_of_f64_int) auto
  moreover have "\<not> (2 ^ 31 - 1 < (of_int x :: rat))" "\<not> ((of_int x :: rat) < - (2 ^ 31))"
    using assms of_int_le_iff [of x "2 ^ 31 - 1", where 'a = rat] of_int_le_iff [of "- (2 ^ 31)" x, where 'a = rat] by simp_all
  ultimately show ?thesis by (simp add: observed_int32_def Let_def)
qed

lemma observed_int32_gauge: "observed_int32 unspec what (Inr (float64_of_int (sint (k :: int32)))) = Inr k"
  using observed_int32_int [of "sint k" unspec what] sint32_range [of k] by simp

lemma observed_range:
  assumes "scraped client g label" "g (partitionCountMetric, [tl_Value label]) = Some (float64_of_int (sint n))"
    "g (partitionStartMetric, [tl_Value label]) = Some (float64_of_int (sint start))"
  shows "fst (ObservedPartitionCount unspec client ctx label w) = Inr n" "fst (ObservedPartitionStart unspec client ctx label w) = Inr start"
proof -
  have "fst (queryScalar client ctx (selector_query partitionCountMetric label) w) = Inr (float64_of_int (sint n))"
    "fst (queryScalar client ctx (selector_query partitionStartMetric label) w) = Inr (float64_of_int (sint start))"
    using assms by (auto simp: scraped_def intro: queryScalar_query)
  then show "fst (ObservedPartitionCount unspec client ctx label w) = Inr n" "fst (ObservedPartitionStart unspec client ctx label w) = Inr start"
    by (simp_all add: ObservedPartitionCount_def ObservedPartitionStart_def split_beta Let_def observed_int32_gauge
        flip: partitionCountMetric_def partitionStartMetric_def)
qed

section \<open>The list in the ConfigMap\<close>

lemma Itoa_text:
  assumes "0 \<le> k" shows "CHR '','' \<notin> set (Itoa k)" "strings_TrimSpace (Itoa k) = Itoa k"
proof -
  have i: "Itoa k = FormatUint (nat k)" using assms by (simp add: Itoa_def)
  have d: "\<forall>c \<in> set (Itoa k). is_digit c" using FormatUint_digits [of "nat k"] by (simp add: i list_all_iff)
  show "CHR '','' \<notin> set (Itoa k)" using d digit_not_sign by blast
  have "no_blank c" if "is_digit c" for c using that by (simp add: no_blank_def is_digit_def)
  then have "no_blank (hd (Itoa k))" "no_blank (last (Itoa k))"
    using d hd_in_set [of "Itoa k"] last_in_set [of "Itoa k"] FormatUint_nonempty [of "nat k"] unfolding i by metis+
  then show "strings_TrimSpace (Itoa k) = Itoa k" by (intro TrimSpace_no_blank) (simp_all add: i)
qed

lemma parse_fields_Itoa: "\<forall>k \<in> set ks. 0 \<le> k \<and> is_int64 k \<Longrightarrow> parsePartition_fields (map Itoa ks) = Inr (map word_of_int ks)"
proof (induction ks)
  case (Cons k ks)
  then have "strings_TrimSpace (Itoa k) = Itoa k" "Atoi (Itoa k) = Inr k" "0 \<le> k" by (simp_all add: Itoa_text Atoi_Itoa)
  then show ?case using Cons by simp
qed simp

lemma partition_list_roundtrip:
  assumes "1 \<le> sint n" "0 \<le> sint start" "sint start + sint n \<le> 2 ^ 31"
  shows "partitionListString start n \<noteq> []"
    "\<exists>ps. parsePartitionList (partitionListString start n) = Inr ps \<and> partitionsForEntry \<lparr>pe_Start = start, pe_Count = n\<rparr> = Inr (set ps)"
proof -
  define ks where "ks = map (\<lambda>i. sint (start + of_nat i)) [0..<nat (sint n)]"
  have add: "sint (start + of_nat i) = sint start + int i" if "i < nat (sint n)" for i
  proof -
    have "int i \<le> max_int32" using that sint32_range(2) [of n] by simp
    then have "sint (of_nat i :: int32) = int i" using sint32_of_int [of "int i"] by (simp add: is_int32_def)
    then show ?thesis using that assms(2,3) by (subst sint32_add) (auto simp: is_int32_def)
  qed
  have ks: "\<forall>k \<in> set ks. 0 \<le> k \<and> is_int64 k" using assms add by (auto simp: ks_def is_int64_def)
  have list: "partitionListString start n = strings_Join (map Itoa ks) (CHR '','')"
    using assms(1) by (simp add: partitionListString_def ks_def comp_def)
  have ne: "ks \<noteq> []" using assms(1) by (simp add: ks_def)
  then have split: "strings_Split (partitionListString start n) (CHR '','') = map Itoa ks"
    unfolding list using ks Itoa_text by (intro Split_Join) auto
  have "Itoa k \<noteq> []" for k by (simp add: Itoa_def)
  then have "map Itoa ks \<noteq> [[]]" by (cases ks) (metis list.simps(3,8), metis list.simps(9) list.inject)
  then show "partitionListString start n \<noteq> []" using split by auto
  have "parsePartitionList (partitionListString start n) = Inr (map word_of_int ks)"
    unfolding parsePartitionList_def split using ks by (rule parse_fields_Itoa)
  then show "\<exists>ps. parsePartitionList (partitionListString start n) = Inr ps \<and> partitionsForEntry \<lparr>pe_Start = start, pe_Count = n\<rparr> = Inr (set ps)"
    using assms(1) by (intro exI [of _ "map word_of_int ks"] conjI) (simp_all add: partitionsForEntry_def ks_def comp_def)
qed

lemma range_image:
  assumes "partitionsForEntry \<lparr>pe_Start = start, pe_Count = n\<rparr> = Inr ps" "0 \<le> sint start" "sint start + sint n \<le> 2 ^ 31"
  shows "sint ` ps = {sint start ..< sint start + sint n}"
proof
  show "sint ` ps \<subseteq> {sint start ..< sint start + sint n}" using partitionsForEntry_mem [OF assms] by auto
  show "{sint start ..< sint start + sint n} \<subseteq> sint ` ps"
  proof
    fix p assume p: "p \<in> {sint start ..< sint start + sint n}"
    then have "sint (word_of_int p :: int32) = p" using assms(2,3) by (intro sint32_of_int) (auto simp: is_int32_def)
    then show "p \<in> sint ` ps" using partitionsForEntry_mem [OF assms, of "word_of_int p"] p by (intro image_eqI [of _ _ "word_of_int p"]) auto
  qed
qed

section \<open>From the partitioner to the dedicated processor\<close>

text \<open>Every record of a run lies in the range its tenant has in the table at the end.\<close>

lemma run_ranges:
  assumes "stale shared parts part" "config_ok shared parts" "keys_ok rs" "distinct (map fst (ps_reserved shared))" "rs \<noteq> []"
    "publish_all shared parts rs part = Some (ps, part')" "tp_table part' = Some tb"
  shows "table_live tb \<and> reports_own tb
    \<and> (\<forall>j < length rs. \<exists>r. range_of tb (fst (rs ! j)) = Some r \<and> ps ! j \<in> range_set r)"
proof -
  have tb: "table_live tb" and at: "list_all2 (\<lambda>(t, i) p. \<exists>r. range_of tb t = Some r \<and> p = sint (place r i)) rs ps"
    using publish_all_stale [OF assms(1-3)] assms(5-7) by (auto simp: settled_on_def)
  obtain part0 where "settled_on shared parts (table_for shared parts) part0" "publish_all shared parts rs part0 = Some (ps, part')"
    using stale_rebuilt [OF assms(1,2,5)] assms(6) by metis
  then have "reports_own tb"
    using publish_all_reports [OF _ _ table_for_live(1) [OF assms(2)] table_for_reports [OF assms(4)] assms(3)] assms(7) by fastforce
  moreover have "\<exists>r. range_of tb (fst (rs ! j)) = Some r \<and> ps ! j \<in> range_set r" if j: "j < length rs" for j
  proof -
    obtain r where r: "range_of tb (fst (rs ! j)) = Some r" "ps ! j = sint (place r (snd (rs ! j)))"
      using list_all2_nthD [OF at j] by (auto simp: case_prod_unfold)
    then show ?thesis using range_of_bounds [OF tb r(1)] sint32_range(2) [of "rt_totalPartitions tb"] by (auto intro!: place_in_range)
  qed
  ultimately show ?thesis using tb by blast
qed

text \<open>
  C10: an isolated tenant's dedicated processor consumes exactly the tenant's partitions. Let the partitioner place any run of records from
  its first call or after a reload, let its reports reach the gauges that Prometheus serves, and take a known tenant that published and holds a range (reserved,
  or its own block of the pool). Then the operator reads that range without error; the list it writes into the ConfigMap of the pool
  is read by the processor as the same set of partitions as the entry it writes into the partition map; all records of the tenant lie in that set; and no record of another
  tenant does, if the tenant's range is reserved or the other tenant also holds a range.
\<close>

theorem dedicated_processor_covers:
  assumes run: "stale shared parts part" "config_ok shared parts" "keys_ok rs" "distinct (map fst (ps_reserved shared))"
      "publish_all shared parts rs part = Some (ps, part')" "tp_table part' = Some tb"
    and tenant: "(t, i) \<in> set rs" "own_range tb t \<noteq> None" "t \<in> known" "t \<noteq> UnknownTenantLabel"
    and scrape: "tl_Value label = t" "scraped client (report_ranges known (rt_observed tb) g) label"
  shows "\<exists>start n partitions. fst (ObservedPartitionStart unspec client ctx label w) = Inr start
    \<and> fst (ObservedPartitionCount unspec client ctx label w) = Inr n
    \<and> (\<forall>getenv. getenv ''KAFKA_MANUAL_PARTITIONS'' = partitionListString start n \<longrightarrow> partitions_from_env getenv = Inr partitions) \<and> partitions \<noteq> []
    \<and> partitionsForEntry \<lparr>pe_Start = start, pe_Count = n\<rparr> = Inr (set partitions)
    \<and> (\<forall>j < length rs. fst (rs ! j) = t \<longrightarrow> ps ! j \<in> sint ` set partitions)
    \<and> (\<forall>j < length rs. fst (rs ! j) \<noteq> t \<and> (t \<in> dom (rt_explicit tb) \<or> own_range tb (fst (rs ! j)) \<noteq> None) \<longrightarrow> ps ! j \<notin> sint ` set partitions)"
proof -
  have "rs \<noteq> []" using tenant(1) by auto
  note facts = run_ranges [OF run(1-4) this run(5,6)]
  obtain r where own: "own_range tb t = Some r" using tenant(2) by blast
  note r = own_range_of [OF own]
  have b: "0 \<le> sint (pr_start r)" "1 \<le> sint (pr_size r)" "sint (pr_start r) + sint (pr_size r) \<le> 2 ^ 31"
    using range_of_bounds [OF _ r] facts sint32_range(2) [of "rt_totalPartitions tb"] by auto
  have obs: "fst (ObservedPartitionCount unspec client ctx label w) = Inr (pr_size r)" "fst (ObservedPartitionStart unspec client ctx label w) = Inr (pr_start r)"
    using report_last [OF tenant(3,4) reports_own_range [OF _ own], of g] facts scrape by (auto intro: observed_range)
  obtain ps' where ps': "parsePartitionList (partitionListString (pr_start r) (pr_size r)) = Inr ps'"
    "partitionsForEntry \<lparr>pe_Start = pr_start r, pe_Count = pr_size r\<rparr> = Inr (set ps')"
    using partition_list_roundtrip(2) [OF b(2,1,3)] by blast
  have env: "\<forall>getenv. getenv ''KAFKA_MANUAL_PARTITIONS'' = partitionListString (pr_start r) (pr_size r) \<longrightarrow> partitions_from_env getenv = Inr ps'" "ps' \<noteq> []"
    using partition_list_roundtrip(1) [OF b(2,1,3)] ps' partitionsForEntry_nonempty [OF ps'(2)] by (auto simp: partitions_from_env_def)
  have set: "sint ` set ps' = range_set r"
    using range_image [OF ps'(2) b(1,3)] by (simp add: range_set_def)
  have "ps ! j \<in> range_set r" if "j < length rs" "fst (rs ! j) = t" for j using facts r that by fastforce
  moreover have "ps ! j \<notin> range_set r" if j: "j < length rs" "fst (rs ! j) \<noteq> t" "t \<in> dom (rt_explicit tb) \<or> own_range tb (fst (rs ! j)) \<noteq> None" for j
  proof -
    obtain s where s: "range_of tb (fst (rs ! j)) = Some s" "ps ! j \<in> range_set s" using facts j(1) by blast
    have "range_set r \<inter> range_set s = {}"
      using range_of_disjoint [OF _ r s(1)] facts j(2,3) own by (force simp: own_range_def split: option.splits)
    then show ?thesis using s(2) by blast
  qed
  ultimately show ?thesis using obs env ps'(2) unfolding set [symmetric] by blast
qed

definition demo_label :: Promquery.TenantLabel where "demo_label = \<lparr>tl_Name = ''tenant'', tl_Value = ''acme''\<rparr>"

text \<open>A server that knows the two gauges of the tenant: two partitions from partition 0.\<close>

definition demo_prometheus :: "unit promClient" where
  "demo_prometheus = \<lparr>qc_queryAPI = (\<lambda>_ query _ w. (Inr (Vector [if query = selector_query partitionCountMetric demo_label then Fin 2 else Fin 0]), w)),
     qc_timeout = defaultTimeout, qc_now = (\<lambda>_. 0)\<rparr>"

lemma demo_run:
  "\<exists>ps part' tb. publish_all demo_shared 6 demo_records ForTopic = Some (ps, part') \<and> tp_table part' = Some tb
    \<and> rt_explicit tb ''acme'' = Some \<lparr>pr_start = 0, pr_size = 2\<rparr>"
proof -
  obtain ps part' tb where "publish_all demo_shared 6 demo_records ForTopic = Some (ps, part')" "table_le (table_for demo_shared 6) tb"
    "settled_on demo_shared 6 tb part'"
    using publish_all_stale [OF demo_partitioner(1-3)] by (auto simp: demo_records_def)
  moreover have "rt_explicit (table_for demo_shared 6) ''acme'' = Some \<lparr>pr_start = 0, pr_size = 2\<rparr>"
    by (simp add: table_for_def newReservationTable_def demo_shared_def newTenantPartitioner_def reserved_size_def)
  ultimately show ?thesis by (auto simp: settled_on_def table_le_def)
qed

theorem dedicated_processor_covers_witness:
  "\<exists>ps part' start n partitions. publish_all demo_shared 6 demo_records ForTopic = Some (ps, part')
    \<and> fst (ObservedPartitionStart (\<lambda>_. 0) demo_prometheus None demo_label ()) = Inr start
    \<and> fst (ObservedPartitionCount (\<lambda>_. 0) demo_prometheus None demo_label ()) = Inr n
    \<and> parsePartitionList (partitionListString start n) = Inr partitions \<and> ps ! 0 \<in> sint ` set partitions \<and> ps ! 1 \<notin> sint ` set partitions"
proof -
  obtain ps part' tb where run: "publish_all demo_shared 6 demo_records ForTopic = Some (ps, part')" "tp_table part' = Some tb"
    "rt_explicit tb ''acme'' = Some \<lparr>pr_start = 0, pr_size = 2\<rparr>" using demo_run by blast
  have d: "distinct (map fst (ps_reserved demo_shared))" by (simp add: demo_shared_def newTenantPartitioner_def)
  have a: "(''acme'', ''AAPL'') \<in> set demo_records" "''acme'' \<in> {''acme''}" "''acme'' \<noteq> UnknownTenantLabel"
    by (simp_all add: demo_records_def UnknownTenantLabel_def)
  have own: "own_range tb ''acme'' = Some \<lparr>pr_start = 0, pr_size = 2\<rparr>" using run(3) by (simp add: own_range_def)
  have rep: "reports_own tb" using run_ranges [OF demo_partitioner(1-3) d _ run(1,2)] by (simp add: demo_records_def)
  have f: "float64_of_int 2 = Fin 2" "float64_of_int 0 = Fin 0" using round64_int [of 2] round64_int [of 0] by (simp_all add: float64_of_int_def)
  have sel: "selector_query partitionStartMetric demo_label \<noteq> selector_query partitionCountMetric demo_label"
    by (simp add: selector_query_def partitionStartMetric_def partitionCountMetric_def)
  have scr: "scraped demo_prometheus (report_ranges {''acme''} (rt_observed tb) Map.empty) demo_label"
    using report_last [OF a(2,3) reports_own_range [OF rep own], of Map.empty] sel
    by (simp add: scraped_def demo_label_def f answers_query_def demo_prometheus_def)
  have len: "length demo_records = 3" "fst (demo_records ! 0) = ''acme''" "fst (demo_records ! 1) \<noteq> ''acme''" by (simp_all add: demo_records_def)
  obtain start n partitions where c: "fst (ObservedPartitionStart (\<lambda>_. 0) demo_prometheus None demo_label ()) = Inr start"
    "fst (ObservedPartitionCount (\<lambda>_. 0) demo_prometheus None demo_label ()) = Inr n"
    "\<forall>getenv. getenv ''KAFKA_MANUAL_PARTITIONS'' = partitionListString start n \<longrightarrow> partitions_from_env getenv = Inr partitions" "partitions \<noteq> []"
    "\<forall>j < length demo_records. fst (demo_records ! j) = ''acme'' \<longrightarrow> ps ! j \<in> sint ` set partitions"
    "\<forall>j < length demo_records. fst (demo_records ! j) \<noteq> ''acme'' \<and> (''acme'' \<in> dom (rt_explicit tb) \<or> own_range tb (fst (demo_records ! j)) \<noteq> None)
       \<longrightarrow> ps ! j \<notin> sint ` set partitions"
    using dedicated_processor_covers [OF demo_partitioner(1-3) d run(1,2) a(1) _ a(2,3) _ scr, of "\<lambda>_. 0" None "()"] own by (auto simp: demo_label_def)
  have "parsePartitionList (partitionListString start n) = Inr partitions"
    using c(3) [rule_format, of "\<lambda>_. partitionListString start n"] c(4) by (auto simp: partitions_from_env_def split: if_splits sum.splits)
  moreover have "ps ! 0 \<in> sint ` set partitions" "ps ! 1 \<notin> sint ` set partitions"
    using c(5) [rule_format, of 0] c(6) [rule_format, of 1] len run(3) by auto
  ultimately show ?thesis using run(1) c(1,2) by blast
qed

end
