(* ===== verification/Spec2Isabelle.thy ===== *)
theory Spec2Isabelle
  imports Commands Controller Isolation
begin

text \<open>
  Verification library of the transaction control plane.

  The program. Clients send trades to the ingestion service over REST or gRPC (\<open>src/internal/api\<close>). It authenticates, rate-limits and
  validates them, and publishes each as a JSON record to a Kafka topic through a circuit breaker and a bounded queue
  (\<open>src/internal/ingestion\<close>); a partitioner keeps the tenants apart. The processor consumes the topic (\<open>src/internal/processor/kafka\<close>), stores every trade in a Postgres
  ledger exactly once and keeps the position and profit of every tenant and instrument (\<open>src/internal/processor\<close>, \<open>src/internal/ledger\<close>); what it cannot process goes to a dead-letter topic.
  A Kubernetes operator (\<open>src/operator\<close>) watches lag and latency of every tenant through Prometheus, scales it, and moves it to a
  dedicated pool with partitions of its own.

  Conventions. Go integers are words of their width (\<open>int64\<close>, \<open>int32\<close>, \<open>uint32\<close>), read with \<open>sint\<close> or \<open>unat\<close>; arithmetic wraps as in Go.
  Strings are byte lists, times are nanoseconds, a context is its deadline, an error is a value (\<open>goerror\<close>) and a fallible result a sum. State is passed explicitly:
  code that calls an interface is polymorphic in the state \<open>'w\<close>, and an interface is a record of functions on it. A panic, and a loop that does
  not end, is the value None. Logging is left out, and so are the variable parts of most error texts.

  Theories, in the order of the code.
  \<^item> \<open>Prelude\<close>, \<open>GoLib\<close>, \<open>GoTime\<close>, \<open>GoFloat\<close>, \<open>GoConf\<close>, \<open>Json\<close>: what the program uses of Go: results and errors, word ranges, strconv and strings,
    RFC 3339 times, float64 with rounding to nearest even, duration and float parsing, and encoding/json, with the round trips they owe.
  \<^item> \<open>Amount\<close> (\<open>amount.go\<close>), \<open>Trade\<close> and \<open>Processor\<close> (\<open>processor.go\<close>), \<open>Ledger\<close> (\<open>ledger.go\<close>), \<open>Storage\<close> (\<open>storage/\<close>), \<open>CoreBreaker\<close>
    (\<open>corebreaker.go\<close>), \<open>LedgerBreaker\<close> (\<open>ledger/breaker.go\<close>), \<open>ProcessorMetrics\<close> (\<open>processor/metrics.go\<close>). The contract of the two repositories is the locale
    \<open>ledger_store\<close>; \<open>breaker_store\<close> shows that a breaker in front of it keeps the contract; both are interpreted on the Postgres stores. Shown: decimal parsing is exact; positions and
    profit obey the accounting identity; every trade is applied at most once under crashes and failures, and exactly once under retries; a breaker trips, fails fast and recovers under every
    interleaving of callers.
  \<^item> \<open>Wire\<close>, \<open>Publisher\<close>, \<open>PartitionMap\<close>, \<open>Partitioner\<close>, \<open>Ingestion\<close>, \<open>Metrics\<close>: events on the topic, the producer with its configuration and hot reload, the placement of
    records, the decorators of the publish path (locales \<open>event_publisher\<close> and \<open>publish_path\<close>), metric names. Shown: records are placed on
    a partition of the topic, stably, and apart from other tenants; an acknowledged publish is in the topic exactly once; a reload keeps the last good map.
  \<^item> \<open>RateLimiter\<close>, \<open>Api\<close>: token buckets and both transports. Shown: the sharded limiter refines one map; every response is truthful about what was
    published; the transports agree.
  \<^item> \<open>Consumer\<close>, \<open>ConsumerReload\<close>: the poll loop and the manual assignment. Shown: no record is skipped; retries are bounded; an assignment changes without a gap.
  \<^item> \<open>Promquery\<close>, \<open>Operator\<close>, \<open>TenantMap\<close>, \<open>DedicatedPool\<close>, \<open>Controller\<close>: the operator. Shown: labels cannot leave their literal; the decision table and that it
    settles; what a pass leaves in the cluster and in the shared map; isolation is never undone.
  \<^item> \<open>Commands\<close>: the environment and the wiring of the three commands, and the connection pool settings. \<open>Isolation\<close>: the way of a tenant's range from the partitioner to its dedicated processor. This theory: the way of
    an event from the request to the reconciler.

  Parameters. Code outside the repository is an argument with named laws: the uuid and timestamp packages (\<open>uuid_laws\<close>, \<open>timestamp_laws\<close>), the Kafka
  client, the pgx pool, the Prometheus registry and API (\<open>scraped\<close>), the Kubernetes API (\<open>apply_laws\<close>, \<open>delete_laws\<close>, \<open>stores_maps\<close>, \<open>tenant_laws\<close>). Postgres is the tables of the
  migrations under a script that decides, per call, the time taken, failures and lost acknowledgements. The witnesses instantiate each law.

  Loops and bounds. \<open>Consumer_Run\<close>, \<open>retry_loop\<close> and \<open>mutateTenantPartitionMap\<close> are \<open>partial_function (option)\<close>; the retry loop is shown to return for
  every bound below \<open>2 ^ 63 - 2\<close>, each iteration of \<open>Run\<close> likewise, and a reconcile pass when no other writer keeps winning the create race. All other recursion is
  structural or has a termination proof, so no fuel is needed. Reload goroutines are the sequence of their ticks.

  Not modelled: listening, serving and shutting down (I/O of net/http and grpc-go), the health and metrics routes, flags and logging, generated
  protobuf and deep-copy code, deployment manifests and scripts. Concurrency is modelled where code shares state (breaker, queue slots, store statements) as step relations;
  the shards' locks make the limiter's steps atomic.
\<close>

section \<open>From the request to the reconciler\<close>

lemma first_attempt:
  assumes "retry_bounded con" "con_rec con None txn w = (None, w')"
  shows "reconcileWithRetry con txn w = Some ((1, None), w')"
proof -
  have "sint (con_maxRetries con + 1) = sint (con_maxRetries con) + 1"
    using assms(1) by (intro sint64_add [THEN trans]) (auto simp: is_int64_def retry_bounded_def)
  then show ?thesis using assms by (simp add: reconcileWithRetry_def retry_loop.simps retry_bounded_def)
qed

lemma accepted_decodes:
  assumes "uuid_laws u" "accepted_fields ev" "time_Parse s = Inr (ev_OccurredAt ev)" "\<bar>gt_offset (ev_OccurredAt ev)\<bar> < 25 * 3600"
  shows "decodeTransaction u (kr_Value (event_record u topic ev)) = Inr (transaction_of ev)"
    "splitPartitionKey (kr_Key (event_record u topic ev)) = (ev_TenantID ev, ev_Instrument ev)"
proof -
  have "publishable ev" using assms(2-4) time_Parse_result(3) by (blast intro: accepted_publishable)
  then show "decodeTransaction u (kr_Value (event_record u topic ev)) = Inr (transaction_of ev)"
    using assms(1) by (simp add: event_record_def decode_event_payload)
  show "splitPartitionKey (kr_Key (event_record u topic ev)) = (ev_TenantID ev, ev_Instrument ev)"
    using assms(2) by (simp add: event_record_def accepted_fields_def splitPartitionKey_key tenant_no_colon)
qed

text \<open>
  C3: an accepted trade arrives unchanged. For an event that the REST endpoint validates (with a zone offset of less than 25 hours), the record
  that \<open>Publish\<close> writes carries a key that the partitioner splits back into the event's tenant and instrument, and a payload that the
  processor decodes to a transaction with exactly the identifier, tenant, instrument, side, amounts, currency and instant of the request;
  on such a record the consumer calls the reconciler with that transaction, and goes on when the call succeeds.
\<close>

theorem accepted_event_reconciled:
  assumes "uuid_laws u" "TransactionEventRequest_validate u event = None"
    and "time_Parse (tr_OccurredAt event) = Inr t" "\<bar>gt_offset t\<bar> < 25 * 3600"
    and "con_uuid con = u" "retry_bounded con" "ps_dlqErr p = None"
  shows "\<exists>ev txn. TransactionEventRequest_toIngestionEvent u event = Inr ev
    \<and> splitPartitionKey (kr_Key (event_record u topic ev)) = (tr_TenantID event, tr_Instrument event)
    \<and> uuid_Parse u (tr_EventID event) = Inr (tx_EventID txn) \<and> tx_TenantID txn = tr_TenantID event \<and> tx_Instrument txn = tr_Instrument event
    \<and> tx_Side txn = tr_Side event \<and> ParseAmount (tr_Quantity event) = Inr (tx_Quantity txn) \<and> ParseAmount (tr_Price event) = Inr (tx_Price txn)
    \<and> tx_Currency txn = tr_Currency event \<and> tx_OccurredAt txn = gt_ns t
    \<and> (\<forall>r w'. kr_Value r = kr_Value (event_record u topic ev) \<and> con_rec con None txn (ps_world p) = (None, w')
         \<longrightarrow> process_record con r p = Some (p\<lparr>ps_lastTenantID := tr_TenantID event, ps_lastOffset := kr_Offset r, ps_sawRecord := True, ps_world := w'\<rparr>))"
proof -
  obtain ev where ev: "TransactionEventRequest_toIngestionEvent u event = Inr ev" "accepted_fields ev" "time_Parse (tr_OccurredAt event) = Inr (ev_OccurredAt ev)"
    "ev_TenantID ev = tr_TenantID event" "ev_Instrument ev = tr_Instrument event"
    using validated_request [OF assms(2)] by metis
  have t: "ev_OccurredAt ev = t" using ev(3) assms(3) by simp
  note d = accepted_decodes [OF assms(1) ev(2,3) assms(4) [folded t], where topic = topic]
  have f: "uuid_Parse u (tr_EventID event) = Inr (ev_EventID ev)" "ev_Side ev = tr_Side event" "ParseAmount (tr_Quantity event) = Inr (ev_Quantity ev)"
    "ParseAmount (tr_Price event) = Inr (ev_Price ev)" "ev_Currency ev = tr_Currency event"
    using ev(1) by (auto simp: TransactionEventRequest_toIngestionEvent_def bind_res_Inr_iff)
  have "process_record con r p = Some (p\<lparr>ps_lastTenantID := tr_TenantID event, ps_lastOffset := kr_Offset r, ps_sawRecord := True, ps_world := w'\<rparr>)"
    if "kr_Value r = kr_Value (event_record u topic ev)" "con_rec con None (transaction_of ev) (ps_world p) = (None, w')" for r w'
    using that assms(5,7) d(1) first_attempt [OF assms(6) that(2)] ev(4) by (simp add: process_record_def Let_def transaction_of_def)
  then show ?thesis using ev f d(2) t by (intro exI [of _ ev] exI [of _ "transaction_of ev"]) (simp add: transaction_of_def)
qed

theorem accepted_event_reconciled_witness:
  "\<exists>ev. TransactionEventRequest_toIngestionEvent decimal_uuid demo_request = Inr ev
    \<and> process_record flaky (event_record decimal_uuid ''t'' ev) \<lparr>ps_lastTenantID = [], ps_lastOffset = 0, ps_sawRecord = False, ps_dlqErr = None, ps_world = 2\<rparr>
      = Some \<lparr>ps_lastTenantID = ''acme'', ps_lastOffset = 0, ps_sawRecord = True, ps_dlqErr = None, ps_world = 3\<rparr>"
proof -
  let ?p = "\<lparr>ps_lastTenantID = [], ps_lastOffset = 0, ps_sawRecord = False, ps_dlqErr = None, ps_world = 2 :: nat\<rparr>"
  obtain t where t: "time_Parse (tr_OccurredAt demo_request) = Inr t" "\<bar>gt_offset t\<bar> < 25 * 3600"
    by (simp add: demo_request_def time_Parse_def parse_RFC3339_def getyear_def get_char_def getnum_def is_digit_def digit_val_def parse_frac_def parse_zone_def
        dec_val_def daysIn_def month_lengths_def is_leap_def civil_time_def)
  have c: "con_uuid flaky = decimal_uuid" "retry_bounded flaky" "ps_dlqErr ?p = None" by (simp_all add: flaky_def retry_bounded_def)
  obtain ev txn where e: "TransactionEventRequest_toIngestionEvent decimal_uuid demo_request = Inr ev"
    "\<forall>r w'. kr_Value r = kr_Value (event_record decimal_uuid ''t'' ev) \<and> con_rec flaky None txn (ps_world ?p) = (None, w')
       \<longrightarrow> process_record flaky r ?p = Some (?p\<lparr>ps_lastTenantID := tr_TenantID demo_request, ps_lastOffset := kr_Offset r, ps_sawRecord := True, ps_world := w'\<rparr>)"
    using accepted_event_reconciled [OF decimal_uuid_laws demo_request_valid t c, where topic = "''t''"] by blast
  show ?thesis using e(1) e(2) [rule_format, of "event_record decimal_uuid ''t'' ev" 3] by (simp add: flaky_def event_record_def demo_request_def)
qed

text \<open>The bound on the offset is needed: a parser that allows 60 minutes reads an offset that is printed in a form it does not read.\<close>

lemma extreme_offset_undecodable:
  "(case time_Parse ''2024-01-01T00:00:00+24:60'' of Inl _ \<Rightarrow> False | Inr t \<Rightarrow> time_Format t = ''2024-01-01T00:00:00+25:00'')"
  "(case time_Parse ''2024-01-01T00:00:00+25:00'' of Inl _ \<Rightarrow> True | Inr t \<Rightarrow> False)"
  by code_simp+

end
